(* ===== verification/Prelude.thy ===== *)
theory Prelude
  imports Main "HOL-Library.Multiset" "HOL-Library.List_Lexorder" "HOL-Library.Char_ord" "HOL-Library.Product_Lexorder"
begin

text \<open>
  Shared vocabulary of the development: the types that name Go and SQL values, the table
  operations that the SQL statements are written with (filter, update, delete, order), and the
  generic lemmas on them.

  A Go \<open>time.Time\<close> is the number of nanoseconds since the zero time, so that \<open>IsZero\<close> is
  equality with 0, \<open>Truncate d\<close> subtracts the remainder, and \<open>UTC()\<close>, which changes only the
  location, is the identity.  A \<open>time.Duration\<close> is a number of nanoseconds.
\<close>

type_synonym time = int
type_synonym duration = int
type_synonym uuid = string

named_theorems row_simps \<open>rewriting of table operations\<close>

abbreviation microsecond :: duration where "microsecond \<equiv> 1000"
abbreviation second :: duration where "second \<equiv> 1000000000"
abbreviation minute :: duration where "minute \<equiv> 60000000000"
abbreviation hour :: duration where "hour \<equiv> 3600000000000"
abbreviation day :: duration where "day \<equiv> 86400000000000"

definition truncate_time :: "time \<Rightarrow> duration \<Rightarrow> time" where
  "truncate_time t d = (if d \<le> 0 then t else t - t mod d)"

lemma truncate_time_le: "truncate_time t d \<le> t"
  by (simp add: truncate_time_def)

lemma truncate_time_dvd: "0 < d \<Longrightarrow> d dvd truncate_time t d"
  by (simp add: truncate_time_def minus_mod_eq_mult_div)

lemma truncate_time_gt: "0 < d \<Longrightarrow> t < truncate_time t d + d"
  using pos_mod_bound[of d t] by (simp add: truncate_time_def)

subsection \<open>Tables\<close>

definition update_where :: "('r \<Rightarrow> bool) \<Rightarrow> ('r \<Rightarrow> 'r) \<Rightarrow> 'r list \<Rightarrow> 'r list" where
  "update_where p f rows = map (\<lambda>r. if p r then f r else r) rows"

definition count_where :: "('r \<Rightarrow> bool) \<Rightarrow> 'r list \<Rightarrow> nat" where
  "count_where p rows = length (filter p rows)"

definition exists_where :: "('r \<Rightarrow> bool) \<Rightarrow> 'r list \<Rightarrow> bool" where
  "exists_where p rows = list_ex p rows"

definition select_one :: "('r \<Rightarrow> bool) \<Rightarrow> 'r list \<Rightarrow> 'r option" where
  "select_one p rows = find p rows"

definition first_by :: "('r \<Rightarrow> 'k::linorder) \<Rightarrow> ('r \<Rightarrow> bool) \<Rightarrow> 'r list \<Rightarrow> 'r option" where
  "first_by key p rows = (case sort_key key (filter p rows) of [] \<Rightarrow> None | r # _ \<Rightarrow> Some r)"

definition last_by :: "('r \<Rightarrow> 'k::linorder) \<Rightarrow> ('r \<Rightarrow> bool) \<Rightarrow> 'r list \<Rightarrow> 'r option" where
  "last_by key p rows = (case rev (sort_key key (filter p rows)) of [] \<Rightarrow> None | r # _ \<Rightarrow> Some r)"

lemma length_update_where [simp]: "length (update_where p f rows) = length rows"
  by (simp add: update_where_def)

lemma update_where_Nil [simp]: "update_where p f [] = []"
  by (simp add: update_where_def)

lemma update_where_Cons [simp]:
  "update_where p f (r # rows) = (if p r then f r else r) # update_where p f rows"
  by (simp add: update_where_def)

lemma update_where_append [simp]:
  "update_where p f (xs @ ys) = update_where p f xs @ update_where p f ys"
  by (simp add: update_where_def)

lemma set_update_where:
  "set (update_where p f rows) = {if p r then f r else r | r. r \<in> set rows}"
  by (auto simp: update_where_def)

lemma in_update_whereE:
  assumes "y \<in> set (update_where p f rows)"
  obtains x where "x \<in> set rows" "y = (if p x then f x else x)"
  using assms unfolding set_update_where by blast

lemma update_where_key:
  assumes "\<And>r. p r \<Longrightarrow> key (f r) = key r"
  shows "map key (update_where p f rows) = map key rows"
  using assms by (induction rows) auto

lemma update_where_none:
  assumes "\<And>r. r \<in> set rows \<Longrightarrow> \<not> p r"
  shows "update_where p f rows = rows"
  using assms by (induction rows) auto

lemma update_where_all:
  assumes "\<And>r. r \<in> set rows \<Longrightarrow> inv_row r" "\<And>r. inv_row r \<Longrightarrow> p r \<Longrightarrow> inv_row (f r)"
  shows "\<forall>r\<in>set (update_where p f rows). inv_row r"
  using assms by (induction rows) auto

lemma update_where_list_all2:
  assumes "\<And>x. x \<in> set rows \<Longrightarrow> R x (if p x then f x else x)"
  shows "list_all2 R rows (update_where p f rows)"
  using assms by (induction rows) auto

lemma set_update_where_single:
  assumes "distinct (map key rows)" "i \<in> set rows" "p i" "\<And>j. j \<in> set rows \<Longrightarrow> p j \<Longrightarrow> key j = key i"
  shows "set (update_where p f rows) = insert (f i) (set rows - {i})"
proof -
  have only: "p j \<longleftrightarrow> j = i" if "j \<in> set rows" for j
    using assms that by (auto simp: distinct_map dest: inj_onD)
  have "set (update_where p f rows) = (\<lambda>j. if p j then f j else j) ` set rows"
    by (auto simp: set_update_where)
  also have "\<dots> = (\<lambda>j. if j = i then f j else j) ` set rows"
    by (rule image_cong) (simp_all add: only)
  also have "\<dots> = insert (f i) (set rows - {i})"
    using assms(2) by auto
  finally show ?thesis .
qed

lemma filter_update_where:
  assumes "\<And>j. p j \<Longrightarrow> \<not> q (f j)"
  shows "filter q (update_where p f rows) = filter (\<lambda>j. q j \<and> \<not> p j) rows"
  using assms by (induction rows) auto

lemma filter_update_where_same:
  assumes "\<And>j. p j \<Longrightarrow> q (f j) = q j"
  shows "filter q (update_where p f rows) = update_where p f (filter q rows)"
  using assms by (induction rows) auto

lemma count_where_0_iff: "count_where p rows = 0 \<longleftrightarrow> (\<forall>r\<in>set rows. \<not> p r)"
  by (auto simp: count_where_def filter_empty_conv)

lemma count_where_Nil [simp]: "count_where p [] = 0"
  by (simp add: count_where_def)

lemma count_where_Cons [simp]:
  "count_where p (r # rows) = (if p r then Suc (count_where p rows) else count_where p rows)"
  by (simp add: count_where_def)

lemma count_where_append [simp]:
  "count_where p (xs @ ys) = count_where p xs + count_where p ys"
  by (simp add: count_where_def)

lemma count_where_le_length: "count_where p rows \<le> length rows"
  by (simp add: count_where_def)

lemma exists_where_iff [simp]: "exists_where p rows \<longleftrightarrow> (\<exists>r\<in>set rows. p r)"
  by (simp add: exists_where_def list_ex_iff)

lemma select_one_Some:
  "select_one p rows = Some r \<Longrightarrow> r \<in> set rows \<and> p r"
  by (auto simp: select_one_def find_Some_iff in_set_conv_nth)

lemma select_one_None: "select_one p rows = None \<longleftrightarrow> (\<forall>r\<in>set rows. \<not> p r)"
  by (auto simp: select_one_def find_None_iff)

lemma select_one_update:
  assumes "\<And>r. p r \<Longrightarrow> p (f r)"
  shows "select_one p (update_where p f rows) = map_option f (select_one p rows)"
  using assms by (induction rows) (auto simp: select_one_def)

lemma select_one_append:
  "select_one p (xs @ ys) = (case select_one p xs of None \<Rightarrow> select_one p ys | Some r \<Rightarrow> Some r)"
  by (induction xs) (auto simp: select_one_def)

lemma first_by_Some:
  assumes "first_by key p rows = Some r"
  shows "r \<in> set rows \<and> p r \<and> (\<forall>s\<in>set rows. p s \<longrightarrow> key r \<le> key s)"
proof -
  obtain rest where sorted: "sort_key key (filter p rows) = r # rest"
    using assms by (auto simp: first_by_def split: list.splits)
  have members: "set (r # rest) = {s \<in> set rows. p s}"
    by (metis sorted set_sort set_filter)
  have "sorted (map key (r # rest))"
    by (metis sorted sorted_sort_key)
  then show ?thesis
    using members by auto
qed

lemma first_by_None: "first_by key p rows = None \<longleftrightarrow> (\<forall>r\<in>set rows. \<not> p r)"
  by (auto simp: first_by_def filter_empty_conv split: list.splits)
    (metis filter_False list.distinct(1) sort_key_simps(1) filter_empty_conv set_empty set_sort)+

lemma last_by_Some:
  assumes "last_by key p rows = Some r"
  shows "r \<in> set rows \<and> p r \<and> (\<forall>s\<in>set rows. p s \<longrightarrow> key s \<le> key r)"
proof -
  obtain rest where "rev (sort_key key (filter p rows)) = r # rest"
    using assms by (auto simp: last_by_def split: list.splits)
  then have sorted: "sort_key key (filter p rows) = rev rest @ [r]"
    by (simp add: rev_eq_Cons_iff)
  have members: "set (rev rest @ [r]) = {s \<in> set rows. p s}"
    by (metis sorted set_sort set_filter)
  have "sorted (map key (rev rest @ [r]))"
    by (metis sorted sorted_sort_key)
  then show ?thesis
    using members by (auto simp: sorted_append)
qed

subsection \<open>Sorting by a key that identifies\<close>

lemma sort_key_unique:
  assumes "distinct (map f xs)" "distinct (map f ys)" "set xs = set ys" "sorted (map f ys)"
  shows "sort_key f xs = ys"
proof -
  have "mset (map f (sort_key f xs)) = mset (map f xs)"
    by simp
  then have "distinct (map f (sort_key f xs))"
    using assms(1) by (metis mset_eq_imp_distinct_iff)
  then show ?thesis
    using assms
    by (intro map_sorted_distinct_set_unique) (auto simp: distinct_map)
qed

lemma distinct_replicate_iff: "distinct (replicate n x) \<longleftrightarrow> n \<le> 1"
  by (cases n) auto

lemma distinct_map_key: "distinct (map (g \<circ> f) xs) \<Longrightarrow> distinct (map f xs)"
  by (auto simp: distinct_map inj_on_def)

lemma sort_key_filter_unique:
  assumes "distinct (map f xs)"
  shows "sort_key f (filter p xs) = filter p (sort_key f xs)"
proof (rule sort_key_unique)
  have "mset (map f (sort_key f xs)) = mset (map f xs)"
    by simp
  then have "distinct (map f (sort_key f xs))"
    using assms by (metis mset_eq_imp_distinct_iff)
  then show "distinct (map f (filter p (sort_key f xs)))"
    by (rule distinct_map_filter)
qed (use assms in \<open>auto simp: distinct_map_filter sorted_filter\<close>)

lemma last_by_sorted:
  "last_by key p rows = (let s = sort_key key (filter p rows) in if s = [] then None else Some (last s))"
  by (auto simp: last_by_def Let_def last_rev hd_rev split: list.splits)

lemma sorted_split:
  assumes "sorted (map f xs)" "\<forall>x\<in>set xs. f x \<noteq> k"
  shows "filter (\<lambda>x. f x < k) xs @ filter (\<lambda>x. k < f x) xs = xs"
  using assms
proof (induction xs)
  case Nil
  then show ?case by simp
next
  case (Cons x xs)
  show ?case
  proof (cases "f x < k")
    case True
    then show ?thesis using Cons by auto
  next
    case False
    then have "k < f x" using Cons.prems by auto
    then have "\<forall>y\<in>set xs. k < f y" using Cons.prems by (auto intro: less_le_trans)
    then have "filter (\<lambda>y. f y < k) xs = []" "filter (\<lambda>y. k < f y) xs = xs"
      by (auto simp: filter_empty_conv filter_id_conv not_less less_imp_le)
    with \<open>k < f x\<close> show ?thesis by auto
  qed
qed

lemma distinct_sort_key: "distinct (map f xs) \<Longrightarrow> distinct (map f (sort_key f xs))"
  by (metis mset_map mset_sort mset_eq_imp_distinct_iff)

lemma sort_key_snoc:
  assumes "distinct (map f (xs @ [c]))"
  defines "lo \<equiv> filter (\<lambda>x. f x < f c) (sort_key f xs)"
    and "hi \<equiv> filter (\<lambda>x. f c < f x) (sort_key f xs)"
  shows "sort_key f xs = lo @ hi" "sort_key f (xs @ [c]) = lo @ c # hi"
    "sort_key f (filter (\<lambda>x. f c \<le> f x) (xs @ [c])) = c # hi"
proof -
  have fresh: "\<forall>x\<in>set (sort_key f xs). f x \<noteq> f c" and dxs: "distinct (map f xs)"
    using assms(1) by (auto simp: image_iff)
  show split: "sort_key f xs = lo @ hi"
    unfolding lo_def hi_def by (rule sorted_split[symmetric]) (use fresh in simp_all)
  have "distinct (map f (lo @ hi))"
    using distinct_sort_key[OF dxs] by (simp only: split)
  then have d: "distinct (map f (lo @ c # hi))"
    by (auto simp: lo_def hi_def)
  have "set xs = set (lo @ hi)"
    by (metis split set_sort)
  then have sets: "set (xs @ [c]) = set (lo @ c # hi)"
    by auto
  have "sorted (map f lo)" "sorted (map f hi)"
    by (simp_all add: lo_def hi_def sorted_filter)
  then have "sorted (map f (lo @ c # hi))"
    by (auto simp: sorted_append lo_def hi_def)
  then show whole: "sort_key f (xs @ [c]) = lo @ c # hi"
    by (rule sort_key_unique[OF assms(1) d sets])
  have "filter (\<lambda>x. f c \<le> f x) lo = []" "filter (\<lambda>x. f c \<le> f x) hi = hi"
    unfolding filter_empty_conv filter_id_conv by (auto simp: lo_def hi_def)
  then have "filter (\<lambda>x. f c \<le> f x) (lo @ c # hi) = c # hi"
    by simp
  then show "sort_key f (filter (\<lambda>x. f c \<le> f x) (xs @ [c])) = c # hi"
    by (simp only: sort_key_filter_unique[OF assms(1)] whole)
qed

lemma list_all2_source: "list_all2 R xs ys \<Longrightarrow> y \<in> set ys \<Longrightarrow> \<exists>x\<in>set xs. R x y"
  by (induction rule: list_all2_induct) auto

lemma list_all2_target: "list_all2 R xs ys \<Longrightarrow> x \<in> set xs \<Longrightarrow> \<exists>y\<in>set ys. R x y"
  by (induction rule: list_all2_induct) auto

end
