(* ===== verification/Authorization.thy ===== *)
theory Authorization
  imports Prelude
begin

text \<open>
  The role and permission policy of \<open>internal/authorization/policy.go\<close>.  Roles and permissions
  are strings in the code, so an unknown role reaches the same map lookup as a known one; the
  policy table is an association list of association lists and a missing key reads as false.
\<close>

type_synonym role = string
type_synonym permission = string

abbreviation RoleOwner :: role where "RoleOwner \<equiv> ''owner''"
abbreviation RoleAdmin :: role where "RoleAdmin \<equiv> ''admin''"
abbreviation RoleMember :: role where "RoleMember \<equiv> ''member''"
abbreviation RoleViewer :: role where "RoleViewer \<equiv> ''viewer''"

abbreviation PermissionMembersRead :: permission where "PermissionMembersRead \<equiv> ''members:read''"
abbreviation PermissionMembersInvite :: permission where "PermissionMembersInvite \<equiv> ''members:invite''"
abbreviation PermissionMonitorsRead :: permission where "PermissionMonitorsRead \<equiv> ''monitors:read''"
abbreviation PermissionMonitorsManage :: permission where "PermissionMonitorsManage \<equiv> ''monitors:manage''"
abbreviation PermissionIncidentsRead :: permission where "PermissionIncidentsRead \<equiv> ''incidents:read''"
abbreviation PermissionIncidentsManage :: permission where "PermissionIncidentsManage \<equiv> ''incidents:manage''"
abbreviation PermissionTenantRead :: permission where "PermissionTenantRead \<equiv> ''tenant:read''"
abbreviation PermissionTenantManage :: permission where "PermissionTenantManage \<equiv> ''tenant:manage''"
abbreviation PermissionMembersManage :: permission where "PermissionMembersManage \<equiv> ''members:manage''"

definition policy :: "(role \<times> (permission \<times> bool) list) list" where
  "policy =
    [(RoleOwner, [(PermissionMembersRead, True), (PermissionMembersInvite, True),
        (PermissionMembersManage, True), (PermissionMonitorsRead, True), (PermissionMonitorsManage, True),
        (PermissionIncidentsRead, True), (PermissionIncidentsManage, True), (PermissionTenantRead, True),
        (PermissionTenantManage, True)]),
     (RoleAdmin, [(PermissionMembersRead, True), (PermissionMembersInvite, True),
        (PermissionMembersManage, True), (PermissionMonitorsRead, True), (PermissionMonitorsManage, True),
        (PermissionIncidentsRead, True), (PermissionIncidentsManage, True), (PermissionTenantRead, True),
        (PermissionTenantManage, True)]),
     (RoleMember, [(PermissionMembersRead, True), (PermissionMonitorsRead, True),
        (PermissionMonitorsManage, True), (PermissionIncidentsRead, True), (PermissionIncidentsManage, True),
        (PermissionTenantRead, True)]),
     (RoleViewer, [(PermissionMembersRead, True), (PermissionMonitorsRead, True),
        (PermissionIncidentsRead, True), (PermissionTenantRead, True)])]"

definition Allows :: "role \<Rightarrow> permission \<Rightarrow> bool" where
  "Allows role permission =
     (case map_of policy role of
        None \<Rightarrow> False
      | Some row \<Rightarrow> (case map_of row permission of None \<Rightarrow> False | Some b \<Rightarrow> b))"

definition ValidAssignableRole :: "role \<Rightarrow> bool" where
  "ValidAssignableRole role \<longleftrightarrow> role = RoleAdmin \<or> role = RoleMember \<or> role = RoleViewer"

definition permission_order :: "permission list" where
  "permission_order =
     [PermissionTenantRead, PermissionTenantManage, PermissionMembersRead,
      PermissionMembersInvite, PermissionMembersManage, PermissionMonitorsRead,
      PermissionMonitorsManage, PermissionIncidentsRead, PermissionIncidentsManage]"

definition AllowedActions :: "role \<Rightarrow> string list" where
  "AllowedActions role = filter (Allows role) permission_order"

definition keys_in :: "permission list \<Rightarrow> (role \<times> (permission \<times> bool) list) list \<Rightarrow> bool" where
  "keys_in ps table = list_all (\<lambda>(r, row). list_all (\<lambda>(p, b). p \<in> set ps) row) table"

lemma keys_in_lookup:
  assumes "keys_in ps table" "map_of table role = Some row" "map_of row p = Some b"
  shows "p \<in> set ps"
  using assms by (fastforce simp: keys_in_def list_all_iff dest!: map_of_SomeD)

lemma Allows_known_permission: "Allows role p \<Longrightarrow> p \<in> set permission_order"
proof -
  have "keys_in permission_order policy"
    by code_simp
  then show "Allows role p \<Longrightarrow> p \<in> set permission_order"
    by (auto simp: Allows_def dest: keys_in_lookup split: option.splits)
qed

lemma distinct_permission_order: "distinct permission_order"
  by code_simp

text \<open>C1: the list of actions the API reports for a role is exactly the set of permissions the
  policy grants it, without repetition, for known and unknown roles alike: nothing is advertised
  that would be refused, and nothing granted is missing.\<close>

theorem AllowedActions_exact:
  "distinct (AllowedActions role) \<and> (p \<in> set (AllowedActions role)) = Allows role p"
  using Allows_known_permission[of role p] distinct_permission_order
  by (auto simp: AllowedActions_def)

end
