(* ===== verification/Transaction.thy ===== *)
theory Transaction
  imports Prelude
begin

text \<open>
  Handlers that talk to PostgreSQL and to remote services, as programs over a world.  The Go
  services all follow one shape: \<open>Begin\<close>, a deferred \<open>Rollback\<close>, statements whose errors
  return early, and a final \<open>Commit\<close>.  A world holds the committed database, the private copy of
  the open transaction, whether that transaction can still commit, the state of the remote
  services, and a schedule that says which of the coming round trips fail.  An empty schedule is a
  run without faults.

  A statement or a remote call whose round trip is \<open>Refused\<close> has no effect.  One that is
  \<open>Lost_Reply\<close> took effect at the far end but the caller sees an error; inside a transaction that
  makes no difference, because the transaction can then only be rolled back, but for \<open>Commit\<close> and
  for remote calls it does.  A transaction in which a statement failed accepts no further
  statement, and its \<open>Commit\<close> rolls back and reports an error, which is what PostgreSQL and pgx do.
\<close>

datatype fault = Fine | Refused | Lost_Reply

datatype db_error = Unavailable | Violation string | Aborted | NoRows

text \<open>A Go error: one that the database layer returned, or one of the service's own by its text.\<close>

datatype go_error = Db db_error | Err string

record ('d, 'x) world =
  faults :: "fault list"
  durable :: 'd
  work :: 'd
  broken :: bool
  outside :: 'x

type_synonym ('d, 'x, 'r) program = "('d, 'x) world \<Rightarrow> 'r \<times> ('d, 'x) world"
type_synonym ('d, 'a) statement = "'d \<Rightarrow> string + 'a \<times> 'd"

definition next_fault :: "('d, 'x) world \<Rightarrow> fault" where
  "next_fault w = (case faults w of [] \<Rightarrow> Fine | f # _ \<Rightarrow> f)"

definition pop_fault :: "('d, 'x) world \<Rightarrow> ('d, 'x) world" where
  "pop_fault w = w\<lparr>faults := tl (faults w)\<rparr>"

definition ret :: "'r \<Rightarrow> ('d, 'x, 'r) program" where
  "ret r w = (r, w)"

definition begin_tx ::
  "(db_error \<Rightarrow> ('d, 'x, 'r) program) \<Rightarrow> ('d, 'x, 'r) program \<Rightarrow> ('d, 'x, 'r) program" where
  "begin_tx h k w =
     (let w' = pop_fault w in
      if next_fault w = Fine then k (w'\<lparr>work := durable w, broken := False\<rparr>) else h Unavailable w')"

definition query ::
  "('d, 'a) statement \<Rightarrow> (db_error \<Rightarrow> ('d, 'x, 'r) program) \<Rightarrow> ('a \<Rightarrow> ('d, 'x, 'r) program)
   \<Rightarrow> ('d, 'x, 'r) program" where
  "query s h k w =
     (let w' = pop_fault w in
      if broken w then h Aborted w'
      else if next_fault w \<noteq> Fine then h Unavailable (w'\<lparr>broken := True\<rparr>)
      else (case s (work w) of
              Inl c \<Rightarrow> h (Violation c) (w'\<lparr>broken := True\<rparr>)
            | Inr (a, d) \<Rightarrow> k a (w'\<lparr>work := d\<rparr>)))"

definition commit_tx ::
  "(db_error \<Rightarrow> ('d, 'x, 'r) program) \<Rightarrow> ('d, 'x, 'r) program \<Rightarrow> ('d, 'x, 'r) program" where
  "commit_tx h k w =
     (let w' = pop_fault w in
      if broken w then h Aborted w'
      else (case next_fault w of
              Fine \<Rightarrow> k (w'\<lparr>durable := work w\<rparr>)
            | Refused \<Rightarrow> h Unavailable (w'\<lparr>broken := True\<rparr>)
            | Lost_Reply \<Rightarrow> h Unavailable (w'\<lparr>durable := work w, broken := True\<rparr>)))"

text \<open>A call of a remote service: it may fail before or after it took effect.\<close>

definition remote ::
  "('x \<Rightarrow> 'a \<times> 'x) \<Rightarrow> ('d, 'x, 'r) program \<Rightarrow> ('a \<Rightarrow> ('d, 'x, 'r) program) \<Rightarrow> ('d, 'x, 'r) program" where
  "remote f h k w =
     (let w' = pop_fault w; (a, x) = f (outside w) in
      case next_fault w of
        Fine \<Rightarrow> k a (w'\<lparr>outside := x\<rparr>)
      | Refused \<Rightarrow> h w'
      | Lost_Reply \<Rightarrow> h (w'\<lparr>outside := x\<rparr>))"

text \<open>Statements that change nothing, and statements that cannot violate a constraint.\<close>

definition reading :: "('d \<Rightarrow> 'a) \<Rightarrow> ('d, 'a) statement" where
  "reading f d = Inr (f d, d)"

definition writing :: "('d \<Rightarrow> 'd) \<Rightarrow> ('d, unit) statement" where
  "writing f d = Inr ((), f d)"

subsection \<open>Database invariants under every fault schedule\<close>

text \<open>
  A program keeps a database invariant when it leads from worlds whose committed and private
  databases satisfy it to such worlds, whatever fails on the way.
\<close>

named_theorems keeping \<open>rules for invariants of the database\<close>

definition keeps :: "('d \<Rightarrow> bool) \<Rightarrow> ('d, 'x, 'r) program \<Rightarrow> bool" where
  "keeps I p \<longleftrightarrow> (\<forall>w. I (durable w) \<and> I (work w) \<longrightarrow> I (durable (snd (p w))) \<and> I (work (snd (p w))))"

definition stmt_keeps :: "('d \<Rightarrow> bool) \<Rightarrow> ('d, 'a) statement \<Rightarrow> bool" where
  "stmt_keeps I s \<longleftrightarrow> (\<forall>d a d'. I d \<longrightarrow> s d = Inr (a, d') \<longrightarrow> I d')"

lemma pop_fault_sel [simp]:
  "faults (pop_fault w) = tl (faults w)" "durable (pop_fault w) = durable w"
  "work (pop_fault w) = work w" "broken (pop_fault w) = broken w" "outside (pop_fault w) = outside w"
  by (simp_all add: pop_fault_def)

lemma next_fault_Nil [simp]: "faults w = [] \<Longrightarrow> next_fault w = Fine"
  by (simp add: next_fault_def)

lemma pop_fault_Nil [simp]: "faults w = [] \<Longrightarrow> pop_fault w = w"
  by (simp add: pop_fault_def)

text \<open>The steps of a run without faults.\<close>

definition calm :: "('d, 'x) world \<Rightarrow> bool" where
  "calm w \<longleftrightarrow> faults w = [] \<and> \<not> broken w"

lemma calm_work [simp]: "calm (w\<lparr>work := d\<rparr>) = calm w"
  by (simp add: calm_def)

lemma calm_durable [simp]: "calm (w\<lparr>durable := d\<rparr>) = calm w"
  by (simp add: calm_def)

lemma calm_outside [simp]: "calm (w\<lparr>outside := x\<rparr>) = calm w"
  by (simp add: calm_def)

lemma calm_begin:
  "faults w = [] \<Longrightarrow> begin_tx h k w = k (w\<lparr>work := durable w, broken := False\<rparr>)"
  by (simp add: begin_tx_def)

lemma calm_query:
  "calm w \<Longrightarrow> s (work w) = Inr (a, d) \<Longrightarrow> query s h k w = k a (w\<lparr>work := d\<rparr>)"
  by (simp add: query_def calm_def)

lemma calm_reading: "calm w \<Longrightarrow> query (reading f) h k w = k (f (work w)) w"
  by (simp add: query_def calm_def reading_def)

lemma calm_writing: "calm w \<Longrightarrow> query (writing f) h k w = k () (w\<lparr>work := f (work w)\<rparr>)"
  by (simp add: query_def calm_def writing_def)

lemma calm_commit: "calm w \<Longrightarrow> commit_tx h k w = k (w\<lparr>durable := work w\<rparr>)"
  by (simp add: commit_tx_def calm_def)

lemma calm_remote:
  "faults w = [] \<Longrightarrow> remote f h k w = k (fst (f (outside w))) (w\<lparr>outside := snd (f (outside w))\<rparr>)"
  by (simp add: remote_def split: prod.splits)

lemmas calm_steps = calm_begin calm_reading calm_writing calm_commit calm_remote ret_def

lemma keepsI:
  "(\<And>w. I (durable w) \<Longrightarrow> I (work w) \<Longrightarrow> I (durable (snd (p w))) \<and> I (work (snd (p w)))) \<Longrightarrow> keeps I p"
  by (simp add: keeps_def)

lemma keepsD:
  "keeps I p \<Longrightarrow> I (durable w) \<Longrightarrow> I (work w) \<Longrightarrow> I (durable (snd (p w))) \<and> I (work (snd (p w)))"
  by (simp add: keeps_def)

lemma stmt_keepsD: "stmt_keeps I s \<Longrightarrow> I d \<Longrightarrow> s d = Inr (a, d') \<Longrightarrow> I d'"
  by (auto simp: stmt_keeps_def)

lemma keeps_ret [keeping]: "keeps I (ret r)"
  by (simp add: keeps_def ret_def)

lemma keeps_begin [keeping]:
  "(\<And>e. keeps I (h e)) \<Longrightarrow> keeps I k \<Longrightarrow> keeps I (begin_tx h k)"
  by (simp add: keeps_def begin_tx_def Let_def)

lemma keeps_query [keeping]:
  assumes "stmt_keeps I s" "\<And>e. keeps I (h e)" "\<And>a. keeps I (k a)"
  shows "keeps I (query s h k)"
  using assms by (auto intro!: keepsI simp: keeps_def query_def Let_def dest: stmt_keepsD split: sum.splits prod.splits)

lemma keeps_commit [keeping]:
  "(\<And>e. keeps I (h e)) \<Longrightarrow> keeps I k \<Longrightarrow> keeps I (commit_tx h k)"
  by (auto simp: keeps_def commit_tx_def Let_def split: fault.splits)

lemma keeps_remote [keeping]:
  "keeps I h \<Longrightarrow> (\<And>a. keeps I (k a)) \<Longrightarrow> keeps I (remote f h k)"
  by (auto simp: keeps_def remote_def Let_def split: fault.splits prod.splits)

lemma keeps_if [keeping]: "keeps I p \<Longrightarrow> keeps I q \<Longrightarrow> keeps I (if b then p else q)"
  by simp

lemma keeps_option [keeping]:
  "keeps I p \<Longrightarrow> (\<And>a. keeps I (q a)) \<Longrightarrow> keeps I (case opt of None \<Rightarrow> p | Some a \<Rightarrow> q a)"
  by (cases opt) auto

lemma keeps_prod [keeping]:
  "(\<And>a b. keeps I (p a b)) \<Longrightarrow> keeps I (case ab of (a, b) \<Rightarrow> p a b)"
  by (cases ab) auto

lemma keeps_let [keeping]: "(\<And>a. keeps I (p a)) \<Longrightarrow> keeps I (let a = b in p a)"
  by simp

lemma stmt_keeps_reading [keeping]: "stmt_keeps I (reading f)"
  by (simp add: stmt_keeps_def reading_def)

lemma stmt_keeps_writing: "(\<And>d. I d \<Longrightarrow> I (f d)) \<Longrightarrow> stmt_keeps I (writing f)"
  by (simp add: stmt_keeps_def writing_def)

subsection \<open>What a program may do to the committed database and the remote services\<close>

text \<open>
  A triple over the committed database and the remote services only.  Begin and statements do not
  change them, so a precondition passes through every statement up to the commit.
\<close>

named_theorems stepping \<open>rules for triples\<close>

definition triple ::
  "('d \<Rightarrow> 'x \<Rightarrow> bool) \<Rightarrow> ('d, 'x, 'r) program \<Rightarrow> ('r \<Rightarrow> 'd \<Rightarrow> 'x \<Rightarrow> bool) \<Rightarrow> bool" where
  "triple P p Q \<longleftrightarrow>
     (\<forall>w. P (durable w) (outside w) \<longrightarrow>
        Q (fst (p w)) (durable (snd (p w))) (outside (snd (p w))))"

lemma tripleD:
  "triple P p Q \<Longrightarrow> P (durable w) (outside w)
   \<Longrightarrow> Q (fst (p w)) (durable (snd (p w))) (outside (snd (p w)))"
  by (simp add: triple_def)

lemma triple_ret [stepping]: "(\<And>d x. P d x \<Longrightarrow> Q r d x) \<Longrightarrow> triple P (ret r) Q"
  by (simp add: triple_def ret_def)

lemma triple_begin [stepping]:
  "(\<And>e. triple P (h e) Q) \<Longrightarrow> triple P k Q \<Longrightarrow> triple P (begin_tx h k) Q"
  by (simp add: triple_def begin_tx_def Let_def)

lemma triple_query [stepping]:
  "(\<And>e. triple P (h e) Q) \<Longrightarrow> (\<And>a. triple P (k a) Q) \<Longrightarrow> triple P (query s h k) Q"
  by (auto simp: triple_def query_def Let_def split: sum.splits prod.splits)

lemma triple_commit:
  assumes "\<And>e. triple P (h e) Q" "\<And>e. triple P' (h e) Q" "triple P' k Q"
    and "\<And>d x d'. P d x \<Longrightarrow> P' d' x"
  shows "triple P (commit_tx h k) Q"
  using assms by (auto simp: triple_def commit_tx_def Let_def split: fault.splits)

lemma triple_if [stepping]: "triple P p Q \<Longrightarrow> triple P q Q \<Longrightarrow> triple P (if b then p else q) Q"
  by simp

lemma triple_option [stepping]:
  "triple P p Q \<Longrightarrow> (\<And>a. triple P (q a) Q) \<Longrightarrow> triple P (case opt of None \<Rightarrow> p | Some a \<Rightarrow> q a) Q"
  by (cases opt) auto

lemma triple_prod [stepping]:
  "(\<And>a b. triple P (p a b) Q) \<Longrightarrow> triple P (case ab of (a, b) \<Rightarrow> p a b) Q"
  by (cases ab) auto

lemma triple_let [stepping]: "(\<And>a. triple P (p a) Q) \<Longrightarrow> triple P (let a = b in p a) Q"
  by simp

subsection \<open>Composition of handlers\<close>

text \<open>Running one program and going on with what it returned, for handlers that call others.\<close>

definition and_then :: "('d, 'x, 'a) program \<Rightarrow> ('a \<Rightarrow> ('d, 'x, 'r) program) \<Rightarrow> ('d, 'x, 'r) program" where
  "and_then p k w = (case p w of (a, w') \<Rightarrow> k a w')"

lemma keeps_and_then [keeping]:
  "keeps I p \<Longrightarrow> (\<And>a. keeps I (k a)) \<Longrightarrow> keeps I (and_then p k)"
  by (auto simp: keeps_def and_then_def split: prod.splits)

lemma triple_and_then:
  "triple P p R \<Longrightarrow> (\<And>a. triple (R a) (k a) Q) \<Longrightarrow> triple P (and_then p k) Q"
  by (fastforce simp: triple_def and_then_def split: prod.splits)

lemma and_then_ret [simp]: "and_then (ret r) k = k r"
  by (simp add: and_then_def ret_def fun_eq_iff)

subsection \<open>Fragments of a transaction\<close>

text \<open>
  A fragment takes the error continuation and the success continuation of the function it belongs
  to.  Its outcome from a database is \<open>Q\<close>, or an error in \<open>E\<close>, when it goes on with some value on some
  database that satisfy \<open>Q\<close>, or takes the error continuation with an error in \<open>E\<close> or because a round
  trip failed; in all cases nothing outside the transaction has changed.  It yields \<open>Q\<close> when only a
  failed round trip can keep it from going on.
\<close>

type_synonym ('d, 'x, 'r, 'e, 'a) fragment =
  "('e \<Rightarrow> ('d, 'x, 'r) program) \<Rightarrow> ('a \<Rightarrow> ('d, 'x, 'r) program) \<Rightarrow> ('d, 'x, 'r) program"

definition private_step :: "('d, 'x) world \<Rightarrow> ('d, 'x) world \<Rightarrow> bool" where
  "private_step w w' \<longleftrightarrow> durable w' = durable w \<and> outside w' = outside w \<and> (faults w = [] \<longrightarrow> faults w' = [])"

definition ends_in ::
  "('d, 'x, 'r, 'e, 'a) fragment \<Rightarrow> 'd \<Rightarrow> ('e \<Rightarrow> bool) \<Rightarrow> ('a \<Rightarrow> 'd \<Rightarrow> bool) \<Rightarrow> bool" where
  "ends_in p d E Q \<longleftrightarrow>
     (\<forall>w h k. \<not> broken w \<longrightarrow> work w = d \<longrightarrow>
        (\<exists>a w'. p h k w = k a w' \<and> Q a (work w') \<and> \<not> broken w' \<and> private_step w w') \<or>
        (\<exists>e w'. (faults w \<noteq> [] \<or> E e) \<and> p h k w = h e w' \<and> private_step w w'))"

abbreviation yields :: "('d, 'x, 'r, 'e, 'a) fragment \<Rightarrow> 'd \<Rightarrow> ('a \<Rightarrow> 'd \<Rightarrow> bool) \<Rightarrow> bool" where
  "yields p d Q \<equiv> ends_in p d (\<lambda>_. False) Q"

lemma private_step_refl [simp]: "private_step w w"
  by (simp add: private_step_def)

lemma private_step_trans: "private_step w w' \<Longrightarrow> private_step w' w'' \<Longrightarrow> private_step w w''"
  by (simp add: private_step_def)

lemma ends_inE:
  assumes "ends_in p d E Q" "\<not> broken w" "work w = d"
  obtains (goes_on) a w' where "p h k w = k a w'" "Q a (work w')" "\<not> broken w'" "private_step w w'"
  | (fails) e w' where "faults w \<noteq> [] \<or> E e" "p h k w = h e w'" "private_step w w'"
  using assms(1)[unfolded ends_in_def, rule_format, OF assms(2,3), of h k] by blast

lemma yieldsD:
  assumes "yields p d Q" "calm w" "work w = d"
  shows "\<exists>a d'. p h k w = k a (w\<lparr>work := d'\<rparr>) \<and> Q a d'"
proof -
  have "\<not> broken w" "faults w = []"
    using assms(2) by (simp_all add: calm_def)
  from assms(1) this(1) assms(3) show ?thesis
  proof (cases rule: ends_inE[where h = h and k = k])
    case (goes_on a w')
    then have "w' = w\<lparr>work := work w'\<rparr>"
      using \<open>\<not> broken w\<close> \<open>faults w = []\<close>
      by (cases w, cases w') (simp add: private_step_def)
    with goes_on show ?thesis by metis
  qed (use \<open>faults w = []\<close> in simp)
qed

lemma ends_done: "Q a d \<Longrightarrow> ends_in (\<lambda>h k. k a) d E Q"
  unfolding ends_in_def by (metis private_step_refl)

lemma ends_fail: "E e \<Longrightarrow> ends_in (\<lambda>h k. h e) d E Q"
  unfolding ends_in_def by (metis private_step_refl)

lemma ends_weaken:
  fixes p :: "('d, 'x, 'r, 'e, 'a) fragment"
  assumes "ends_in p d E Q" "\<And>a d'. Q a d' \<Longrightarrow> Q' a d'" "\<And>e. E e \<Longrightarrow> E' e"
  shows "ends_in p d E' Q'"
  unfolding ends_in_def
proof (intro allI impI)
  fix w :: "('d, 'x) world" and h and k :: "'a \<Rightarrow> ('d, 'x, 'r) program"
  assume w: "\<not> broken w" "work w = d"
  show "(\<exists>a w'. p h k w = k a w' \<and> Q' a (work w') \<and> \<not> broken w' \<and> private_step w w') \<or>
        (\<exists>e w'. (faults w \<noteq> [] \<or> E' e) \<and> p h k w = h e w' \<and> private_step w w')"
    by (rule ends_inE[OF assms(1) w, of h k]) (use assms(2,3) in blast)+
qed

lemma ends_bind:
  fixes p :: "('d, 'x, 'r, 'e, 'a) fragment" and q :: "'a \<Rightarrow> ('d, 'x, 'r, 'e, 'b) fragment"
  assumes "ends_in p d E R" "\<And>a d'. R a d' \<Longrightarrow> ends_in (q a) d' E Q"
  shows "ends_in (\<lambda>h k. p h (\<lambda>a. q a h k)) d E Q"
  unfolding ends_in_def
proof (intro allI impI)
  fix w :: "('d, 'x) world" and h and k :: "'b \<Rightarrow> ('d, 'x, 'r) program"
  assume w: "\<not> broken w" "work w = d"
  let ?goal = "(\<exists>b v. p h (\<lambda>a. q a h k) w = k b v \<and> Q b (work v) \<and> \<not> broken v \<and> private_step w v) \<or>
        (\<exists>e v. (faults w \<noteq> [] \<or> E e) \<and> p h (\<lambda>a. q a h k) w = h e v \<and> private_step w v)"
  show ?goal
  proof (rule ends_inE[OF assms(1) w, of h "\<lambda>a. q a h k"])
    fix a w'
    assume p: "p h (\<lambda>a. q a h k) w = q a h k w'" "R a (work w')" "\<not> broken w'" "private_step w w'"
    show ?goal
    proof (rule ends_inE[OF assms(2)[OF p(2)] p(3) refl, of h k])
      fix b v
      assume "q a h k w' = k b v" "Q b (work v)" "\<not> broken v" "private_step w' v"
      with p show ?goal
        using private_step_trans by metis
    next
      fix e v
      assume "faults w' \<noteq> [] \<or> E e" "q a h k w' = h e v" "private_step w' v"
      moreover have "faults w \<noteq> [] \<or> E e"
        using calculation(1) p(4) by (auto simp: private_step_def)
      ultimately show ?goal
        using p private_step_trans by metis
    qed
  qed blast
qed

lemma ends_stmt:
  assumes "\<And>a d'. s d = Inr (a, d') \<Longrightarrow> Q a d'" "\<And>c. s d = Inl c \<Longrightarrow> E (f (Violation c))"
  shows "ends_in (\<lambda>h k. query s (h \<circ> f) k :: ('d, 'x, 'r) program) d E Q"
  unfolding ends_in_def
proof (intro allI impI)
  fix w :: "('d, 'x) world" and h and k :: "'a \<Rightarrow> ('d, 'x, 'r) program"
  assume w: "\<not> broken w" "work w = d"
  let ?goal = "(\<exists>a w'. query s (h \<circ> f) k w = k a w' \<and> Q a (work w') \<and> \<not> broken w' \<and> private_step w w') \<or>
      (\<exists>e w'. (faults w \<noteq> [] \<or> E e) \<and> query s (h \<circ> f) k w = h e w' \<and> private_step w w')"
  have broke: "private_step w ((pop_fault w)\<lparr>broken := True\<rparr>)"
    by (simp add: private_step_def)
  show ?goal
  proof (cases "next_fault w = Fine")
    case False
    with w have "query s (h \<circ> f) k w = h (f Unavailable) ((pop_fault w)\<lparr>broken := True\<rparr>)"
      by (simp add: query_def)
    moreover have "faults w \<noteq> []"
      using False by auto
    ultimately show ?thesis
      using broke by blast
  next
    case True
    show ?thesis
    proof (cases "s d")
      case (Inl c)
      with True w have "query s (h \<circ> f) k w = h (f (Violation c)) ((pop_fault w)\<lparr>broken := True\<rparr>)"
        by (simp add: query_def)
      with broke assms(2)[OF Inl] show ?thesis by blast
    next
      case (Inr ad)
      obtain a d' where ad: "ad = (a, d')"
        by (cases ad)
      with True w Inr have "query s (h \<circ> f) k w = k a ((pop_fault w)\<lparr>work := d'\<rparr>)"
        by (simp add: query_def)
      moreover have "Q a (work ((pop_fault w)\<lparr>work := d'\<rparr>))" "\<not> broken ((pop_fault w)\<lparr>work := d'\<rparr>)"
        "private_step w ((pop_fault w)\<lparr>work := d'\<rparr>)"
        using w assms(1)[OF Inr[unfolded ad]] by (simp_all add: private_step_def)
      ultimately show ?thesis by blast
    qed
  qed
qed

lemma ends_query:
  fixes q :: "'a \<Rightarrow> ('d, 'x, 'r, 'e, 'b) fragment"
  assumes "s d = Inr (a, d')" "ends_in (q a) d' E Q"
  shows "ends_in (\<lambda>h k. query s (h \<circ> f) (\<lambda>a. q a h k)) d E Q"
  by (rule ends_bind[OF ends_stmt[where Q = "\<lambda>b e. b = a \<and> e = d'"]]) (use assms in auto)

lemma ends_violation:
  assumes "s d = Inl c" "E (f (Violation c))"
  shows "ends_in (\<lambda>h k. query s (h \<circ> f) (\<lambda>a. q a h k)) d E Q"
  by (rule ends_bind[OF ends_stmt[where Q = "\<lambda>_ _. False"]]) (use assms in auto)

lemma ends_reading:
  "ends_in (q (g d)) d E Q \<Longrightarrow> ends_in (\<lambda>h k. query (reading g) (h \<circ> f) (\<lambda>a. q a h k)) d E Q"
  by (rule ends_query) (simp_all add: reading_def)

lemma ends_writing:
  "ends_in (q ()) (g d) E Q \<Longrightarrow> ends_in (\<lambda>h k. query (writing g) (h \<circ> f) (\<lambda>a. q a h k)) d E Q"
  by (rule ends_query) (simp_all add: writing_def)

lemma yields_weaken: "yields p d Q \<Longrightarrow> (\<And>a d'. Q a d' \<Longrightarrow> Q' a d') \<Longrightarrow> yields p d Q'"
  by (erule ends_weaken)

lemmas yields_done = ends_done[where E = "\<lambda>_. False"]
lemmas yields_bind = ends_bind[where E = "\<lambda>_. False"]
lemmas yields_query = ends_query[where E = "\<lambda>_. False"]
lemmas yields_reading = ends_reading[where E = "\<lambda>_. False"]
lemmas yields_writing = ends_writing[where E = "\<lambda>_. False"]
lemmas yields_steps = yields_reading yields_writing yields_done
lemmas ends_steps = ends_reading ends_writing ends_done ends_fail

lemma ends_tagged:
  fixes p :: "('d, 'x, 'r, 'e, 'a) fragment" and t :: "'e \<Rightarrow> 'f"
  assumes "ends_in p d E Q" "\<And>e. E e \<Longrightarrow> F (t e)"
  shows "ends_in (\<lambda>h k. p (h \<circ> t) k) d F Q"
  unfolding ends_in_def
proof (intro allI impI)
  fix w :: "('d, 'x) world" and h :: "'f \<Rightarrow> ('d, 'x, 'r) program" and k :: "'a \<Rightarrow> ('d, 'x, 'r) program"
  assume w: "\<not> broken w" "work w = d"
  show "(\<exists>a w'. p (h \<circ> t) k w = k a w' \<and> Q a (work w') \<and> \<not> broken w' \<and> private_step w w') \<or>
        (\<exists>e w'. (faults w \<noteq> [] \<or> F e) \<and> p (h \<circ> t) k w = h e w' \<and> private_step w w')"
    by (rule ends_inE[OF assms(1) w, of "h \<circ> t" k]) (use assms(2) in \<open>auto simp only: comp_apply\<close>, blast+)
qed

subsection \<open>Whole transactions\<close>

text \<open>
  The shape of a handler that is one transaction with a deferred rollback: everything it did is
  committed when it goes on with \<open>Inr\<close>, everything is rolled back when it returns before the commit
  (\<open>Inl\<close>), and nothing but a lost reply to the commit lets an error report hide a commit.  The three
  functions give what is returned for an error of the begin, of the body and of the commit.
\<close>

definition unit_of_work ::
  "(db_error \<Rightarrow> 'r) \<Rightarrow> ('e \<Rightarrow> 'r) \<Rightarrow> (db_error \<Rightarrow> 'r) \<Rightarrow> ('a \<Rightarrow> 'r) \<Rightarrow> ('d, 'x, 'r, 'e, 'r + 'a) fragment
   \<Rightarrow> ('d, 'x, 'r) program" where
  "unit_of_work no_begin bad no_commit good p =
     begin_tx (\<lambda>e. ret (no_begin e))
       (p (\<lambda>e. ret (bad e)) (\<lambda>v. case v of
            Inl r \<Rightarrow> ret r
          | Inr a \<Rightarrow> commit_tx (\<lambda>e. ret (no_commit e)) (ret (good a))))"

text \<open>The common case where all errors are returned alike.\<close>

definition transaction_or_return ::
  "(go_error \<Rightarrow> 'r) \<Rightarrow> ('a \<Rightarrow> 'r) \<Rightarrow> ('d, 'x, 'r, go_error, 'r + 'a) fragment \<Rightarrow> ('d, 'x, 'r) program" where
  "transaction_or_return bad good p = unit_of_work (bad \<circ> Db) bad (bad \<circ> Db) good p"

definition transaction ::
  "(go_error \<Rightarrow> 'r) \<Rightarrow> ('a \<Rightarrow> 'r) \<Rightarrow> ('d, 'x, 'r, go_error, 'a) fragment \<Rightarrow> ('d, 'x, 'r) program" where
  "transaction bad good p =
     begin_tx (\<lambda>e. ret (bad (Db e)))
       (p (\<lambda>e. ret (bad e)) (\<lambda>a. commit_tx (\<lambda>e. ret (bad (Db e))) (ret (good a))))"

lemma transaction_via_return:
  "transaction bad good p = transaction_or_return bad good (\<lambda>h k. p h (\<lambda>a. k (Inr a)))"
  by (simp add: transaction_def transaction_or_return_def unit_of_work_def comp_def)

lemma unit_of_workI:
  fixes p :: "('d, 'x, 'r, 'e, 'r + 'a) fragment"
  assumes "ends_in p (durable w) E Q"
    and good: "\<And>a w'. Q (Inr a) (durable w') \<Longrightarrow> outside w' = outside w \<Longrightarrow> (faults w = [] \<longrightarrow> faults w' = []) \<Longrightarrow> P (good a) w'"
    and early: "\<And>r d w'. Q (Inl r) d \<Longrightarrow> durable w' = durable w \<Longrightarrow> outside w' = outside w \<Longrightarrow> (faults w = [] \<longrightarrow> faults w' = []) \<Longrightarrow> P r w'"
    and starts: "\<And>e w'. faults w \<noteq> [] \<Longrightarrow> durable w' = durable w \<Longrightarrow> outside w' = outside w \<Longrightarrow> P (no_begin e) w'"
    and bad: "\<And>e w'. faults w \<noteq> [] \<or> E e \<Longrightarrow> durable w' = durable w \<Longrightarrow> outside w' = outside w \<Longrightarrow> P (bad e) w'"
    and refused: "\<And>e w' a d. faults w \<noteq> [] \<Longrightarrow> Q (Inr a) d \<Longrightarrow> durable w' = durable w \<Longrightarrow> outside w' = outside w \<Longrightarrow> P (no_commit e) w'"
    and lost: "\<And>e w' a. faults w \<noteq> [] \<Longrightarrow> Q (Inr a) (durable w') \<Longrightarrow> outside w' = outside w \<Longrightarrow> P (no_commit e) w'"
  shows "case unit_of_work no_begin bad no_commit good p w of (r, w') \<Rightarrow> P r w'"
proof (cases "next_fault w = Fine")
  case False
  then have "faults w \<noteq> []" by auto
  with False show ?thesis
    by (auto simp: unit_of_work_def begin_tx_def ret_def intro!: starts)
next
  case True
  let ?v = "(pop_fault w)\<lparr>work := durable w, broken := False\<rparr>"
  let ?h = "\<lambda>e. ret (bad e)"
  let ?k = "\<lambda>v. case v of Inl r \<Rightarrow> ret r | Inr a \<Rightarrow> commit_tx (\<lambda>e. ret (no_commit e)) (ret (good a))"
  have run: "unit_of_work no_begin bad no_commit good p w = p ?h ?k ?v"
    using True by (simp add: unit_of_work_def begin_tx_def)
  have "\<not> broken ?v" "work ?v = durable w" by simp_all
  with assms(1) show ?thesis
  proof (cases rule: ends_inE[where h = ?h and k = ?k])
    case (goes_on v u)
    have u: "durable u = durable w" "outside u = outside w" and fw: "faults w = [] \<Longrightarrow> faults u = []"
      using goes_on(4) by (auto simp: private_step_def)
    show ?thesis
    proof (cases v)
      case (Inl r)
      then show ?thesis
        using goes_on(1,2) u fw early by (auto simp: run ret_def)
    next
      case (Inr a)
      have Q: "Q (Inr a) (work u)" using goes_on(2) Inr by simp
      have "case commit_tx (\<lambda>e. ret (no_commit e)) (ret (good a)) u of (r, w') \<Rightarrow> P r w'"
      proof (cases "next_fault u = Fine")
        case True
        then show ?thesis
          using goes_on(3) u Q fw by (auto simp: commit_tx_def ret_def intro!: good)
      next
        case False
        then have "faults w \<noteq> []"
          using fw by fastforce
        with False show ?thesis
          using goes_on(3) u Q by (cases "next_fault u") (auto simp: commit_tx_def ret_def intro: refused lost)
      qed
      then show ?thesis
        using goes_on(1) Inr by (simp add: run)
    qed
  next
    case (fails e u)
    have "faults w \<noteq> [] \<or> E e"
      using fails(1) by auto
    with fails show ?thesis
      by (auto simp: run ret_def private_step_def intro!: bad)
  qed
qed

lemma transaction_or_returnI:
  fixes p :: "('d, 'x, 'r, go_error, 'r + 'a) fragment"
  assumes "ends_in p (durable w) E Q"
    and "\<And>a w'. Q (Inr a) (durable w') \<Longrightarrow> outside w' = outside w \<Longrightarrow> (faults w = [] \<longrightarrow> faults w' = []) \<Longrightarrow> P (good a) w'"
    and "\<And>r d w'. Q (Inl r) d \<Longrightarrow> durable w' = durable w \<Longrightarrow> outside w' = outside w \<Longrightarrow> (faults w = [] \<longrightarrow> faults w' = []) \<Longrightarrow> P r w'"
    and "\<And>e w'. faults w \<noteq> [] \<or> E e \<Longrightarrow> durable w' = durable w \<Longrightarrow> outside w' = outside w \<Longrightarrow> P (bad e) w'"
    and "\<And>e w' a. faults w \<noteq> [] \<Longrightarrow> Q (Inr a) (durable w') \<Longrightarrow> outside w' = outside w \<Longrightarrow> P (bad e) w'"
  shows "case transaction_or_return bad good p w of (r, w') \<Rightarrow> P r w'"
  unfolding transaction_or_return_def by (rule unit_of_workI[OF assms(1)]) (use assms in auto)

lemma transactionI:
  fixes p :: "('d, 'x, 'r, go_error, 'a) fragment"
  assumes "ends_in p (durable w) E Q"
    and "\<And>a w'. Q a (durable w') \<Longrightarrow> outside w' = outside w \<Longrightarrow> (faults w = [] \<longrightarrow> faults w' = []) \<Longrightarrow> P (good a) w'"
    and "\<And>e w'. faults w \<noteq> [] \<or> E e \<Longrightarrow> durable w' = durable w \<Longrightarrow> outside w' = outside w \<Longrightarrow> P (bad e) w'"
    and "\<And>e w' a. faults w \<noteq> [] \<Longrightarrow> Q a (durable w') \<Longrightarrow> outside w' = outside w \<Longrightarrow> P (bad e) w'"
  shows "case transaction bad good p w of (r, w') \<Rightarrow> P r w'"
  unfolding transaction_via_return
proof (rule transaction_or_returnI)
  show "ends_in (\<lambda>h k. p h (\<lambda>a. k (Inr a))) (durable w) E (\<lambda>v d. case v of Inl _ \<Rightarrow> False | Inr a \<Rightarrow> Q a d)"
    by (rule ends_bind[OF assms(1)]) (auto intro: ends_done)
qed (use assms in auto)

lemma triple_unit_of_work:
  fixes p :: "('d, 'x, 'r, 'e, 'r + 'a) fragment"
  assumes "\<And>d x. P d x \<Longrightarrow> ends_in p d E (\<lambda>v d'. case v of
             Inl r \<Rightarrow> Q r d x | Inr a \<Rightarrow> Q (good a) d' x \<and> (\<forall>e. Q (no_commit e) d' x))"
    and "\<And>d x e. P d x \<Longrightarrow> Q (no_begin e) d x" "\<And>d x e. P d x \<Longrightarrow> Q (bad e) d x" "\<And>d x e. P d x \<Longrightarrow> Q (no_commit e) d x"
  shows "triple P (unit_of_work no_begin bad no_commit good p) Q"
  unfolding triple_def
proof (intro allI impI)
  fix w :: "('d, 'x) world"
  assume P: "P (durable w) (outside w)"
  let ?run = "unit_of_work no_begin bad no_commit good p w"
  have "case ?run of (r, w') \<Rightarrow> Q r (durable w') (outside w')"
    by (rule unit_of_workI[OF assms(1)[OF P]]) (use assms(2-) P in auto)
  then show "Q (fst ?run) (durable (snd ?run)) (outside (snd ?run))"
    by (simp add: case_prod_beta)
qed

lemma triple_transaction_or_return:
  fixes p :: "('d, 'x, 'r, go_error, 'r + 'a) fragment"
  assumes "\<And>d x. P d x \<Longrightarrow> ends_in p d E (\<lambda>v d'. case v of
             Inl r \<Rightarrow> Q r d x | Inr a \<Rightarrow> Q (good a) d' x \<and> (\<forall>e. Q (bad e) d' x))"
    and "\<And>d x e. P d x \<Longrightarrow> Q (bad e) d x"
  shows "triple P (transaction_or_return bad good p) Q"
  unfolding transaction_or_return_def
proof (rule triple_unit_of_work)
  fix d x assume "P d x"
  show "ends_in p d E (\<lambda>v d'. case v of
      Inl r \<Rightarrow> Q r d x | Inr a \<Rightarrow> Q (good a) d' x \<and> (\<forall>e. Q ((bad \<circ> Db) e) d' x))"
    by (rule ends_weaken[OF assms(1)[OF \<open>P d x\<close>]]) (auto split: sum.splits)
qed (auto intro: assms(2))

lemma triple_transaction:
  fixes p :: "('d, 'x, 'r, go_error, 'a) fragment"
  assumes "\<And>d x. P d x \<Longrightarrow> ends_in p d E (\<lambda>a d'. Q (good a) d' x \<and> (\<forall>e. Q (bad e) d' x))"
    and "\<And>d x e. P d x \<Longrightarrow> Q (bad e) d x"
  shows "triple P (transaction bad good p) Q"
  unfolding transaction_via_return
proof (rule triple_transaction_or_return)
  fix d x assume "P d x"
  show "ends_in (\<lambda>h k. p h (\<lambda>a. k (Inr a))) d E
          (\<lambda>v d'. case v of Inl r \<Rightarrow> Q r d x | Inr a \<Rightarrow> Q (good a) d' x \<and> (\<forall>e. Q (bad e) d' x))"
    by (rule ends_bind[OF assms(1)[OF \<open>P d x\<close>]]) (auto intro: ends_done)
qed (rule assms(2))

lemma triple_remote:
  fixes f :: "'c \<Rightarrow> 'a \<times> 'c" and h :: "('b, 'c, 'r) program"
  assumes "\<And>d x. P d x \<Longrightarrow> P1 d x" "triple P1 h Q"
    and "\<And>d x. P d x \<Longrightarrow> P1 d (snd (f x))"
    and "\<And>a. triple (P2 a) (k a) Q" "\<And>d x. P d x \<Longrightarrow> P2 (fst (f x)) d (snd (f x))"
  shows "triple P (remote f h k) Q"
  unfolding triple_def
proof (intro allI impI)
  fix w :: "('b, 'c) world"
  assume P: "P (durable w) (outside w)"
  show "Q (fst (remote f h k w)) (durable (snd (remote f h k w))) (outside (snd (remote f h k w)))"
  proof (cases "next_fault w")
    case Fine
    then show ?thesis
      using tripleD[OF assms(4), of "fst (f (outside w))" "(pop_fault w)\<lparr>outside := snd (f (outside w))\<rparr>"]
        assms(5)[OF P] by (simp add: remote_def Let_def case_prod_beta)
  next
    case Refused
    then show ?thesis
      using tripleD[OF assms(2), of "pop_fault w"] assms(1)[OF P]
      by (simp add: remote_def Let_def case_prod_beta)
  next
    case Lost_Reply
    then show ?thesis
      using tripleD[OF assms(2), of "(pop_fault w)\<lparr>outside := snd (f (outside w))\<rparr>"] assms(3)[OF P]
      by (simp add: remote_def Let_def case_prod_beta)
  qed
qed


subsection \<open>Ignored errors\<close>

text \<open>A statement whose error is ignored: when it fails, the transaction is broken and what follows can
  only fail too, provided that it issues a statement or commits before it goes on.\<close>

definition ignoring :: "('d, 'a) statement \<Rightarrow> ('d, 'x, 'r) program \<Rightarrow> ('d, 'x, 'r) program" where
  "ignoring s p = query s (\<lambda>_. p) (\<lambda>_. p)"

definition aborts :: "('d, 'x, 'r, 'e, 'a) fragment \<Rightarrow> bool" where
  "aborts p \<longleftrightarrow> (\<forall>w h k. broken w \<longrightarrow> (\<exists>e w'. p h k w = h e w' \<and> private_step w w'))"

lemma aborts_query: "aborts (\<lambda>h k. query s (h \<circ> f) (q h k) :: ('d, 'x, 'r) program)"
  unfolding aborts_def
proof (intro allI impI)
  fix w :: "('d, 'x) world" and h and k
  assume "broken w"
  then have "query s (h \<circ> f) (q h k) w = h (f Aborted) (pop_fault w)" "private_step w (pop_fault w)"
    by (simp_all add: query_def private_step_def)
  then show "\<exists>e w'. query s (h \<circ> f) (q h k) w = h e w' \<and> private_step w w'"
    by blast
qed

lemma ends_ignored:
  fixes p :: "('d, 'x, 'r, 'e, 'a) fragment"
  assumes "s d = Inr (a, d')" "ends_in p d' E Q" "aborts p"
  shows "ends_in (\<lambda>h k. ignoring s (p h k)) d E Q"
  unfolding ends_in_def ignoring_def
proof (intro allI impI)
  fix w :: "('d, 'x) world" and h and k :: "'a \<Rightarrow> ('d, 'x, 'r) program"
  assume w: "\<not> broken w" "work w = d"
  let ?run = "query s (\<lambda>_. p h k) (\<lambda>_. p h k) w"
  show "(\<exists>a w'. ?run = k a w' \<and> Q a (work w') \<and> \<not> broken w' \<and> private_step w w') \<or>
        (\<exists>e w'. (faults w \<noteq> [] \<or> E e) \<and> ?run = h e w' \<and> private_step w w')"
  proof (cases "next_fault w = Fine")
    case True
    let ?v = "(pop_fault w)\<lparr>work := d'\<rparr>"
    have run: "?run = p h k ?v"
      using True w assms(1) by (simp add: query_def)
    have step: "private_step w u" if "private_step ?v u" for u
      using that by (simp add: private_step_def)
    have v: "\<not> broken ?v" "work ?v = d'" "faults ?v \<noteq> [] \<Longrightarrow> faults w \<noteq> []"
      using w by auto
    from assms(2) v(1,2) show ?thesis
      by (cases rule: ends_inE[where h = h and k = k]) (use run step v(3) in metis)+
  next
    case False
    let ?v = "(pop_fault w)\<lparr>broken := True\<rparr>"
    have run: "?run = p h k ?v"
      using False w by (simp add: query_def)
    have "faults w \<noteq> []"
      using False by auto
    moreover obtain e w' where "p h k ?v = h e w'" "private_step ?v w'"
      using assms(3)[unfolded aborts_def, rule_format, of ?v h k] by auto
    ultimately show ?thesis
      using run by (auto simp: private_step_def)
  qed
qed

lemma aborts_ignored: "aborts p \<Longrightarrow> aborts (\<lambda>h k. ignoring s (p h k) :: ('d, 'x, 'r) program)"
  unfolding aborts_def
proof (intro allI impI)
  fix w :: "('d, 'x) world" and h and k
  assume p: "\<forall>w h k. broken w \<longrightarrow> (\<exists>e w'. p h k w = h e w' \<and> private_step w w')" and "broken w"
  then have "ignoring s (p h k) w = p h k (pop_fault w)" "broken (pop_fault w)" "private_step w (pop_fault w)"
    by (simp_all add: ignoring_def query_def private_step_def)
  with p show "\<exists>e w'. ignoring s (p h k) w = h e w' \<and> private_step w w'"
    by (metis private_step_trans)
qed

lemma ends_ignored_violation:
  fixes p :: "('d, 'x, 'r, 'e, 'a) fragment"
  assumes "s d = Inl c" "aborts p"
  shows "ends_in (\<lambda>h k. ignoring s (p h k)) d (\<lambda>_. True) Q"
  unfolding ends_in_def
proof (intro allI impI)
  fix w :: "('d, 'x) world" and h and k :: "'a \<Rightarrow> ('d, 'x, 'r) program"
  assume w: "\<not> broken w" "work w = d"
  let ?v = "(pop_fault w)\<lparr>broken := True\<rparr>"
  have "ignoring s (p h k) w = p h k ?v"
    using w assms(1) by (simp add: ignoring_def query_def Let_def)
  moreover obtain e w' where "p h k ?v = h e w'" "private_step ?v w'"
    using assms(2)[unfolded aborts_def, rule_format, of ?v h k] by auto
  moreover have "private_step w w'"
    using calculation(3) by (simp add: private_step_def)
  ultimately show "(\<exists>a w'. ignoring s (p h k) w = k a w' \<and> Q a (work w') \<and> \<not> broken w' \<and> private_step w w') \<or>
      (\<exists>e w'. (faults w \<noteq> [] \<or> True) \<and> ignoring s (p h k) w = h e w' \<and> private_step w w')"
    by metis
qed

text \<open>A broken transaction that reaches its commit reports the abort.\<close>

definition settled :: "('d, 'x, 'r, go_error, 'a) fragment \<Rightarrow> ('d, 'x, 'r, go_error, 'a) fragment" where
  "settled p h k = p h (\<lambda>a w. if broken w then h (Db Aborted) (pop_fault w) else k a w)"

lemma transaction_settled: "transaction bad good p = transaction bad good (settled p)"
proof -
  have "commit_tx (\<lambda>e. ret (bad (Db e))) (ret (good a)) =
      (\<lambda>w. if broken w then ret (bad (Db Aborted)) (pop_fault w) else commit_tx (\<lambda>e. ret (bad (Db e))) (ret (good a)) w)" for a
    by (simp add: fun_eq_iff commit_tx_def)
  then show ?thesis
    unfolding transaction_def settled_def by metis
qed

lemma ends_settled:
  fixes p :: "('d, 'x, 'r, go_error, 'a) fragment"
  assumes "ends_in p d E Q"
  shows "ends_in (settled p) d E Q"
  unfolding ends_in_def
proof (intro allI impI)
  fix w :: "('d, 'x) world" and h and k :: "'a \<Rightarrow> ('d, 'x, 'r) program"
  assume w: "\<not> broken w" "work w = d"
  let ?k = "\<lambda>a w. if broken w then h (Db Aborted) (pop_fault w) else k a w"
  from assms w show "(\<exists>a w'. settled p h k w = k a w' \<and> Q a (work w') \<and> \<not> broken w' \<and> private_step w w') \<or>
      (\<exists>e w'. (faults w \<noteq> [] \<or> E e) \<and> settled p h k w = h e w' \<and> private_step w w')"
    unfolding settled_def by (cases rule: ends_inE[where h = h and k = ?k]) auto
qed

lemma aborts_settled_end: "aborts (settled (\<lambda>h k. k a))"
  unfolding aborts_def settled_def by (auto simp: private_step_def intro!: exI[of _ "Db Aborted"])


subsection \<open>Sequences of calls\<close>

text \<open>A sequence of calls of one service, and what a relation that every call respects says about it.\<close>

fun run_all :: "('c \<Rightarrow> ('d, 'x, 'r) program) \<Rightarrow> 'c list \<Rightarrow> ('d, 'x, 'r list) program" where
  "run_all p [] = ret []"
| "run_all p (c # cs) = and_then (p c) (\<lambda>r. and_then (run_all p cs) (\<lambda>rs. ret (r # rs)))"

locale call_sequence =
  fixes perform :: "'c \<Rightarrow> ('d, 'x, 'r) program" and R :: "'d \<Rightarrow> 'd \<Rightarrow> bool"
  assumes relation_refl: "R d d"
    and relation_trans: "R a b \<Longrightarrow> R b d \<Longrightarrow> R a d"
    and call_related: "R (durable w) (durable (snd (perform c w)))"
begin

lemma run_related: "R (durable w) (durable (snd (run_all perform cs w)))"
proof (induction cs arbitrary: w)
  case Nil
  then show ?case by (simp add: ret_def relation_refl)
next
  case (Cons c cs)
  obtain r w' where c: "perform c w = (r, w')" by fastforce
  obtain rs w'' where cs: "run_all perform cs w' = (rs, w'')" by fastforce
  have "R (durable w) (durable w')"
    using call_related[of w c] by (simp add: c)
  moreover have "R (durable w') (durable w'')"
    using Cons.IH[of w'] by (simp add: cs)
  ultimately show ?case
    by (simp add: and_then_def ret_def c cs) (rule relation_trans)
qed

end

end
