(* ===== verification/Schema.thy ===== *)
theory Schema
  imports Transaction
begin

text \<open>
  The PostgreSQL schema of \<open>db/migrations\<close>, as far as the modelled statements read or write it.
  A table is the list of its rows in insertion order and a row is a record whose nullable columns
  are options.  Columns that no modelled statement reads (\<open>updated_at\<close> and most \<open>created_at\<close>
  columns) are left out.  Byte strings and text are both lists of characters, which HOL's
  eight-bit characters make the same thing as Go's strings and byte slices.

  A row identifier that the schema draws with \<open>gen_random_uuid()\<close> comes from the sequence
  \<open>db_rand\<close>, so that a statement stays a function; statements about fresh identifiers assume of
  that sequence what they need.

  The constraints that the statements rely on are written into the statements of the component
  theories: a statement that would break one returns the constraint's name.
\<close>

type_synonym bytes = string

record monitor_row =
  mon_id :: uuid
  mon_organization_id :: uuid
  mon_environment_id :: uuid
  mon_target_url :: string
  mon_method :: string
  mon_interval_seconds :: int
  mon_timeout_seconds :: int
  mon_expected_status_min :: int
  mon_expected_status_max :: int
  mon_version :: int
  mon_paused_at :: "time option"
  mon_deleted_at :: "time option"
  mon_next_check_at :: time
  mon_headers_ciphertext :: bytes
  mon_header_key_version :: "int option"
  mon_worker_pool_id :: string

record worker_pool_row =
  wp_id :: string
  wp_mode :: string
  wp_enabled :: bool
  wp_lifecycle_state :: string
  wp_schema_min :: int
  wp_schema_max :: int
  wp_network_policy_version :: int
  wp_encryption_key_id :: "string option"
  wp_encryption_public_key :: "bytes option"
  wp_result_key_id :: "string option"
  wp_result_public_key :: "bytes option"
  wp_job_queue_url :: "string option"
  wp_job_queue_arn :: "string option"
  wp_job_dlq_url :: "string option"
  wp_job_dlq_arn :: "string option"
  wp_manifest_digest :: "bytes option"

record credential_row =
  cr_worker_pool_id :: string
  cr_purpose :: string
  cr_key_id :: string
  cr_public_material :: "bytes option"
  cr_fingerprint :: string
  cr_status :: string
  cr_activates_at :: time
  cr_revoked_at :: "time option"
  cr_not_after :: "time option"

record pool_audit_row =
  pa_worker_pool_id :: string
  pa_action :: string
  pa_actor :: string
  pa_reason :: string

record check_job_row =
  cj_id :: uuid
  cj_organization_id :: uuid
  cj_environment_id :: uuid
  cj_monitor_id :: uuid
  cj_job_type :: string
  cj_state :: string
  cj_scheduled_at :: time
  cj_monitor_version :: int
  cj_worker_pool_id :: string
  cj_snapshot_hash :: bytes
  cj_expires_at :: time
  cj_started_at :: "time option"
  cj_completed_at :: "time option"
  cj_worker_id :: "string option"
  cj_execution_attempt_id :: "uuid option"
  cj_sqs_message_id :: "string option"
  cj_last_safe_error :: "string option"
  cj_created_at :: time

record dispatch_row =
  do_job_id :: uuid
  do_worker_pool_id :: string
  do_queue_url :: string
  do_message_body :: bytes
  do_schema_version :: int
  do_platform_key_id :: string
  do_worker_encryption_key_id :: string
  do_snapshot_hash :: bytes
  do_message_deduplication_id :: string
  do_message_group_id :: string
  do_expires_at :: time
  do_publish_state :: string
  do_publish_attempts :: int
  do_next_attempt_at :: time
  do_publish_lease_token :: "uuid option"
  do_publish_lease_expires_at :: "time option"
  do_sqs_message_id :: "string option"
  do_last_safe_error :: "string option"
  do_published_at :: "time option"
  do_created_at :: time

record health_check_row =
  hc_job_id :: uuid
  hc_result_id :: "uuid option"
  hc_organization_id :: uuid
  hc_environment_id :: uuid
  hc_monitor_id :: uuid
  hc_job_type :: string
  hc_scheduled_at :: time
  hc_started_at :: time
  hc_completed_at :: time
  hc_succeeded :: bool
  hc_status_code :: "int option"
  hc_error_category :: "string option"
  hc_total_duration_microseconds :: int
  hc_snapshot_hash :: bytes
  hc_worker_pool_id :: string
  hc_worker_id :: string
  hc_execution_attempt_id :: uuid

record coverage_gap_row =
  cg_organization_id :: uuid
  cg_environment_id :: uuid
  cg_monitor_id :: uuid
  cg_scheduled_at :: time
  cg_reason :: string

record reliability_state_row =
  rs_monitor_id :: uuid
  rs_display_state :: string
  rs_observed_state :: string
  rs_consecutive_failures :: int
  rs_consecutive_successes :: int
  rs_last_observed_scheduled_at :: "time option"
  rs_last_observed_job_id :: "uuid option"
  rs_newest_expected_scheduled_at :: "time option"
  rs_last_evaluated_scheduled_at :: "time option"
  rs_last_evaluated_job_id :: "uuid option"

record evaluation_row =
  ev_monitor_id :: uuid
  ev_job_id :: uuid
  ev_scheduled_at :: time
  ev_succeeded :: bool
  ev_observed_state :: string
  ev_consecutive_failures :: int
  ev_consecutive_successes :: int

record position_row =
  ep_monitor_id :: uuid
  ep_last_scheduled_at :: "time option"
  ep_last_job_id :: "uuid option"
  ep_invalidated_from :: "time option"

record correction_row =
  sc_monitor_id :: uuid
  sc_accepted_job_id :: uuid
  sc_corrected_from :: time
  sc_previous_display_state :: string
  sc_corrected_display_state :: string

record schedule_period_row =
  sp_organization_id :: uuid
  sp_environment_id :: uuid
  sp_monitor_id :: uuid
  sp_interval_seconds :: int
  sp_worker_pool_id :: string
  sp_starts_at :: time
  sp_first_slot_at :: time
  sp_ends_at :: "time option"

record rollup_row =
  ru_organization_id :: uuid
  ru_environment_id :: uuid
  ru_monitor_id :: uuid
  ru_bucket_start :: time
  ru_expected_checks :: int
  ru_observed_checks :: int
  ru_successful_checks :: int
  ru_unknown_checks :: int
  ru_total_duration_microseconds :: int

record invalidation_row =
  ri_monitor_id :: uuid
  ri_bucket_kind :: string
  ri_bucket_start :: time
  ri_reason :: string

record checkpoint_row =
  ck_hourly_through :: time
  ck_daily_through :: time
  ck_last_retention_at :: "time option"

record alert_rule_row =
  ar_id :: uuid
  ar_organization_id :: uuid
  ar_environment_id :: uuid
  ar_monitor_id :: uuid
  ar_rule_key :: string
  ar_failure_threshold :: int
  ar_recovery_threshold :: int
  ar_enabled :: bool

record incident_row =
  in_id :: uuid
  in_organization_id :: uuid
  in_environment_id :: uuid
  in_monitor_id :: uuid
  in_alert_rule_id :: uuid
  in_status :: string
  in_started_at :: time
  in_opened_at :: time
  in_acknowledged_at :: "time option"
  in_acknowledged_by_user_id :: "uuid option"
  in_resolved_at :: "time option"
  in_resolved_by_user_id :: "uuid option"
  in_resolution_kind :: "string option"
  in_resolution_reason :: "string option"

record incident_event_row =
  ie_id :: uuid
  ie_organization_id :: uuid
  ie_environment_id :: uuid
  ie_incident_id :: uuid
  ie_event_key :: string
  ie_event_type :: string
  ie_actor_user_id :: "uuid option"
  ie_source_job_id :: "uuid option"
  ie_safe_reason :: "string option"
  ie_occurred_at :: time

record notification_row =
  no_delivery_id :: uuid
  no_organization_id :: uuid
  no_incident_id :: uuid
  no_incident_event_id :: uuid
  no_recipient_user_id :: uuid
  no_recipient_email :: string
  no_transition :: string
  no_state :: string
  no_attempt_count :: int
  no_next_attempt_at :: time
  no_lease_owner :: "string option"
  no_lease_token :: "uuid option"
  no_lease_expires_at :: "time option"
  no_provider_message_id :: "string option"
  no_last_provider_status :: "string option"
  no_accepted_at :: "time option"
  no_failed_at :: "time option"
  no_created_at :: time

record attempt_row =
  na_delivery_id :: uuid
  na_attempt_number :: int
  na_outcome :: string
  na_provider_status :: string
  na_attempted_at :: time

record user_row =
  us_id :: uuid
  us_email :: string
  us_email_verified_at :: "time option"

record member_row =
  om_organization_id :: uuid
  om_user_id :: uuid
  om_role :: string
  om_incident_notifications_enabled :: bool

record refresh_event_row =
  re_organization_id :: uuid
  re_environment_id :: uuid
  re_event_type :: string
  re_resource_type :: string
  re_resource_id :: uuid

record operational_event_row =
  oe_event_type :: string
  oe_job_id :: "uuid option"
  oe_worker_pool_id :: "string option"
  oe_safe_details :: string

record quarantine_row =
  qu_id :: uuid
  qu_queue_kind :: string
  qu_job_id :: "uuid option"
  qu_result_id :: "uuid option"
  qu_worker_pool_id :: "string option"
  qu_snapshot_hash :: "bytes option"
  qu_safe_reason :: string
  qu_encrypted_payload :: bytes
  qu_redrive_count :: int
  qu_status :: string

record conflict_row =
  rc_job_id :: uuid
  rc_result_id :: uuid
  rc_worker_pool_id :: string
  rc_snapshot_hash :: bytes
  rc_safe_reason :: string
  rc_encrypted_payload :: bytes

record database =
  db_rand :: "nat \<Rightarrow> uuid"
  db_drawn :: nat
  users :: "user_row list"
  org_members :: "member_row list"
  monitors :: "monitor_row list"
  worker_pools :: "worker_pool_row list"
  worker_pool_credentials :: "credential_row list"
  worker_pool_audit_events :: "pool_audit_row list"
  check_jobs :: "check_job_row list"
  check_dispatch_outbox :: "dispatch_row list"
  health_checks :: "health_check_row list"
  check_result_conflicts :: "conflict_row list"
  monitoring_quarantine :: "quarantine_row list"
  monitoring_coverage_gaps :: "coverage_gap_row list"
  monitoring_operational_events :: "operational_event_row list"
  monitor_schedule_periods :: "schedule_period_row list"
  monitor_reliability_states :: "reliability_state_row list"
  monitor_result_evaluations :: "evaluation_row list"
  monitor_evaluation_positions :: "position_row list"
  monitor_state_correction_events :: "correction_row list"
  monitor_rollups_hourly :: "rollup_row list"
  monitor_rollups_daily :: "rollup_row list"
  monitor_rollup_invalidations :: "invalidation_row list"
  monitoring_rollup_checkpoint :: "checkpoint_row list"
  alert_rules :: "alert_rule_row list"
  incidents :: "incident_row list"
  incident_events :: "incident_event_row list"
  notification_outbox :: "notification_row list"
  notification_attempts :: "attempt_row list"
  api_refresh_events :: "refresh_event_row list"

type_synonym ('x, 'r) handler = "(database, 'x, 'r) program"
type_synonym 'a sql = "(database, 'a) statement"

definition empty_database :: "(nat \<Rightarrow> uuid) \<Rightarrow> database" where
  "empty_database rand =
     \<lparr>db_rand = rand, db_drawn = 0, users = [], org_members = [], monitors = [], worker_pools = [],
      worker_pool_credentials = [], worker_pool_audit_events = [], check_jobs = [],
      check_dispatch_outbox = [], health_checks = [], check_result_conflicts = [],
      monitoring_quarantine = [], monitoring_coverage_gaps = [], monitoring_operational_events = [],
      monitor_schedule_periods = [], monitor_reliability_states = [], monitor_result_evaluations = [],
      monitor_evaluation_positions = [], monitor_state_correction_events = [],
      monitor_rollups_hourly = [], monitor_rollups_daily = [], monitor_rollup_invalidations = [],
      monitoring_rollup_checkpoint = [], alert_rules = [], incidents = [], incident_events = [],
      notification_outbox = [], notification_attempts = [], api_refresh_events = []\<rparr>"

text \<open>The value that the next \<open>gen_random_uuid()\<close> returns, and the database after drawing it.\<close>

definition fresh_uuid :: "database \<Rightarrow> uuid" where
  "fresh_uuid db = db_rand db (db_drawn db)"

definition drawn_uuid :: "database \<Rightarrow> database" where
  "drawn_uuid db = db\<lparr>db_drawn := Suc (db_drawn db)\<rparr>"

text \<open>A numbered identifier, for concrete runs.\<close>

definition sample_uuid :: "nat \<Rightarrow> uuid" where
  "sample_uuid n = replicate n CHR ''u''"

text \<open>
  pgx sends a \<open>timestamptz\<close> as a count of microseconds, so a Go time loses its nanoseconds on the
  way to the database.
\<close>

definition databaseTimestamp :: "time \<Rightarrow> time" where
  "databaseTimestamp t = truncate_time t microsecond"

text \<open>\<open>NULLIF(text, '')\<close> and \<open>COALESCE(text, '')\<close>.\<close>

definition nullif_empty :: "string \<Rightarrow> string option" where
  "nullif_empty s = (if s = '''' then None else Some s)"

definition coalesce_empty :: "string option \<Rightarrow> string" where
  "coalesce_empty s = (case s of None \<Rightarrow> '''' | Some t \<Rightarrow> t)"

text \<open>\<open>btrim\<close> removes spaces at both ends; \<open>lower\<close> maps the ASCII capitals.\<close>

definition btrim :: "string \<Rightarrow> string" where
  "btrim s = rev (dropWhile (\<lambda>c. c = CHR '' '') (rev (dropWhile (\<lambda>c. c = CHR '' '') s)))"

definition lower_char :: "char \<Rightarrow> char" where
  "lower_char c = (if 65 \<le> (of_char c :: int) \<and> (of_char c :: int) \<le> 90 then char_of (of_char c + 32 :: int) else c)"

definition lower :: "string \<Rightarrow> string" where
  "lower s = map lower_char s"

text \<open>\<open>generate_series(start, stop, step)\<close> on timestamps.\<close>

definition generate_series :: "time \<Rightarrow> time \<Rightarrow> duration \<Rightarrow> time list" where
  "generate_series start stop step =
     (if step \<le> 0 \<or> stop < start then []
      else map (\<lambda>i. start + int i * step) [0..<Suc (nat ((stop - start) div step))])"

text \<open>The states in which a job still counts as outstanding.\<close>

definition active_state :: "string \<Rightarrow> bool" where
  "active_state s \<longleftrightarrow> s \<in> set [''pending'', ''pending_publish'', ''published'', ''running'']"

lemma databaseTimestamp_idem [simp]: "databaseTimestamp (databaseTimestamp t) = databaseTimestamp t"
proof -
  have "microsecond dvd databaseTimestamp t"
    by (simp add: databaseTimestamp_def truncate_time_dvd)
  then show ?thesis
    by (simp add: databaseTimestamp_def truncate_time_def)
qed

lemma databaseTimestamp_le: "databaseTimestamp t \<le> t"
  by (simp add: databaseTimestamp_def truncate_time_le)

lemma coalesce_nullif [simp]: "coalesce_empty (nullif_empty s) = s"
  by (simp add: coalesce_empty_def nullif_empty_def)

lemma series_bound:
  assumes "(0::int) < step"
  shows "int i \<le> (stop - start) div step \<longleftrightarrow> start + int i * step \<le> stop"
proof -
  have "int i \<le> (stop - start) div step \<longleftrightarrow> int i * step \<le> stop - start"
  proof
    assume "int i \<le> (stop - start) div step"
    then have "int i * step \<le> (stop - start) div step * step"
      by (rule mult_right_mono) (use assms in simp)
    also have "\<dots> \<le> stop - start"
      using assms pos_mod_sign[of step "stop - start"] div_mult_mod_eq[of "stop - start" step] by linarith
    finally show "int i * step \<le> stop - start" .
  next
    assume "int i * step \<le> stop - start"
    then have "(int i * step) div step \<le> (stop - start) div step"
      by (rule zdiv_mono1) (rule assms)
    then show "int i \<le> (stop - start) div step"
      using assms by simp
  qed
  then show ?thesis
    by linarith
qed

lemma in_generate_series:
  "t \<in> set (generate_series start stop step) \<longleftrightarrow>
     0 < step \<and> t \<le> stop \<and> (\<exists>i. t = start + int i * step)"
proof (cases "step \<le> 0 \<or> stop < start")
  case True
  have "\<not> start + int i * step \<le> stop" if "0 < step" "stop < start" for i
    using that mult_nonneg_nonneg[of "int i" step] by linarith
  with True show ?thesis
    by (auto simp: generate_series_def)
next
  case False
  then have pos: "0 < step" and nn: "0 \<le> (stop - start) div step"
    by (simp_all add: pos_imp_zdiv_nonneg_iff)
  have "t \<in> set (generate_series start stop step) \<longleftrightarrow>
        (\<exists>i. i < Suc (nat ((stop - start) div step)) \<and> t = start + int i * step)"
    using False by (auto simp: generate_series_def simp del: upt_Suc)
  also have "\<dots> \<longleftrightarrow> (\<exists>i. int i \<le> (stop - start) div step \<and> t = start + int i * step)"
    using nn by (metis less_Suc_eq_le le_nat_iff)
  also have "\<dots> \<longleftrightarrow> (\<exists>i. start + int i * step \<le> stop \<and> t = start + int i * step)"
    by (simp only: series_bound[OF pos])
  also have "\<dots> \<longleftrightarrow> 0 < step \<and> t \<le> stop \<and> (\<exists>i. t = start + int i * step)"
    using pos by blast
  finally show ?thesis .
qed

text \<open>A world with a committed database, scheduled faults and the state of the remote services, for
  concrete runs.\<close>

definition world_with :: "database \<Rightarrow> fault list \<Rightarrow> 'x \<Rightarrow> (database, 'x) world" where
  "world_with db fs x = \<lparr>faults = fs, durable = db, work = db, broken = False, outside = x\<rparr>"

lemma world_with_sel [simp]:
  "durable (world_with db fs x) = db" "faults (world_with db fs x) = fs" "outside (world_with db fs x) = x"
  by (simp_all add: world_with_def)

text \<open>Identifiers that were drawn so far.  As long as the sequence does not repeat, the next one is
  none of them.\<close>

definition was_drawn :: "database \<Rightarrow> uuid \<Rightarrow> bool" where
  "was_drawn db x \<longleftrightarrow> (\<exists>k<db_drawn db. x = db_rand db k)"

lemma fresh_not_drawn: "inj (db_rand db) \<Longrightarrow> \<not> was_drawn db (fresh_uuid db)"
  by (auto simp: was_drawn_def fresh_uuid_def dest: injD)

lemma was_drawn_step [simp]: "was_drawn (drawn_uuid db) x \<longleftrightarrow> was_drawn db x \<or> x = fresh_uuid db"
  by (auto simp: was_drawn_def drawn_uuid_def fresh_uuid_def less_Suc_eq)

lemma was_drawn_mono:
  "was_drawn db x \<Longrightarrow> db_rand db' = db_rand db \<Longrightarrow> db_drawn db \<le> db_drawn db' \<Longrightarrow> was_drawn db' x"
  by (auto simp: was_drawn_def intro: less_le_trans)

lemma drawn_uuid_sel [simp]:
  "db_rand (drawn_uuid db) = db_rand db" "db_drawn (drawn_uuid db) = Suc (db_drawn db)"
  "users (drawn_uuid db) = users db"
  "org_members (drawn_uuid db) = org_members db"
  "monitors (drawn_uuid db) = monitors db"
  "worker_pools (drawn_uuid db) = worker_pools db"
  "worker_pool_credentials (drawn_uuid db) = worker_pool_credentials db"
  "worker_pool_audit_events (drawn_uuid db) = worker_pool_audit_events db"
  "check_jobs (drawn_uuid db) = check_jobs db"
  "check_dispatch_outbox (drawn_uuid db) = check_dispatch_outbox db"
  "health_checks (drawn_uuid db) = health_checks db"
  "check_result_conflicts (drawn_uuid db) = check_result_conflicts db"
  "monitoring_quarantine (drawn_uuid db) = monitoring_quarantine db"
  "monitoring_coverage_gaps (drawn_uuid db) = monitoring_coverage_gaps db"
  "monitoring_operational_events (drawn_uuid db) = monitoring_operational_events db"
  "monitor_schedule_periods (drawn_uuid db) = monitor_schedule_periods db"
  "monitor_reliability_states (drawn_uuid db) = monitor_reliability_states db"
  "monitor_result_evaluations (drawn_uuid db) = monitor_result_evaluations db"
  "monitor_evaluation_positions (drawn_uuid db) = monitor_evaluation_positions db"
  "monitor_state_correction_events (drawn_uuid db) = monitor_state_correction_events db"
  "monitor_rollups_hourly (drawn_uuid db) = monitor_rollups_hourly db"
  "monitor_rollups_daily (drawn_uuid db) = monitor_rollups_daily db"
  "monitor_rollup_invalidations (drawn_uuid db) = monitor_rollup_invalidations db"
  "monitoring_rollup_checkpoint (drawn_uuid db) = monitoring_rollup_checkpoint db"
  "alert_rules (drawn_uuid db) = alert_rules db"
  "incidents (drawn_uuid db) = incidents db"
  "incident_events (drawn_uuid db) = incident_events db"
  "notification_outbox (drawn_uuid db) = notification_outbox db"
  "notification_attempts (drawn_uuid db) = notification_attempts db"
  "api_refresh_events (drawn_uuid db) = api_refresh_events db"
  by (simp_all add: drawn_uuid_def)

lemma was_drawn_update [simp]:
  "was_drawn (db\<lparr>users := rows0\<rparr>) = was_drawn db"
  "was_drawn (db\<lparr>org_members := rows1\<rparr>) = was_drawn db"
  "was_drawn (db\<lparr>monitors := rows2\<rparr>) = was_drawn db"
  "was_drawn (db\<lparr>worker_pools := rows3\<rparr>) = was_drawn db"
  "was_drawn (db\<lparr>worker_pool_credentials := rows4\<rparr>) = was_drawn db"
  "was_drawn (db\<lparr>worker_pool_audit_events := rows5\<rparr>) = was_drawn db"
  "was_drawn (db\<lparr>check_jobs := rows6\<rparr>) = was_drawn db"
  "was_drawn (db\<lparr>check_dispatch_outbox := rows7\<rparr>) = was_drawn db"
  "was_drawn (db\<lparr>health_checks := rows8\<rparr>) = was_drawn db"
  "was_drawn (db\<lparr>check_result_conflicts := rows9\<rparr>) = was_drawn db"
  "was_drawn (db\<lparr>monitoring_quarantine := rows10\<rparr>) = was_drawn db"
  "was_drawn (db\<lparr>monitoring_coverage_gaps := rows11\<rparr>) = was_drawn db"
  "was_drawn (db\<lparr>monitoring_operational_events := rows12\<rparr>) = was_drawn db"
  "was_drawn (db\<lparr>monitor_schedule_periods := rows13\<rparr>) = was_drawn db"
  "was_drawn (db\<lparr>monitor_reliability_states := rows14\<rparr>) = was_drawn db"
  "was_drawn (db\<lparr>monitor_result_evaluations := rows15\<rparr>) = was_drawn db"
  "was_drawn (db\<lparr>monitor_evaluation_positions := rows16\<rparr>) = was_drawn db"
  "was_drawn (db\<lparr>monitor_state_correction_events := rows17\<rparr>) = was_drawn db"
  "was_drawn (db\<lparr>monitor_rollups_hourly := rows18\<rparr>) = was_drawn db"
  "was_drawn (db\<lparr>monitor_rollups_daily := rows19\<rparr>) = was_drawn db"
  "was_drawn (db\<lparr>monitor_rollup_invalidations := rows20\<rparr>) = was_drawn db"
  "was_drawn (db\<lparr>monitoring_rollup_checkpoint := rows21\<rparr>) = was_drawn db"
  "was_drawn (db\<lparr>alert_rules := rows22\<rparr>) = was_drawn db"
  "was_drawn (db\<lparr>incidents := rows23\<rparr>) = was_drawn db"
  "was_drawn (db\<lparr>incident_events := rows24\<rparr>) = was_drawn db"
  "was_drawn (db\<lparr>notification_outbox := rows25\<rparr>) = was_drawn db"
  "was_drawn (db\<lparr>notification_attempts := rows26\<rparr>) = was_drawn db"
  "was_drawn (db\<lparr>api_refresh_events := rows27\<rparr>) = was_drawn db"
  by (simp_all add: was_drawn_def fun_eq_iff)

lemma fresh_uuid_update [simp]:
  "fresh_uuid (db\<lparr>users := rows0\<rparr>) = fresh_uuid db"
  "fresh_uuid (db\<lparr>org_members := rows1\<rparr>) = fresh_uuid db"
  "fresh_uuid (db\<lparr>monitors := rows2\<rparr>) = fresh_uuid db"
  "fresh_uuid (db\<lparr>worker_pools := rows3\<rparr>) = fresh_uuid db"
  "fresh_uuid (db\<lparr>worker_pool_credentials := rows4\<rparr>) = fresh_uuid db"
  "fresh_uuid (db\<lparr>worker_pool_audit_events := rows5\<rparr>) = fresh_uuid db"
  "fresh_uuid (db\<lparr>check_jobs := rows6\<rparr>) = fresh_uuid db"
  "fresh_uuid (db\<lparr>check_dispatch_outbox := rows7\<rparr>) = fresh_uuid db"
  "fresh_uuid (db\<lparr>health_checks := rows8\<rparr>) = fresh_uuid db"
  "fresh_uuid (db\<lparr>check_result_conflicts := rows9\<rparr>) = fresh_uuid db"
  "fresh_uuid (db\<lparr>monitoring_quarantine := rows10\<rparr>) = fresh_uuid db"
  "fresh_uuid (db\<lparr>monitoring_coverage_gaps := rows11\<rparr>) = fresh_uuid db"
  "fresh_uuid (db\<lparr>monitoring_operational_events := rows12\<rparr>) = fresh_uuid db"
  "fresh_uuid (db\<lparr>monitor_schedule_periods := rows13\<rparr>) = fresh_uuid db"
  "fresh_uuid (db\<lparr>monitor_reliability_states := rows14\<rparr>) = fresh_uuid db"
  "fresh_uuid (db\<lparr>monitor_result_evaluations := rows15\<rparr>) = fresh_uuid db"
  "fresh_uuid (db\<lparr>monitor_evaluation_positions := rows16\<rparr>) = fresh_uuid db"
  "fresh_uuid (db\<lparr>monitor_state_correction_events := rows17\<rparr>) = fresh_uuid db"
  "fresh_uuid (db\<lparr>monitor_rollups_hourly := rows18\<rparr>) = fresh_uuid db"
  "fresh_uuid (db\<lparr>monitor_rollups_daily := rows19\<rparr>) = fresh_uuid db"
  "fresh_uuid (db\<lparr>monitor_rollup_invalidations := rows20\<rparr>) = fresh_uuid db"
  "fresh_uuid (db\<lparr>monitoring_rollup_checkpoint := rows21\<rparr>) = fresh_uuid db"
  "fresh_uuid (db\<lparr>alert_rules := rows22\<rparr>) = fresh_uuid db"
  "fresh_uuid (db\<lparr>incidents := rows23\<rparr>) = fresh_uuid db"
  "fresh_uuid (db\<lparr>incident_events := rows24\<rparr>) = fresh_uuid db"
  "fresh_uuid (db\<lparr>notification_outbox := rows25\<rparr>) = fresh_uuid db"
  "fresh_uuid (db\<lparr>notification_attempts := rows26\<rparr>) = fresh_uuid db"
  "fresh_uuid (db\<lparr>api_refresh_events := rows27\<rparr>) = fresh_uuid db"
  by (simp_all add: fresh_uuid_def)

lemma was_drawn_cong:
  "db_rand db' = db_rand db \<Longrightarrow> db_drawn db' = db_drawn db \<Longrightarrow> was_drawn db' = was_drawn db"
  by (simp add: was_drawn_def fun_eq_iff)

end
