(* ===== verification/LeaseQueue.thy ===== *)
theory LeaseQueue
  imports Schema
begin

text \<open>
  The contract of a table that several workers share as a work queue: a worker takes a ready row
  under a fresh lease token, settles it by presenting that token, and rows whose lease ran out are
  freed again.  The notification outbox and the dispatch outbox both keep it, and what a worker may
  rely on is proved once here: only the holder of the current token can settle a row, a token that
  was overtaken settles nothing, and no operation loses or duplicates a row.

  \<open>row_ok\<close> is what the table's check constraints say of a single row.
\<close>

locale lease_queue =
  fixes key :: "'r \<Rightarrow> uuid"
    and token :: "'r \<Rightarrow> uuid option"
    and ready :: "'c \<Rightarrow> 'r \<Rightarrow> bool"
    and held :: "'r \<Rightarrow> bool"
    and row_ok :: "'r \<Rightarrow> bool"
    and take_row :: "'c \<Rightarrow> uuid \<Rightarrow> 'r \<Rightarrow> 'r"
    and settle_row :: "'o \<Rightarrow> 'r \<Rightarrow> 'r"
    and settle_ok :: "'o \<Rightarrow> 'r \<Rightarrow> bool"
    and free_row :: "'f \<Rightarrow> 'r \<Rightarrow> 'r"
  assumes held_token: "row_ok r \<Longrightarrow> held r \<longleftrightarrow> token r \<noteq> None"
    and ready_free: "row_ok r \<Longrightarrow> ready c r \<Longrightarrow> \<not> held r"
    and take_key: "key (take_row c t r) = key r"
    and take_held: "row_ok r \<Longrightarrow> ready c r \<Longrightarrow> held (take_row c t r) \<and> token (take_row c t r) = Some t"
    and take_ok: "row_ok r \<Longrightarrow> ready c r \<Longrightarrow> row_ok (take_row c t r)"
    and settle_key: "key (settle_row s r) = key r"
    and settle_free: "token (settle_row s r) = None"
    and settle_row_ok: "row_ok r \<Longrightarrow> held r \<Longrightarrow> settle_ok s r \<Longrightarrow> row_ok (settle_row s r)"
    and free_key: "key (free_row f r) = key r"
    and free_token: "token (free_row f r) = None"
    and free_ok: "row_ok r \<Longrightarrow> held r \<Longrightarrow> row_ok (free_row f r)"
begin

text \<open>The table after the row \<open>r\<close> was taken, after the row with a key was settled under a token,
  and after rows were freed.\<close>

lemma taken_keys:
  "map key (update_where (\<lambda>x. key x = k) (take_row c t) rows) = map key rows"
  by (rule update_where_key) (simp add: take_key)

lemma settled_keys:
  "map key (update_where (\<lambda>x. key x = k \<and> held x \<and> token x = Some t) (settle_row s) rows) = map key rows"
  by (rule update_where_key) (simp add: settle_key)

lemma freed_keys:
  "map key (update_where (\<lambda>x. held x \<and> q x) (free_row f) rows) = map key rows"
  by (rule update_where_key) (simp add: free_key)

lemma distinct_key_unique:
  assumes "distinct (map key rows)" "r \<in> set rows" "x \<in> set rows" "key x = key r"
  shows "x = r"
  using assms by (auto simp: distinct_map dest: inj_onD)

lemma taken_ok:
  assumes "distinct (map key rows)" "\<forall>x\<in>set rows. row_ok x" "r \<in> set rows" "ready c r"
  shows "\<forall>x\<in>set (update_where (\<lambda>x. key x = key r) (take_row c t) rows). row_ok x"
proof
  fix x assume "x \<in> set (update_where (\<lambda>x. key x = key r) (take_row c t) rows)"
  then obtain y where "y \<in> set rows" "x = (if key y = key r then take_row c t y else y)"
    by (auto simp: set_update_where)
  then show "row_ok x"
    using distinct_key_unique[OF assms(1,3), of y] take_ok assms(2,4) by (cases "key y = key r") auto
qed

lemma settled_ok:
  assumes "\<forall>x\<in>set rows. row_ok x"
    and "\<And>x. x \<in> set rows \<Longrightarrow> key x = k \<Longrightarrow> held x \<Longrightarrow> token x = Some t \<Longrightarrow> settle_ok s x"
  shows "\<forall>x\<in>set (update_where (\<lambda>x. key x = k \<and> held x \<and> token x = Some t) (settle_row s) rows). row_ok x"
  using assms settle_row_ok by (auto simp: set_update_where)

lemma freed_ok:
  assumes "\<forall>x\<in>set rows. row_ok x"
  shows "\<forall>x\<in>set (update_where (\<lambda>x. held x \<and> q x) (free_row f) rows). row_ok x"
  using assms free_ok by (auto simp: set_update_where)

text \<open>After taking, the row is the only one with its key, and it is held under the new token.\<close>

lemma taken_held:
  assumes "distinct (map key rows)" "\<forall>x\<in>set rows. row_ok x" "r \<in> set rows" "ready c r"
    and "x \<in> set (update_where (\<lambda>x. key x = key r) (take_row c t) rows)" "key x = key r"
  shows "held x \<and> token x = Some t"
proof -
  obtain y where y: "y \<in> set rows" "x = (if key y = key r then take_row c t y else y)"
    using assms(5) by (auto simp: set_update_where)
  then have "y = r"
    using distinct_key_unique[OF assms(1,3), of y] assms(6) take_key by (cases "key y = key r") auto
  then show ?thesis
    using y take_held assms(2-4) by simp
qed

text \<open>A token that no held row carries settles nothing, in particular one that was overtaken by a
  later taking of the same row.\<close>

lemma stale_token:
  assumes "\<And>x. x \<in> set rows \<Longrightarrow> key x = k \<Longrightarrow> token x \<noteq> Some t"
  shows "update_where (\<lambda>x. key x = k \<and> held x \<and> token x = Some t) (settle_row s) rows = rows"
    and "count_where (\<lambda>x. key x = k \<and> held x \<and> token x = Some t) rows = 0"
  using assms by (auto intro: update_where_none simp: count_where_0_iff)

lemma overtaken_token:
  fixes t' :: uuid
  assumes "distinct (map key rows)" "\<forall>x\<in>set rows. row_ok x" "r \<in> set rows" "ready c r" "t \<noteq> t'"
  defines "rows' \<equiv> update_where (\<lambda>x. key x = key r) (take_row c t') rows"
  shows "update_where (\<lambda>x. key x = key r \<and> held x \<and> token x = Some t) (settle_row s) rows' = rows'"
    and "count_where (\<lambda>x. key x = key r \<and> held x \<and> token x = Some t) rows' = 0"
proof -
  have "token x \<noteq> Some t" if "x \<in> set rows'" "key x = key r" for x
    using taken_held[OF assms(1-4) that(1)[unfolded rows'_def] that(2)] assms(5) by simp
  note stale = stale_token[of rows' "key r" t, OF this]
  show "update_where (\<lambda>x. key x = key r \<and> held x \<and> token x = Some t) (settle_row s) rows' = rows'"
    and "count_where (\<lambda>x. key x = key r \<and> held x \<and> token x = Some t) rows' = 0"
    by (rule stale, assumption+)+
qed

lemma settled_once:
  "count_where (\<lambda>x. key x = k \<and> held x \<and> token x = Some t)
     (update_where (\<lambda>x. key x = k \<and> held x \<and> token x = Some t) (settle_row s) rows) = 0"
  unfolding count_where_0_iff
proof
  fix x assume "x \<in> set (update_where (\<lambda>x. key x = k \<and> held x \<and> token x = Some t) (settle_row s) rows)"
  then obtain y where "x = (if key y = k \<and> held y \<and> token y = Some t then settle_row s y else y)"
    by (auto simp: set_update_where)
  then show "\<not> (key x = k \<and> held x \<and> token x = Some t)"
    using settle_free[of s y] by (cases "key y = k \<and> held y \<and> token y = Some t") auto
qed

lemma settles_one:
  assumes "distinct (map key rows)"
  shows "count_where (\<lambda>x. key x = k \<and> held x \<and> token x = Some t) rows \<le> 1"
proof -
  let ?hits = "filter (\<lambda>x. key x = k \<and> held x \<and> token x = Some t) rows"
  have "distinct (map key ?hits)"
    using assms by (rule distinct_map_filter)
  moreover have "map key ?hits = replicate (length ?hits) k"
    by (induction rows) auto
  ultimately have "distinct (replicate (length ?hits) k)"
    by (simp only:)
  then show ?thesis
    unfolding count_where_def distinct_replicate_iff .
qed

end

end
