(* ===== verification/GoText.thy ===== *)
theory GoText
  imports Prelude
begin

text \<open>
  The parts of Go's \<open>unicode/utf8\<close>, \<open>unicode\<close>, \<open>strings\<close>, \<open>encoding/hex\<close> and \<open>encoding/base64\<close> packages that the
  services use.  A Go string is a list of bytes; \<open>chunks\<close> splits it the way a \<open>range\<close> loop does,
  into runes with the bytes they were decoded from, an invalid byte counting as one chunk with the
  replacement rune.
\<close>

type_synonym rune = int

definition byte :: "char \<Rightarrow> int" where
  "byte c = of_char c"

definition RuneError :: rune where "RuneError = 65533"

definition continues :: "int \<Rightarrow> bool" where
  "continues b \<longleftrightarrow> 128 \<le> b \<and> b \<le> 191"

text \<open>The range that the second byte must be in after a given first byte.\<close>

definition second_byte_ok :: "int \<Rightarrow> int \<Rightarrow> bool" where
  "second_byte_ok b0 b1 \<longleftrightarrow>
     (if b0 = 224 then 160 \<le> b1 \<and> b1 \<le> 191
      else if b0 = 237 then 128 \<le> b1 \<and> b1 \<le> 159
      else if b0 = 240 then 144 \<le> b1 \<and> b1 \<le> 191
      else if b0 = 244 then 128 \<le> b1 \<and> b1 \<le> 143
      else continues b1)"

definition rune_width :: "int \<Rightarrow> nat" where
  "rune_width b0 =
     (if b0 < 128 then 1 else if 194 \<le> b0 \<and> b0 \<le> 223 then 2
      else if 224 \<le> b0 \<and> b0 \<le> 239 then 3 else if 240 \<le> b0 \<and> b0 \<le> 244 then 4 else 0)"

text \<open>\<open>utf8.DecodeRuneInString\<close>: the rune and the number of bytes it takes.\<close>

fun decode_rune :: "string \<Rightarrow> rune \<times> nat" where
  "decode_rune [] = (RuneError, 0)"
| "decode_rune (c0 # cs) =
     (let b0 = byte c0; w = rune_width b0; bs = map byte cs in
      if w = 1 then (b0, 1)
      else if w = 2 \<and> 1 \<le> length bs \<and> second_byte_ok b0 (bs ! 0)
        then ((b0 mod 32) * 64 + bs ! 0 mod 64, 2)
      else if w = 3 \<and> 2 \<le> length bs \<and> second_byte_ok b0 (bs ! 0) \<and> continues (bs ! 1)
        then ((b0 mod 16) * 4096 + (bs ! 0 mod 64) * 64 + bs ! 1 mod 64, 3)
      else if w = 4 \<and> 3 \<le> length bs \<and> second_byte_ok b0 (bs ! 0) \<and> continues (bs ! 1) \<and> continues (bs ! 2)
        then ((b0 mod 8) * 262144 + (bs ! 0 mod 64) * 4096 + (bs ! 1 mod 64) * 64 + bs ! 2 mod 64, 4)
      else (RuneError, 1))"

lemma decode_rune_width:
  "s \<noteq> [] \<Longrightarrow> 1 \<le> snd (decode_rune s) \<and> snd (decode_rune s) \<le> length s"
  by (cases s) (auto simp: Let_def)

text \<open>A \<open>range\<close> loop over a string.\<close>

function chunks :: "string \<Rightarrow> (rune \<times> string) list" where
  "chunks [] = []"
| "chunks (c # cs) =
     (case decode_rune (c # cs) of (r, n) \<Rightarrow> (r, take n (c # cs)) # chunks (drop n (c # cs)))"
  by pat_completeness auto
termination
proof (relation "measure length", simp)
  fix c cs and r n
  assume "(r, n) = decode_rune (c # cs)"
  then have "1 \<le> n"
    using decode_rune_width[of "c # cs"] by (metis list.distinct(1) snd_conv)
  then show "(drop n (c # cs), c # cs) \<in> measure length"
    by simp
qed

definition runes :: "string \<Rightarrow> rune list" where
  "runes s = map fst (chunks s)"

text \<open>\<open>utf8.EncodeRune\<close>.\<close>

definition encode_rune :: "rune \<Rightarrow> string" where
  "encode_rune r =
     map char_of
       (if r < 128 then [r]
        else if r < 2048 then [192 + r div 64, 128 + r mod 64]
        else if r > 1114111 \<or> (55296 \<le> r \<and> r \<le> 57343) then [239, 191, 189]
        else if r < 65536 then [224 + r div 4096, 128 + (r div 64) mod 64, 128 + r mod 64]
        else [240 + r div 262144, 128 + (r div 4096) mod 64, 128 + (r div 64) mod 64, 128 + r mod 64])"

definition encode_runes :: "rune list \<Rightarrow> string" where
  "encode_runes rs = concat (map encode_rune rs)"

text \<open>\<open>unicode.IsSpace\<close> and \<open>strings.TrimSpace\<close>.\<close>

definition IsSpace :: "rune \<Rightarrow> bool" where
  "IsSpace r \<longleftrightarrow>
     r \<in> set [9, 10, 11, 12, 13, 32, 133, 160, 5760, 8232, 8233, 8239, 8287, 12288] \<or> (8192 \<le> r \<and> r \<le> 8202)"

definition trim_both :: "('a \<Rightarrow> bool) \<Rightarrow> 'a list \<Rightarrow> 'a list" where
  "trim_both p xs = rev (dropWhile p (rev (dropWhile p xs)))"

definition TrimSpace :: "string \<Rightarrow> string" where
  "TrimSpace s = concat (map snd (trim_both (IsSpace \<circ> fst) (chunks s)))"

text \<open>\<open>fmt.Sprintf("%x", b)\<close> and \<open>hex.DecodeString\<close>.\<close>

definition hex_digit :: "int \<Rightarrow> char" where
  "hex_digit n = (if n < 10 then char_of (48 + n) else char_of (87 + n))"

definition hex_value :: "char \<Rightarrow> int option" where
  "hex_value c =
     (let b = byte c in
      if 48 \<le> b \<and> b \<le> 57 then Some (b - 48)
      else if 97 \<le> b \<and> b \<le> 102 then Some (b - 87)
      else if 65 \<le> b \<and> b \<le> 70 then Some (b - 55) else None)"

fun hex_encode :: "string \<Rightarrow> string" where
  "hex_encode [] = []"
| "hex_encode (c # cs) = hex_digit (byte c div 16) # hex_digit (byte c mod 16) # hex_encode cs"

fun hex_decode :: "string \<Rightarrow> string option" where
  "hex_decode [] = Some []"
| "hex_decode [c] = None"
| "hex_decode (a # b # cs) =
     (case (hex_value a, hex_value b, hex_decode cs) of
        (Some x, Some y, Some rest) \<Rightarrow> Some (char_of (16 * x + y) # rest)
      | _ \<Rightarrow> None)"

lemma byte_bounds: "0 \<le> byte c" "byte c < 256"
proof -
  have "byte c = byte c mod 256" by (simp add: byte_def)
  moreover have "0 \<le> byte c mod 256" "byte c mod 256 < 256" by simp_all
  ultimately show "0 \<le> byte c" "byte c < 256" by linarith+
qed

lemma char_of_byte [simp]: "char_of (byte c) = c"
  by (simp add: byte_def)

lemma byte_char_of: "0 \<le> n \<Longrightarrow> n < 256 \<Longrightarrow> byte (char_of n) = n"
  by (simp add: byte_def)

lemma hex_value_digit: "0 \<le> n \<Longrightarrow> n < 16 \<Longrightarrow> hex_value (hex_digit n) = Some n"
  by (auto simp: hex_value_def hex_digit_def byte_char_of Let_def)

lemma hex_decode_encode: "hex_decode (hex_encode s) = Some s"
proof (induction s)
  case (Cons c s)
  have "0 \<le> byte c div 16" "byte c div 16 < 16"
    using byte_bounds[of c] by simp_all
  then show ?case
    using Cons by (simp add: hex_value_digit)
qed simp

lemma hex_encode_inj: "hex_encode s = hex_encode t \<longleftrightarrow> s = t"
  by (metis hex_decode_encode option.inject)

lemma length_hex_encode [simp]: "length (hex_encode s) = 2 * length s"
  by (induction s) simp_all

lemma chunks_concat: "concat (map snd (chunks s)) = s"
proof (induction s rule: chunks.induct)
  case (2 c cs)
  then show ?case
    by (cases "decode_rune (c # cs)") simp
qed simp

lemma trim_both_subset: "set (trim_both p xs) \<subseteq> set xs"
  by (auto simp: trim_both_def dest!: set_dropWhileD)

text \<open>\<open>%d\<close> of \<open>fmt\<close>: the decimal digits of an integer.\<close>

function decimal_nat :: "int \<Rightarrow> string" where
  "decimal_nat n = (if n < 10 then [char_of (48 + n)] else decimal_nat (n div 10) @ [char_of (48 + n mod 10)])"
  by pat_completeness auto
termination
  by (relation "measure nat") auto

definition decimal :: "int \<Rightarrow> string" where
  "decimal n = (if n < 0 then CHR ''-'' # decimal_nat (- n) else decimal_nat n)"

declare decimal_nat.simps [simp del]

text \<open>Cutting a string at a rune boundary does not change the runes on either side, so trimming twice is
  trimming once.\<close>

lemma decode_rune_take:
  assumes "decode_rune s = (r, n)" "s \<noteq> []" "n \<le> m"
  shows "decode_rune (take m s) = (r, n)"
proof -
  obtain c cs where s: "s = c # cs"
    using assms(2) by (cases s) auto
  have "1 \<le> n"
    using decode_rune_width[OF assms(2)] assms(1) by simp
  then obtain k where m: "m = Suc k"
    using assms(3) by (cases m) auto
  let ?b = "byte c" and ?bs = "map byte cs" and ?ts = "map byte (take k cs)"
  have ts: "?ts = take k ?bs" "length ?ts \<le> length ?bs"
    by (simp_all add: take_map)
  have first: "Suc 0 \<le> k \<Longrightarrow> map byte (take k cs) ! 0 = map byte cs ! 0"
    by (cases cs; cases k) auto
  consider (one) "rune_width ?b = 1"
    | (two) "rune_width ?b = 2" "1 \<le> length ?bs" "second_byte_ok ?b (?bs ! 0)"
    | (three) "rune_width ?b = 3" "2 \<le> length ?bs" "second_byte_ok ?b (?bs ! 0)" "continues (?bs ! 1)"
    | (four) "rune_width ?b = 4" "3 \<le> length ?bs" "second_byte_ok ?b (?bs ! 0)" "continues (?bs ! 1)" "continues (?bs ! 2)"
    | (bad) "rune_width ?b \<noteq> 1" "\<not> (rune_width ?b = 2 \<and> 1 \<le> length ?bs \<and> second_byte_ok ?b (?bs ! 0))"
      "\<not> (rune_width ?b = 3 \<and> 2 \<le> length ?bs \<and> second_byte_ok ?b (?bs ! 0) \<and> continues (?bs ! 1))"
      "\<not> (rune_width ?b = 4 \<and> 3 \<le> length ?bs \<and> second_byte_ok ?b (?bs ! 0) \<and> continues (?bs ! 1) \<and> continues (?bs ! 2))"
    by blast
  then show ?thesis
  proof cases
    case bad
    define bs ts where bs: "bs = map byte cs" and ts': "ts = map byte (take k cs)"
    have same: "ts ! i = bs ! i" if "i < length ts" for i
      using that by (simp add: bs ts' ts)
    have same: "ts ! i = bs ! i" if "n \<le> length ts" "i < n" for i n
      using that same by simp
    have len: "length ts \<le> length bs"
      by (simp add: bs ts')
    note bad' = bad[folded bs]
    have "\<not> (rune_width ?b = 2 \<and> 1 \<le> length ts \<and> second_byte_ok ?b (ts ! 0))"
      using bad'(2) same[of 1 0] len by auto
    moreover have "\<not> (rune_width ?b = 3 \<and> 2 \<le> length ts \<and> second_byte_ok ?b (ts ! 0) \<and> continues (ts ! 1))"
      using bad'(3) same[of 2 0] same[of 2 1] len by auto
    moreover have "\<not> (rune_width ?b = 4 \<and> 3 \<le> length ts \<and> second_byte_ok ?b (ts ! 0) \<and> continues (ts ! 1) \<and> continues (ts ! 2))"
      using bad'(4) same[of 3 0] same[of 3 1] same[of 3 2] len by auto
    ultimately have "decode_rune (c # take k cs) = (RuneError, 1)"
      using bad(1) unfolding ts' by (simp only: decode_rune.simps Let_def if_False)
    moreover have "decode_rune (c # cs) = (RuneError, 1)"
      using bad by (simp only: decode_rune.simps Let_def if_False)
    ultimately show ?thesis
      using assms(1) by (simp add: s m del: decode_rune.simps)
  qed (use assms(1,3) in \<open>auto simp: s m Let_def first\<close>)
qed

lemma chunks_step: "s \<noteq> [] \<Longrightarrow> decode_rune s = (r, n) \<Longrightarrow> chunks s = (r, take n s) # chunks (drop n s)"
  by (cases s) auto

lemma chunks_drop: "chunks (concat (map snd (drop k (chunks s)))) = drop k (chunks s)"
  supply chunks.simps(2) [simp del] decode_rune.simps(2) [simp del]
proof (induction s arbitrary: k rule: chunks.induct)
  case (2 c cs)
  obtain r n where d: "decode_rune (c # cs) = (r, n)"
    by (cases "decode_rune (c # cs)")
  show ?case
  proof (cases k)
    case 0
    then show ?thesis by (simp add: chunks_concat)
  next
    case (Suc j)
    then show ?thesis
      using 2[OF d[symmetric], of j] chunks_step[OF _ d] by simp
  qed
qed simp

lemma chunks_take: "chunks (concat (map snd (take k (chunks s)))) = take k (chunks s)"
  supply chunks.simps(2) [simp del] decode_rune.simps(2) [simp del]
proof (induction s arbitrary: k rule: chunks.induct)
  case (2 c cs)
  obtain r n where d: "decode_rune (c # cs) = (r, n)"
    by (cases "decode_rune (c # cs)")
  show ?case
  proof (cases k)
    case (Suc j)
    let ?rest = "concat (map snd (take j (chunks (drop n (c # cs)))))"
    have n: "1 \<le> n" "n \<le> length (c # cs)"
      using decode_rune_width[of "c # cs"] d by simp_all
    obtain j' where rest: "?rest = take j' (drop n (c # cs))"
      using chunks_concat[of "drop n (c # cs)"]
      by (metis append_eq_conv_conj append_take_drop_id concat_append map_append)
    have eq: "take n (c # cs) @ ?rest = take (n + j') (c # cs)"
      unfolding rest by (simp add: take_add)
    have "decode_rune (take n (c # cs) @ ?rest) = (r, n)"
      unfolding eq by (rule decode_rune_take[OF d]) simp_all
    moreover have "take n (c # cs) @ ?rest \<noteq> []"
      using n by (cases n) auto
    ultimately have "chunks (take n (c # cs) @ ?rest) = (r, take n (c # cs)) # chunks ?rest"
      using chunks_step n by simp
    then show ?thesis
      using Suc 2[OF d[symmetric], of j] chunks_step[OF _ d] by simp
  qed simp
qed simp

lemma trim_both_segment: "\<exists>i j. trim_both p xs = take j (drop i xs)"
proof -
  obtain i where "dropWhile p xs = drop i xs"
    by (metis dropWhile_eq_drop)
  moreover obtain j where "rev (dropWhile p (rev (drop i xs))) = take j (drop i xs)"
    by (metis dropWhile_eq_drop rev_drop rev_rev_ident)
  ultimately show ?thesis
    by (auto simp: trim_both_def)
qed

lemma chunks_TrimSpace: "chunks (TrimSpace s) = trim_both (IsSpace \<circ> fst) (chunks s)"
proof -
  obtain i j where seg: "trim_both (IsSpace \<circ> fst) (chunks s) = take j (drop i (chunks s))"
    using trim_both_segment by blast
  show ?thesis
    unfolding TrimSpace_def seg
    using chunks_take[of j "concat (map snd (drop i (chunks s)))"] by (simp add: chunks_drop)
qed

lemma dropWhile_hd: "xs = [] \<or> \<not> p (hd xs) \<Longrightarrow> dropWhile p xs = xs"
  by (cases xs) auto

lemma trim_both_idem: "trim_both p (trim_both p xs) = trim_both p xs"
proof -
  have ends: "ys = [] \<or> \<not> p (hd ys)" if "ys = dropWhile p zs" for ys zs
    using that by (metis hd_dropWhile)
  let ?ys = "dropWhile p (rev (dropWhile p xs))"
  have "rev ?ys = [] \<or> \<not> p (hd (rev ?ys))"
  proof (cases "?ys = []")
    case False
    have "last ?ys = last (rev (dropWhile p xs))"
      using False by (metis dropWhile_eq_drop dropWhile_eq_Nil_conv drop_eq_Nil last_drop linorder_not_le)
    then have "hd (rev ?ys) = hd (dropWhile p xs)"
      using False by (metis hd_rev last_rev dropWhile.simps(1) rev.simps(1))
    moreover have "dropWhile p xs \<noteq> []"
      using False by (metis dropWhile.simps(1) rev.simps(1))
    ultimately show ?thesis
      using ends[of "dropWhile p xs" xs] by metis
  qed simp
  then have "dropWhile p (rev ?ys) = rev ?ys"
    by (rule dropWhile_hd)
  then show ?thesis
    by (simp add: trim_both_def)
qed

lemma TrimSpace_idem [simp]: "TrimSpace (TrimSpace s) = TrimSpace s"
  by (simp add: TrimSpace_def[of "TrimSpace s"] chunks_TrimSpace trim_both_idem) (simp add: TrimSpace_def)


text \<open>\<open>base64.StdEncoding\<close>: the decoder skips line breaks, wants the padding, and ignores the bits that
  the padding leaves over.\<close>

definition base64_char :: "int \<Rightarrow> char" where
  "base64_char n =
     (if n < 26 then char_of (65 + n) else if n < 52 then char_of (71 + n) else if n < 62 then char_of (n - 4)
      else if n = 62 then CHR ''+'' else CHR ''/'')"

definition base64_value :: "char \<Rightarrow> int option" where
  "base64_value c =
     (let b = byte c in
      if 65 \<le> b \<and> b \<le> 90 then Some (b - 65)
      else if 97 \<le> b \<and> b \<le> 122 then Some (b - 71)
      else if 48 \<le> b \<and> b \<le> 57 then Some (b + 4)
      else if c = CHR ''+'' then Some 62
      else if c = CHR ''/'' then Some 63 else None)"

fun base64_encode :: "string \<Rightarrow> string" where
  "base64_encode [] = []"
| "base64_encode [a] = [base64_char (byte a div 4), base64_char (byte a mod 4 * 16), CHR ''='', CHR ''='']"
| "base64_encode [a, b] =
     [base64_char (byte a div 4), base64_char (byte a mod 4 * 16 + byte b div 16), base64_char (byte b mod 16 * 4), CHR ''='']"
| "base64_encode (a # b # c # rest) =
     base64_char (byte a div 4) # base64_char (byte a mod 4 * 16 + byte b div 16) #
     base64_char (byte b mod 16 * 4 + byte c div 64) # base64_char (byte c mod 64) # base64_encode rest"

fun base64_groups :: "string \<Rightarrow> string option" where
  "base64_groups [] = Some []"
| "base64_groups (a # b # c # d # rest) =
     (case (base64_value a, base64_value b) of
        (Some x, Some y) \<Rightarrow>
          (let first = char_of (x * 4 + y div 16) in
           if c = CHR ''='' then (if d = CHR ''='' \<and> rest = [] then Some [first] else None)
           else case base64_value c of
             None \<Rightarrow> None
           | Some z \<Rightarrow>
               (let snd = char_of (y mod 16 * 16 + z div 4) in
                if d = CHR ''='' then (if rest = [] then Some [first, snd] else None)
                else case (base64_value d, base64_groups rest) of
                  (Some v, Some more) \<Rightarrow> Some (first # snd # char_of (z mod 4 * 64 + v) # more)
                | _ \<Rightarrow> None))
      | _ \<Rightarrow> None)"
| "base64_groups _ = None"

definition base64_decode :: "string \<Rightarrow> string option" where
  "base64_decode s = base64_groups (filter (\<lambda>c. c \<noteq> CHR 0x0A \<and> c \<noteq> CHR 0x0D) s)"

lemma base64_value_char:
  assumes "0 \<le> n" "n < 64"
  shows "base64_value (base64_char n) = Some n"
proof -
  consider "n < 26" | "26 \<le> n" "n < 52" | "52 \<le> n" "n < 62" | "n = 62" | "n = 63"
    using assms by linarith
  then show ?thesis
    using assms by cases (simp_all add: base64_char_def base64_value_def Let_def byte_char_of byte_def[of "CHR ''+''"] byte_def[of "CHR ''/''"])
qed

lemma base64_char_plain:
  assumes "0 \<le> n" "n < 64"
  shows "base64_char n \<noteq> CHR ''=''" "base64_char n \<noteq> CHR 0x0A" "base64_char n \<noteq> CHR 0x0D"
proof -
  have "base64_value (CHR ''='') = None" "base64_value (CHR 0x0A) = None" "base64_value (CHR 0x0D) = None"
    by (simp_all add: base64_value_def byte_def Let_def)
  then show "base64_char n \<noteq> CHR ''=''" "base64_char n \<noteq> CHR 0x0A" "base64_char n \<noteq> CHR 0x0D"
    using base64_value_char[OF assms] by auto
qed

lemma sextets:
  fixes a b c :: char
  shows "0 \<le> byte a div 4" "byte a div 4 < 64" "0 \<le> byte a mod 4 * 16" "byte a mod 4 * 16 < 64"
    "0 \<le> byte a mod 4 * 16 + byte b div 16" "byte a mod 4 * 16 + byte b div 16 < 64"
    "0 \<le> byte b mod 16 * 4" "byte b mod 16 * 4 < 64"
    "0 \<le> byte b mod 16 * 4 + byte c div 64" "byte b mod 16 * 4 + byte c div 64 < 64"
    "0 \<le> byte c mod 64" "byte c mod 64 < 64"
  using byte_bounds[of a] byte_bounds[of b] byte_bounds[of c] by presburger+

lemma join_digits: "0 \<le> r \<Longrightarrow> r < k \<Longrightarrow> (x * k + r) div k = x \<and> (x * k + r) mod k = (r :: int)"
  by simp

lemma octets:
  fixes a b c :: char
  shows "byte a div 4 * 4 + (byte a mod 4 * 16) div 16 = byte a"
    "byte a div 4 * 4 + (byte a mod 4 * 16 + byte b div 16) div 16 = byte a"
    "(byte a mod 4 * 16 + byte b div 16) mod 16 * 16 + (byte b mod 16 * 4) div 4 = byte b"
    "(byte a mod 4 * 16 + byte b div 16) mod 16 * 16 + (byte b mod 16 * 4 + byte c div 64) div 4 = byte b"
    "(byte b mod 16 * 4 + byte c div 64) mod 4 * 64 + byte c mod 64 = byte c"
proof -
  have b: "(byte a mod 4 * 16 + byte b div 16) div 16 = byte a mod 4" "(byte a mod 4 * 16 + byte b div 16) mod 16 = byte b div 16"
    using join_digits[of "byte b div 16" 16 "byte a mod 4"] byte_bounds[of b] by simp_all
  have c: "(byte b mod 16 * 4 + byte c div 64) div 4 = byte b mod 16" "(byte b mod 16 * 4 + byte c div 64) mod 4 = byte c div 64"
    using join_digits[of "byte c div 64" 4 "byte b mod 16"] byte_bounds[of c] by simp_all
  show "byte a div 4 * 4 + (byte a mod 4 * 16) div 16 = byte a"
    "byte a div 4 * 4 + (byte a mod 4 * 16 + byte b div 16) div 16 = byte a"
    "(byte a mod 4 * 16 + byte b div 16) mod 16 * 16 + (byte b mod 16 * 4) div 4 = byte b"
    "(byte a mod 4 * 16 + byte b div 16) mod 16 * 16 + (byte b mod 16 * 4 + byte c div 64) div 4 = byte b"
    "(byte b mod 16 * 4 + byte c div 64) mod 4 * 64 + byte c mod 64 = byte c"
    by (simp_all only: b c div_mult_mod_eq nonzero_mult_div_cancel_right zero_neq_numeral[symmetric] not_False_eq_True)
qed

lemma base64_groups_encode: "base64_groups (base64_encode s) = Some s"
  by (induction s rule: base64_encode.induct)
    (simp_all only: base64_encode.simps base64_groups.simps base64_value_char[OF sextets(1,2)] base64_value_char[OF sextets(3,4)]
      base64_value_char[OF sextets(5,6)] base64_value_char[OF sextets(7,8)] base64_value_char[OF sextets(9,10)]
      base64_value_char[OF sextets(11,12)] base64_char_plain(1)[OF sextets(7,8)] base64_char_plain(1)[OF sextets(9,10)]
      base64_char_plain(1)[OF sextets(11,12)] option.case prod.case Let_def octets char_of_byte if_True if_False simp_thms)

lemma base64_encode_plain: "filter (\<lambda>c. c \<noteq> CHR 0x0A \<and> c \<noteq> CHR 0x0D) (base64_encode s) = base64_encode s"
  by (induction s rule: base64_encode.induct) (simp_all add: base64_char_plain sextets)

lemma base64_decode_encode: "base64_decode (base64_encode s) = Some s"
  by (simp add: base64_decode_def base64_encode_plain base64_groups_encode)

lemma length_base64_encode: "length (base64_encode s) = 4 * ((length s + 2) div 3)"
proof (induction s rule: base64_encode.induct)
  case (4 a b c rest)
  have "length (a # b # c # rest) + 2 = (length rest + 2) + 3" by simp
  then have "(length (a # b # c # rest) + 2) div 3 = Suc ((length rest + 2) div 3)"
    by (simp only: div_add_self2)
  with 4 show ?case by simp
qed simp_all

end
