(* ===== verification/Notification.thy ===== *)
theory Notification
  imports LeaseQueue GoText
begin

text \<open>
  The incident-email outbox: \<open>internal/notification/worker.go\<close> with the statements of
  \<open>notifications.sql\<close>.  Each statement on the outbox is written with a function on one row, so that
  the outbox can be shown to keep the contract of a lease queue.  The mail provider is the world
  outside the database; its answer is an accepted response, a refusal with a status, or, when the
  round trip fails, an error without a status.
\<close>

definition maximumAttempts :: int where "maximumAttempts = 4"

definition ErrInvalidConfiguration :: go_error where
  "ErrInvalidConfiguration = Err ''invalid notification configuration''"

definition ErrLeaseLost :: go_error where
  "ErrLeaseLost = Err ''notification lease lost''"

record Message =
  DeliveryID :: uuid
  IncidentID :: uuid
  Recipient :: string
  Transition :: string
  Subject :: string
  PlainTextBody :: string

record ProviderResponse =
  MessageID :: string
  Status :: string

text \<open>The provider accepts, or refuses with the status of a \<open>ProviderFailure\<close>.\<close>

datatype send_result = Accepted ProviderResponse | ProviderFailure string

record Worker =
  workerID :: string
  lease :: duration

definition NewWorker :: "bool \<Rightarrow> bool \<Rightarrow> string \<Rightarrow> duration \<Rightarrow> go_error + Worker" where
  "NewWorker hasDB hasProvider WorkerID LeaseDuration =
     (let w = TrimSpace WorkerID in
      if \<not> hasDB \<or> \<not> hasProvider \<or> w = [] \<or> length w > 128 \<or> LeaseDuration < second \<or> LeaseDuration > 5 * minute
      then Inl ErrInvalidConfiguration
      else Inr \<lparr>workerID = w, lease = LeaseDuration\<rparr>)"

subsection \<open>Statements\<close>

text \<open>The events, members and users that one enqueue statement joins, in table order.\<close>

definition notification_recipients :: "uuid \<Rightarrow> database \<Rightarrow> (incident_event_row \<times> user_row) list" where
  "notification_recipients eventID db =
     concat (map (\<lambda>ev. concat (map (\<lambda>m.
         map (\<lambda>u. (ev, u))
           (filter (\<lambda>u. us_id u = om_user_id m \<and> us_email_verified_at u \<noteq> None) (users db)))
       (filter (\<lambda>m. om_organization_id m = ie_organization_id ev \<and> om_incident_notifications_enabled m \<and>
                    om_role m \<in> set [''owner'', ''admin'', ''member'', ''viewer'']) (org_members db))))
     (filter (\<lambda>ev. ie_id ev = eventID) (incident_events db)))"

definition notification_for ::
  "string \<Rightarrow> time \<Rightarrow> uuid \<Rightarrow> incident_event_row \<times> user_row \<Rightarrow> notification_row" where
  "notification_for transition ts delivery p =
     \<lparr>no_delivery_id = delivery, no_organization_id = ie_organization_id (fst p), no_incident_id = ie_incident_id (fst p),
      no_incident_event_id = ie_id (fst p), no_recipient_user_id = us_id (snd p),
      no_recipient_email = lower (btrim (us_email (snd p))), no_transition = transition,
      no_state = ''pending'', no_attempt_count = 0, no_next_attempt_at = ts, no_lease_owner = None,
      no_lease_token = None, no_lease_expires_at = None, no_provider_message_id = None,
      no_last_provider_status = None, no_accepted_at = None, no_failed_at = None, no_created_at = ts\<rparr>"

text \<open>Insertion with \<open>ON CONFLICT (incident_event_id, recipient_user_id, channel) DO NOTHING\<close>; the
  result counts the inserted rows.\<close>

fun enqueue_all ::
  "string \<Rightarrow> time \<Rightarrow> (incident_event_row \<times> user_row) list \<Rightarrow> int \<Rightarrow> database \<Rightarrow> int \<times> database" where
  "enqueue_all transition ts [] n db = (n, db)"
| "enqueue_all transition ts (p # ps) n db =
     (if exists_where (\<lambda>r. no_incident_event_id r = ie_id (fst p) \<and> no_recipient_user_id r = us_id (snd p))
           (notification_outbox db)
      then enqueue_all transition ts ps n db
      else enqueue_all transition ts ps (n + 1)
        ((drawn_uuid db)\<lparr>notification_outbox :=
           notification_outbox db @ [notification_for transition ts (fresh_uuid db) p]\<rparr>))"

definition EnqueueIncidentNotifications :: "time \<Rightarrow> string \<Rightarrow> uuid \<Rightarrow> int sql" where
  "EnqueueIncidentNotifications ts transition eventID db =
     Inr (enqueue_all transition ts (notification_recipients eventID db) 0 db)"

record claim_params =
  cp_worker :: string
  cp_expires :: time
  cp_at :: time

definition delivery_ready :: "claim_params \<Rightarrow> notification_row \<Rightarrow> bool" where
  "delivery_ready c r \<longleftrightarrow> no_state r = ''pending'' \<and> no_next_attempt_at r \<le> cp_at c \<and> no_attempt_count r < 4"

definition lease_delivery :: "claim_params \<Rightarrow> uuid \<Rightarrow> notification_row \<Rightarrow> notification_row" where
  "lease_delivery c token r =
     r\<lparr>no_state := ''leased'', no_lease_owner := Some (cp_worker c), no_lease_token := Some token,
       no_lease_expires_at := Some (cp_expires c)\<rparr>"

record claimedDelivery =
  cd_deliveryID :: uuid
  cd_incidentID :: uuid
  cd_organizationID :: uuid
  cd_environmentID :: uuid
  cd_recipient :: string
  cd_transition :: string
  cd_leaseToken :: uuid
  cd_attempt :: int

definition ClaimNotificationDelivery :: "claim_params \<Rightarrow> claimedDelivery option sql" where
  "ClaimNotificationDelivery c db =
     (case first_by (\<lambda>r. (no_next_attempt_at r, no_created_at r, no_delivery_id r)) (delivery_ready c)
             (notification_outbox db) of
        None \<Rightarrow> Inr (None, db)
      | Some r \<Rightarrow>
          (case select_one (\<lambda>i. in_id i = no_incident_id r) (incidents db) of
             None \<Rightarrow> Inl ''environment_id is null''
           | Some i \<Rightarrow>
               Inr (Some \<lparr>cd_deliveryID = no_delivery_id r, cd_incidentID = no_incident_id r,
                          cd_organizationID = no_organization_id r, cd_environmentID = in_environment_id i,
                          cd_recipient = no_recipient_email r, cd_transition = no_transition r,
                          cd_leaseToken = fresh_uuid db, cd_attempt = no_attempt_count r + 1\<rparr>,
                    (drawn_uuid db)\<lparr>notification_outbox :=
                       update_where (\<lambda>x. no_delivery_id x = no_delivery_id r) (lease_delivery c (fresh_uuid db))
                         (notification_outbox db)\<rparr>)))"

text \<open>What a worker writes when it is done with a delivery: the row it accepted, or the state and
  time of the next attempt.\<close>

datatype settlement =
  Settle_Accepted int string string time
| Settle_Failed string int time string time

definition settle_delivery :: "settlement \<Rightarrow> notification_row \<Rightarrow> notification_row" where
  "settle_delivery s r =
     (case s of
        Settle_Accepted attempt messageID status at \<Rightarrow>
          r\<lparr>no_state := ''accepted'', no_attempt_count := attempt, no_provider_message_id := Some messageID,
            no_last_provider_status := Some status, no_accepted_at := Some at, no_lease_owner := None,
            no_lease_token := None, no_lease_expires_at := None\<rparr>
      | Settle_Failed state attempt nextAttempt status at \<Rightarrow>
          r\<lparr>no_state := state, no_attempt_count := attempt, no_next_attempt_at := nextAttempt,
            no_last_provider_status := Some status,
            no_failed_at := (if state = ''failed'' then Some at else None), no_lease_owner := None,
            no_lease_token := None, no_lease_expires_at := None\<rparr>)"

abbreviation leased_under :: "uuid \<Rightarrow> uuid \<Rightarrow> notification_row \<Rightarrow> bool" where
  "leased_under deliveryID token r \<equiv>
     no_delivery_id r = deliveryID \<and> no_state r = ''leased'' \<and> no_lease_token r = Some token"

definition settle_statement :: "settlement \<Rightarrow> uuid \<Rightarrow> uuid \<Rightarrow> nat sql" where
  "settle_statement s deliveryID token db =
     Inr (count_where (leased_under deliveryID token) (notification_outbox db),
          db\<lparr>notification_outbox :=
               update_where (leased_under deliveryID token) (settle_delivery s) (notification_outbox db)\<rparr>)"

definition AcceptNotificationDelivery :: "int \<Rightarrow> string \<Rightarrow> string \<Rightarrow> time \<Rightarrow> uuid \<Rightarrow> uuid \<Rightarrow> nat sql" where
  "AcceptNotificationDelivery attempt messageID status at deliveryID token =
     settle_statement (Settle_Accepted attempt messageID status at) deliveryID token"

definition CompleteFailedNotificationAttempt ::
  "string \<Rightarrow> int \<Rightarrow> time \<Rightarrow> string \<Rightarrow> time \<Rightarrow> uuid \<Rightarrow> uuid \<Rightarrow> nat sql" where
  "CompleteFailedNotificationAttempt state attempt nextAttempt status at deliveryID token =
     settle_statement (Settle_Failed state attempt nextAttempt status at) deliveryID token"

definition InsertNotificationAttempt :: "uuid \<Rightarrow> int \<Rightarrow> string \<Rightarrow> string \<Rightarrow> time \<Rightarrow> unit sql" where
  "InsertNotificationAttempt deliveryID attempt outcome status at db =
     (if exists_where (\<lambda>a. na_delivery_id a = deliveryID \<and> na_attempt_number a = attempt) (notification_attempts db)
      then Inl ''notification_attempts_delivery_id_attempt_number_key''
      else Inr ((), db\<lparr>notification_attempts := notification_attempts db @
        [\<lparr>na_delivery_id = deliveryID, na_attempt_number = attempt, na_outcome = outcome,
          na_provider_status = status, na_attempted_at = at\<rparr>]\<rparr>))"

definition InsertNotificationRefreshEvent :: "uuid \<Rightarrow> uuid \<Rightarrow> uuid \<Rightarrow> unit sql" where
  "InsertNotificationRefreshEvent org env deliveryID = writing (\<lambda>db.
     db\<lparr>api_refresh_events := api_refresh_events db @
       [\<lparr>re_organization_id = org, re_environment_id = env, re_event_type = ''notification.changed'',
         re_resource_type = ''notification'', re_resource_id = deliveryID\<rparr>]\<rparr>)"

definition release_delivery :: "time \<Rightarrow> notification_row \<Rightarrow> notification_row" where
  "release_delivery now r =
     r\<lparr>no_state := ''pending'', no_next_attempt_at := min (no_next_attempt_at r) now, no_lease_owner := None,
       no_lease_token := None, no_lease_expires_at := None\<rparr>"

definition lease_expired :: "time \<Rightarrow> notification_row \<Rightarrow> bool" where
  "lease_expired now r = (case no_lease_expires_at r of None \<Rightarrow> False | Some e \<Rightarrow> e \<le> now)"

definition ReclaimExpiredNotificationLeases :: "time \<Rightarrow> nat sql" where
  "ReclaimExpiredNotificationLeases now db =
     Inr (count_where (\<lambda>r. no_state r = ''leased'' \<and> lease_expired now r) (notification_outbox db),
          db\<lparr>notification_outbox :=
               update_where (\<lambda>r. no_state r = ''leased'' \<and> lease_expired now r) (release_delivery now)
                 (notification_outbox db)\<rparr>)"

subsection \<open>The worker\<close>

definition EnqueueIncidentEventTx ::
  "time \<Rightarrow> uuid \<Rightarrow> string \<Rightarrow> (go_error \<Rightarrow> ('x, 'r) handler) \<Rightarrow> (int \<Rightarrow> ('x, 'r) handler) \<Rightarrow> ('x, 'r) handler" where
  "EnqueueIncidentEventTx ts eventID transition h k =
     (if transition \<noteq> ''opened'' \<and> transition \<noteq> ''resolved'' then h ErrInvalidConfiguration
      else query (EnqueueIncidentNotifications ts transition eventID) (h \<circ> Db) k)"

definition retryDelay :: "int \<Rightarrow> duration" where
  "retryDelay completedAttempt =
     (if completedAttempt = 1 then minute
      else if completedAttempt = 2 then 5 * minute
      else if completedAttempt = 3 then 25 * minute
      else 0)"

text \<open>\<open>safeText\<close> drops control characters, trims, falls back when nothing is left, and cuts whole
  runes from the end until the text fits.\<close>

definition printable :: "rune \<Rightarrow> bool" where
  "printable r \<longleftrightarrow> \<not> (r < 32 \<or> r = 127)"

fun cut_to :: "nat \<Rightarrow> (rune \<times> string) list \<Rightarrow> (rune \<times> string) list" where
  "cut_to maximum [] = []"
| "cut_to maximum (c # cs) =
     (if length (concat (map snd (rev (c # cs)))) > maximum then cut_to maximum cs else c # cs)"

definition safeText :: "string \<Rightarrow> string \<Rightarrow> nat \<Rightarrow> string" where
  "safeText value fallback maximum =
     (let cleaned = TrimSpace (encode_runes (filter printable (runes value)));
          text = (if cleaned = [] then fallback else cleaned) in
      concat (map snd (rev (cut_to maximum (rev (chunks text))))))"

definition safeProviderStatus :: "string option \<Rightarrow> string" where
  "safeProviderStatus failure =
     (case failure of Some status \<Rightarrow> safeText status ''provider_error'' 160 | None \<Rightarrow> ''provider_error'')"

definition ReclaimExpired :: "time \<Rightarrow> ('x, go_error + int) handler" where
  "ReclaimExpired now =
     transaction Inl Inr (\<lambda>h k.
       query (ReclaimExpiredNotificationLeases (databaseTimestamp now)) (h \<circ> Db) (\<lambda>n. k (int n)))"

definition claim_fragment ::
  "Worker \<Rightarrow> time \<Rightarrow> (go_error \<Rightarrow> ('x, 'r) handler)
   \<Rightarrow> ((go_error + claimedDelivery option) + claimedDelivery \<Rightarrow> ('x, 'r) handler) \<Rightarrow> ('x, 'r) handler" where
  "claim_fragment w now h k =
     query (ClaimNotificationDelivery
              \<lparr>cp_worker = workerID w, cp_expires = databaseTimestamp (now + lease w),
               cp_at = databaseTimestamp now\<rparr>) (h \<circ> Db)
       (\<lambda>row. k (case row of None \<Rightarrow> Inl (Inr None) | Some d \<Rightarrow> Inr d))"

definition claim :: "Worker \<Rightarrow> time \<Rightarrow> ('x, go_error + claimedDelivery option) handler" where
  "claim w now = transaction_or_return Inl (\<lambda>d. Inr (Some d)) (claim_fragment w now)"

definition insertRefreshEvent ::
  "claimedDelivery \<Rightarrow> (go_error \<Rightarrow> ('x, 'r) handler) \<Rightarrow> (unit \<Rightarrow> ('x, 'r) handler) \<Rightarrow> ('x, 'r) handler" where
  "insertRefreshEvent d h k =
     query (InsertNotificationRefreshEvent (cd_organizationID d) (cd_environmentID d) (cd_deliveryID d)) (h \<circ> Db) k"

definition finish_attempt ::
  "nat sql \<Rightarrow> claimedDelivery \<Rightarrow> string \<Rightarrow> string \<Rightarrow> time \<Rightarrow> (go_error \<Rightarrow> ('x, 'r) handler)
   \<Rightarrow> (unit \<Rightarrow> ('x, 'r) handler) \<Rightarrow> ('x, 'r) handler" where
  "finish_attempt stmt d outcome status attemptedAt h k =
     query stmt (h \<circ> Db) (\<lambda>rowsAffected.
       if rowsAffected \<noteq> 1 then h ErrLeaseLost
       else query (InsertNotificationAttempt (cd_deliveryID d) (cd_attempt d) outcome status
                     (databaseTimestamp attemptedAt)) (h \<circ> Db) (\<lambda>_.
            insertRefreshEvent d h k))"

definition accept :: "claimedDelivery \<Rightarrow> time \<Rightarrow> ProviderResponse \<Rightarrow> ('x, go_error option) handler" where
  "accept d attemptedAt response =
     (let status = safeText (Status response) ''accepted'' 160;
          messageID = safeText (MessageID response) (cd_deliveryID d) 255 in
      transaction Some (\<lambda>_. None)
        (finish_attempt
           (AcceptNotificationDelivery (cd_attempt d) messageID status (databaseTimestamp attemptedAt)
              (cd_deliveryID d) (cd_leaseToken d))
           d ''accepted'' status attemptedAt))"

definition retryOrFail :: "claimedDelivery \<Rightarrow> time \<Rightarrow> string \<Rightarrow> ('x, go_error option) handler" where
  "retryOrFail d attemptedAt status =
     (let final = cd_attempt d \<ge> maximumAttempts;
          state = (if final then ''failed'' else ''pending'');
          outcome = (if final then ''failed'' else ''retry_scheduled'');
          nextAttempt = (if final then attemptedAt else attemptedAt + retryDelay (cd_attempt d)) in
      transaction Some (\<lambda>_. None)
        (finish_attempt
           (CompleteFailedNotificationAttempt state (cd_attempt d) (databaseTimestamp nextAttempt) status
              (databaseTimestamp attemptedAt) (cd_deliveryID d) (cd_leaseToken d))
           d outcome status attemptedAt))"

definition message_of :: "claimedDelivery \<Rightarrow> Message" where
  "message_of d =
     \<lparr>DeliveryID = cd_deliveryID d, IncidentID = cd_incidentID d, Recipient = cd_recipient d,
      Transition = cd_transition d, Subject = ''WatchTrace incident '' @ cd_transition d,
      PlainTextBody = ''WatchTrace incident '' @ cd_transition d @ [CHR 0x0A] @ ''Incident ID: '' @ cd_incidentID d @
        [CHR 0x0A] @ ''Delivery ID: '' @ cd_deliveryID d @ [CHR 0x0A]\<rparr>"

text \<open>\<open>DeliverNext\<close> with the time before and the time after the provider call.\<close>

definition DeliverNext ::
  "(Message \<Rightarrow> 'x \<Rightarrow> send_result \<times> 'x) \<Rightarrow> Worker \<Rightarrow> time \<Rightarrow> time \<Rightarrow> ('x, bool \<times> go_error option) handler" where
  "DeliverNext send w now attemptedAt =
     and_then (ReclaimExpired now) (\<lambda>reclaimed.
       case reclaimed of
         Inl e \<Rightarrow> ret (False, Some e)
       | Inr _ \<Rightarrow> and_then (claim w now) (\<lambda>claimed.
           case claimed of
             Inl e \<Rightarrow> ret (False, Some e)
           | Inr None \<Rightarrow> ret (False, None)
           | Inr (Some d) \<Rightarrow>
               remote (send (message_of d))
                 (and_then (retryOrFail d attemptedAt (safeProviderStatus None)) (\<lambda>err. ret (True, err)))
                 (\<lambda>result. case result of
                    Accepted response \<Rightarrow> and_then (accept d attemptedAt response) (\<lambda>err. ret (True, err))
                  | ProviderFailure status \<Rightarrow>
                      and_then (retryOrFail d attemptedAt (safeProviderStatus (Some status))) (\<lambda>err. ret (True, err)))))"

subsection \<open>The outbox as a lease queue\<close>

text \<open>What the check constraints of the outbox and the worker keep of one row: exactly a leased row
  has an owner, a token and an expiry, the final states carry their time, and a row that can still
  be sent has used fewer than the maximum number of attempts.\<close>

definition delivery_ok :: "notification_row \<Rightarrow> bool" where
  "delivery_ok r \<longleftrightarrow>
     no_state r \<in> set [''pending'', ''leased'', ''accepted'', ''failed''] \<and>
     (no_state r = ''leased'' \<longleftrightarrow> no_lease_token r \<noteq> None) \<and>
     (no_state r = ''leased'' \<longleftrightarrow> no_lease_owner r \<noteq> None) \<and>
     (no_state r = ''leased'' \<longleftrightarrow> no_lease_expires_at r \<noteq> None) \<and>
     (no_state r = ''accepted'' \<longleftrightarrow> no_accepted_at r \<noteq> None) \<and>
     (no_state r = ''failed'' \<longleftrightarrow> no_failed_at r \<noteq> None) \<and>
     0 \<le> no_attempt_count r \<and> no_attempt_count r \<le> maximumAttempts \<and>
     (no_state r \<in> set [''pending'', ''leased''] \<longrightarrow> no_attempt_count r < maximumAttempts) \<and>
     (no_state r = ''failed'' \<longrightarrow> no_attempt_count r = maximumAttempts) \<and>
     (no_state r = ''accepted'' \<longrightarrow> 1 \<le> no_attempt_count r)"

definition settlement_ok :: "settlement \<Rightarrow> notification_row \<Rightarrow> bool" where
  "settlement_ok s r =
     (case s of
        Settle_Accepted attempt _ _ _ \<Rightarrow> attempt = no_attempt_count r + 1
      | Settle_Failed state attempt _ _ _ \<Rightarrow>
          attempt = no_attempt_count r + 1 \<and>
          state = (if attempt \<ge> maximumAttempts then ''failed'' else ''pending''))"

lemma lease_delivery_ok:
  "delivery_ok r \<Longrightarrow> delivery_ready c r \<Longrightarrow> delivery_ok (lease_delivery c t r)"
  by (simp add: delivery_ok_def delivery_ready_def lease_delivery_def)

lemma settle_delivery_ok:
  assumes "delivery_ok r" "no_state r = ''leased''" "settlement_ok s r"
  shows "delivery_ok (settle_delivery s r)"
proof (cases s)
  case (Settle_Accepted a m st t)
  with assms show ?thesis
    by (simp add: delivery_ok_def settlement_ok_def settle_delivery_def maximumAttempts_def)
next
  case (Settle_Failed state a nxt st t)
  with assms show ?thesis
    by (cases "a \<ge> maximumAttempts")
      (simp_all add: delivery_ok_def settlement_ok_def settle_delivery_def maximumAttempts_def)
qed

lemma release_delivery_ok:
  "delivery_ok r \<Longrightarrow> no_state r = ''leased'' \<Longrightarrow> delivery_ok (release_delivery now r)"
  by (simp add: delivery_ok_def release_delivery_def)

interpretation outbox: lease_queue no_delivery_id no_lease_token delivery_ready "\<lambda>r. no_state r = ''leased''"
  delivery_ok lease_delivery settle_delivery settlement_ok release_delivery
proof (unfold_locales, goal_cases)
  case (1 r) then show ?case by (simp add: delivery_ok_def)
next
  case (2 r c) then show ?case by (simp add: delivery_ready_def)
next
  case (3 c t r) then show ?case by (simp add: lease_delivery_def)
next
  case (4 r c t) then show ?case by (simp add: lease_delivery_def)
next
  case (5 r c t) then show ?case by (rule lease_delivery_ok)
next
  case (6 s r) then show ?case by (cases s) (simp_all add: settle_delivery_def)
next
  case (7 s r) then show ?case by (cases s) (simp_all add: settle_delivery_def)
next
  case (8 r s) then show ?case by (rule settle_delivery_ok)
next
  case (9 f r) then show ?case by (simp add: release_delivery_def)
next
  case (10 f r) then show ?case by (simp add: release_delivery_def)
next
  case (11 r f) then show ?case by (rule release_delivery_ok)
qed

subsection \<open>The invariant of the outbox and its attempt log\<close>

abbreviation attempt_key :: "attempt_row \<Rightarrow> uuid \<times> int" where
  "attempt_key a \<equiv> (na_delivery_id a, na_attempt_number a)"

text \<open>A delivery's logged attempts are exactly the numbers one to its attempt count, each once.\<close>

definition attempts_logged :: "attempt_row list \<Rightarrow> notification_row \<Rightarrow> bool" where
  "attempts_logged attempts r \<longleftrightarrow>
     (\<forall>n. (no_delivery_id r, n) \<in> attempt_key ` set attempts \<longleftrightarrow> 1 \<le> n \<and> n \<le> no_attempt_count r)"

definition outbox_inv :: "database \<Rightarrow> bool" where
  "outbox_inv db \<longleftrightarrow>
     distinct (map no_delivery_id (notification_outbox db)) \<and>
     (\<forall>r\<in>set (notification_outbox db). delivery_ok r) \<and>
     distinct (map attempt_key (notification_attempts db)) \<and>
     (\<forall>r\<in>set (notification_outbox db). attempts_logged (notification_attempts db) r)"

text \<open>A worker's claim is current as long as the row it names, if still leased under its token, has
  the attempt count the claim was made with.\<close>

definition claim_current :: "claimedDelivery \<Rightarrow> database \<Rightarrow> bool" where
  "claim_current d db \<longleftrightarrow>
     (\<forall>r\<in>set (notification_outbox db).
        leased_under (cd_deliveryID d) (cd_leaseToken d) r \<longrightarrow> cd_attempt d = no_attempt_count r + 1)"

lemma attempts_logged_lease [simp]:
  "attempts_logged attempts (lease_delivery c t r) = attempts_logged attempts r"
  "attempts_logged attempts (release_delivery now r) = attempts_logged attempts r"
  by (simp_all add: attempts_logged_def lease_delivery_def release_delivery_def)

lemma reclaim_keeps:
  "stmt_keeps outbox_inv (ReclaimExpiredNotificationLeases now)"
  unfolding stmt_keeps_def
proof (intro allI impI)
  fix db n db'
  assume inv: "outbox_inv db" and run: "ReclaimExpiredNotificationLeases now db = Inr (n, db')"
  let ?rows = "update_where (\<lambda>r. no_state r = ''leased'' \<and> lease_expired now r) (release_delivery now) (notification_outbox db)"
  have "map no_delivery_id ?rows = map no_delivery_id (notification_outbox db)"
    by (rule outbox.freed_keys)
  moreover have "\<forall>r\<in>set ?rows. delivery_ok r"
    using inv by (intro outbox.freed_ok) (simp add: outbox_inv_def)
  moreover have "\<forall>r\<in>set ?rows. attempts_logged (notification_attempts db) r"
    using inv by (auto simp: outbox_inv_def set_update_where)
  ultimately show "outbox_inv db'"
    using inv run by (auto simp: ReclaimExpiredNotificationLeases_def outbox_inv_def)
qed

lemma first_by_ready:
  assumes "first_by key p rows = Some r"
  shows "r \<in> set rows" "p r"
  using first_by_Some[OF assms] by auto

lemma claim_Some:
  assumes "ClaimNotificationDelivery c db = Inr (Some d, db')"
  obtains r where "r \<in> set (notification_outbox db)" "delivery_ready c r"
    "cd_deliveryID d = no_delivery_id r" "cd_leaseToken d = fresh_uuid db" "cd_attempt d = no_attempt_count r + 1"
    "db' = (drawn_uuid db)\<lparr>notification_outbox :=
       update_where (\<lambda>x. no_delivery_id x = no_delivery_id r) (lease_delivery c (fresh_uuid db)) (notification_outbox db)\<rparr>"
proof -
  obtain r where r: "first_by (\<lambda>r. (no_next_attempt_at r, no_created_at r, no_delivery_id r)) (delivery_ready c)
      (notification_outbox db) = Some r"
    using assms by (auto simp: ClaimNotificationDelivery_def split: option.splits)
  show thesis
    by (rule that[OF first_by_ready[OF r]]) (use assms r in \<open>auto simp: ClaimNotificationDelivery_def split: option.splits\<close>)
qed

lemma claim_keeps:
  assumes inv: "outbox_inv db" and run: "ClaimNotificationDelivery c db = Inr (row, db')"
  shows "outbox_inv db'" and "case row of None \<Rightarrow> db' = db | Some d \<Rightarrow> claim_current d db'"
proof -
  have "outbox_inv db' \<and> (case row of None \<Rightarrow> db' = db | Some d \<Rightarrow> claim_current d db')"
  proof (cases row)
    case None
    then show ?thesis
      using inv run by (auto simp: ClaimNotificationDelivery_def split: option.splits)
  next
    case (Some d)
    then obtain r where r: "r \<in> set (notification_outbox db)" "delivery_ready c r"
      and d: "cd_deliveryID d = no_delivery_id r" "cd_leaseToken d = fresh_uuid db" "cd_attempt d = no_attempt_count r + 1"
      and db': "db' = (drawn_uuid db)\<lparr>notification_outbox :=
         update_where (\<lambda>x. no_delivery_id x = no_delivery_id r) (lease_delivery c (fresh_uuid db)) (notification_outbox db)\<rparr>"
      using run by (blast elim: claim_Some)
    have dist: "distinct (map no_delivery_id (notification_outbox db))"
      and ok: "\<forall>r\<in>set (notification_outbox db). delivery_ok r"
      using inv by (simp_all add: outbox_inv_def)
    have same: "no_attempt_count (lease_delivery c t x) = no_attempt_count x"
      "no_delivery_id (lease_delivery c t x) = no_delivery_id x" for t x
      by (simp_all add: lease_delivery_def)
    have "no_attempt_count x = no_attempt_count r"
      if "x \<in> set (notification_outbox db')" "no_delivery_id x = no_delivery_id r" for x
    proof -
      from that(1) obtain y where y: "y \<in> set (notification_outbox db)"
        "x = (if no_delivery_id y = no_delivery_id r then lease_delivery c (fresh_uuid db) y else y)"
        unfolding db' by (auto elim: in_update_whereE)
      then have "y = r"
        using that(2) outbox.distinct_key_unique[OF dist r(1), of y] by (auto simp: same split: if_splits)
      with y(2) show ?thesis by (simp add: same)
    qed
    then have "claim_current d db'"
      by (auto simp: claim_current_def d)
    moreover have "\<forall>x\<in>set (notification_outbox db'). attempts_logged (notification_attempts db') x"
      using inv by (auto simp: outbox_inv_def db' drawn_uuid_def set_update_where)
    ultimately show ?thesis
      using inv Some outbox.taken_ok[OF dist ok r] dist
      by (simp add: outbox_inv_def db' drawn_uuid_def outbox.taken_keys)
  qed
  then show "outbox_inv db'" "case row of None \<Rightarrow> db' = db | Some d \<Rightarrow> claim_current d db'"
    by simp_all
qed

text \<open>Settling a current claim and logging its attempt never meets the unique index of the log.\<close>

definition settled_and_logged :: "settlement \<Rightarrow> claimedDelivery \<Rightarrow> attempt_row \<Rightarrow> database \<Rightarrow> database" where
  "settled_and_logged s d a db =
     db\<lparr>notification_outbox :=
          update_where (leased_under (cd_deliveryID d) (cd_leaseToken d)) (settle_delivery s) (notification_outbox db),
        notification_attempts := notification_attempts db @ [a]\<rparr>"

lemma settle_delivery_sel:
  "no_delivery_id (settle_delivery s r) = no_delivery_id r"
  "settlement_ok s r \<Longrightarrow> no_attempt_count (settle_delivery s r) = no_attempt_count r + 1"
  by (cases s; simp add: settle_delivery_def settlement_ok_def)+

lemma attempts_logged_snoc:
  assumes "attempts_logged attempts r" "0 \<le> no_attempt_count r"
    and "attempt_key a = (no_delivery_id r, no_attempt_count r + 1)"
    and "no_delivery_id r' = no_delivery_id r" "no_attempt_count r' = no_attempt_count r + 1"
  shows "attempts_logged (attempts @ [a]) r'"
  using assms by (force simp: attempts_logged_def)

lemma attempts_logged_other:
  "attempts_logged attempts r \<Longrightarrow> na_delivery_id a \<noteq> no_delivery_id r \<Longrightarrow> attempts_logged (attempts @ [a]) r"
  by (auto simp: attempts_logged_def)

lemma settled_and_logged_inv:
  assumes inv: "outbox_inv db" and cur: "claim_current d db"
    and ok: "\<And>r. cd_attempt d = no_attempt_count r + 1 \<Longrightarrow> settlement_ok s r"
    and key: "attempt_key a = (cd_deliveryID d, cd_attempt d)"
    and hit: "r \<in> set (notification_outbox db)" "leased_under (cd_deliveryID d) (cd_leaseToken d) r"
  shows "outbox_inv (settled_and_logged s d a db)" and "attempt_key a \<notin> attempt_key ` set (notification_attempts db)"
proof -
  let ?p = "leased_under (cd_deliveryID d) (cd_leaseToken d)"
  let ?rows = "update_where ?p (settle_delivery s) (notification_outbox db)"
  have dist: "distinct (map no_delivery_id (notification_outbox db))"
    and rows_ok: "\<forall>x\<in>set (notification_outbox db). delivery_ok x"
    and logged: "\<And>x. x \<in> set (notification_outbox db) \<Longrightarrow> attempts_logged (notification_attempts db) x"
    using inv by (simp_all add: outbox_inv_def)
  have att: "cd_attempt d = no_attempt_count r + 1"
    using cur hit by (simp add: claim_current_def)
  have only: "x = r" if "x \<in> set (notification_outbox db)" "no_delivery_id x = cd_deliveryID d" for x
    using outbox.distinct_key_unique[OF dist hit(1), of x] that hit(2) by simp
  show new: "attempt_key a \<notin> attempt_key ` set (notification_attempts db)"
    using logged[OF hit(1)] hit(2) att key by (auto simp: attempts_logged_def)
  have log: "attempts_logged (notification_attempts db @ [a]) y" if "y \<in> set ?rows" for y
  proof -
    from that obtain x where x: "x \<in> set (notification_outbox db)" "y = (if ?p x then settle_delivery s x else x)"
      by (rule in_update_whereE)
    show ?thesis
    proof (cases "x = r")
      case True
      have "delivery_ok r" using rows_ok hit(1) by blast
      then have "0 \<le> no_attempt_count r" by (simp add: delivery_ok_def)
      then show ?thesis
        using True x hit logged[OF hit(1)] key att ok[OF att]
        by (intro attempts_logged_snoc[of _ r]) (auto simp: settle_delivery_sel)
    next
      case False
      then have "no_delivery_id x \<noteq> cd_deliveryID d" using only x(1) by blast
      then show ?thesis
        using x logged[OF x(1)] key by (intro attempts_logged_other) auto
    qed
  qed
  have "\<forall>x\<in>set ?rows. delivery_ok x"
    using cur by (intro outbox.settled_ok[OF rows_ok]) (auto simp: claim_current_def intro: ok)
  then show "outbox_inv (settled_and_logged s d a db)"
    using inv dist log new
    by (simp add: outbox_inv_def settled_and_logged_def outbox.settled_keys)
qed

lemma finish_attempt_ends:
  assumes inv: "outbox_inv db" and cur: "claim_current d db"
    and ok: "\<And>r. cd_attempt d = no_attempt_count r + 1 \<Longrightarrow> settlement_ok s r"
  shows "ends_in (finish_attempt (settle_statement s (cd_deliveryID d) (cd_leaseToken d)) d oc st at) db
     (\<lambda>e. e = ErrLeaseLost)
     (\<lambda>_ db'. outbox_inv db' \<and> notification_outbox db' =
        update_where (leased_under (cd_deliveryID d) (cd_leaseToken d)) (settle_delivery s) (notification_outbox db))"
    (is "ends_in _ _ _ ?Q")
proof -
  let ?p = "leased_under (cd_deliveryID d) (cd_leaseToken d)"
  let ?a = "\<lparr>na_delivery_id = cd_deliveryID d, na_attempt_number = cd_attempt d, na_outcome = oc,
              na_provider_status = st, na_attempted_at = databaseTimestamp at\<rparr>"
  let ?db1 = "db\<lparr>notification_outbox := update_where ?p (settle_delivery s) (notification_outbox db)\<rparr>"
  let ?n = "count_where ?p (notification_outbox db)"
  have hit: "outbox_inv (settled_and_logged s d ?a db)"
    "InsertNotificationAttempt (cd_deliveryID d) (cd_attempt d) oc st (databaseTimestamp at) ?db1
        = Inr ((), settled_and_logged s d ?a db)" if n: "?n = 1"
  proof -
    have "\<not> (\<forall>r\<in>set (notification_outbox db). \<not> ?p r)"
      using n count_where_0_iff[of ?p "notification_outbox db"] by linarith
    then obtain r where r: "r \<in> set (notification_outbox db)" "?p r"
      by blast
    show logged: "outbox_inv (settled_and_logged s d ?a db)"
      by (rule settled_and_logged_inv[OF inv cur ok _ r]; simp)
    have "attempt_key ?a \<notin> attempt_key ` set (notification_attempts db)"
      by (rule settled_and_logged_inv[OF inv cur ok _ r]; simp)
    then show "InsertNotificationAttempt (cd_deliveryID d) (cd_attempt d) oc st (databaseTimestamp at) ?db1
        = Inr ((), settled_and_logged s d ?a db)"
      by (auto simp: InsertNotificationAttempt_def settled_and_logged_def image_iff)
  qed
  show ?thesis
    unfolding finish_attempt_def
  proof (rule ends_query[where a = ?n and d' = ?db1], goal_cases)
    case 1
    show ?case by (simp add: settle_statement_def)
  next
    case 2
    show ?case
    proof (cases "?n = 1")
      case True
      have "ends_in (\<lambda>h k. query (InsertNotificationAttempt (cd_deliveryID d) (cd_attempt d) oc st (databaseTimestamp at))
          (h \<circ> Db) (\<lambda>_. insertRefreshEvent d h k)) ?db1 (\<lambda>e. e = ErrLeaseLost) ?Q"
        unfolding insertRefreshEvent_def InsertNotificationRefreshEvent_def
        by (rule ends_query, rule hit(2)[OF True], intro ends_writing[where q = "\<lambda>a h k. k a"] ends_done)
          (use hit(1)[OF True] in \<open>simp add: outbox_inv_def settled_and_logged_def\<close>)
      with True show ?thesis by simp
    qed (simp add: ends_fail)
  qed
qed

subsection \<open>What one delivery does to each row\<close>

definition same_delivery :: "notification_row \<Rightarrow> notification_row \<Rightarrow> bool" where
  "same_delivery r r' \<longleftrightarrow>
     no_delivery_id r' = no_delivery_id r \<and> no_incident_event_id r' = no_incident_event_id r \<and>
     no_recipient_user_id r' = no_recipient_user_id r \<and> no_recipient_email r' = no_recipient_email r \<and>
     no_transition r' = no_transition r"

definition open_delivery :: "notification_row \<Rightarrow> bool" where
  "open_delivery r \<longleftrightarrow> no_state r = ''pending'' \<or> no_state r = ''leased''"

definition lease_step :: "notification_row \<Rightarrow> notification_row \<Rightarrow> bool" where
  "lease_step r r' \<longleftrightarrow>
     r' = r \<or> same_delivery r r' \<and> open_delivery r \<and> open_delivery r' \<and> no_attempt_count r' = no_attempt_count r"

definition attempt_step :: "time \<Rightarrow> notification_row \<Rightarrow> notification_row \<Rightarrow> bool" where
  "attempt_step at r r' \<longleftrightarrow>
     same_delivery r r' \<and> open_delivery r \<and> no_attempt_count r' = no_attempt_count r + 1 \<and>
     (no_state r' = ''accepted'' \<or>
      no_state r' = ''failed'' \<and> no_attempt_count r' = maximumAttempts \<or>
      no_state r' = ''pending'' \<and> no_attempt_count r' < maximumAttempts \<and>
      no_next_attempt_at r' = databaseTimestamp (at + retryDelay (no_attempt_count r')))"

lemma lease_step_trans: "lease_step r s \<Longrightarrow> lease_step s t \<Longrightarrow> lease_step r t"
  by (auto simp: lease_step_def same_delivery_def)

lemma attempt_after_lease: "lease_step r s \<Longrightarrow> attempt_step at s t \<Longrightarrow> attempt_step at r t"
  by (auto simp: lease_step_def attempt_step_def same_delivery_def)

lemma reclaim_rows:
  assumes "ReclaimExpiredNotificationLeases now db = Inr (n, db')"
  shows "list_all2 lease_step (notification_outbox db) (notification_outbox db')"
proof -
  have "notification_outbox db' =
      update_where (\<lambda>r. no_state r = ''leased'' \<and> lease_expired now r) (release_delivery now) (notification_outbox db)"
    using assms by (auto simp: ReclaimExpiredNotificationLeases_def)
  then show ?thesis
    by (simp only:)
      (rule update_where_list_all2,
        simp add: lease_step_def same_delivery_def open_delivery_def release_delivery_def)
qed

lemma claim_rows:
  assumes inv: "outbox_inv db" and run: "ClaimNotificationDelivery c db = Inr (Some d, db')"
  shows "list_all2 lease_step (notification_outbox db) (notification_outbox db')"
proof -
  from run obtain r where r: "r \<in> set (notification_outbox db)" "delivery_ready c r"
    and db': "db' = (drawn_uuid db)\<lparr>notification_outbox :=
       update_where (\<lambda>x. no_delivery_id x = no_delivery_id r) (lease_delivery c (fresh_uuid db)) (notification_outbox db)\<rparr>"
    by (rule claim_Some)
  have dist: "distinct (map no_delivery_id (notification_outbox db))"
    using inv by (simp add: outbox_inv_def)
  have "lease_step x (if no_delivery_id x = no_delivery_id r then lease_delivery c (fresh_uuid db) x else x)"
    if "x \<in> set (notification_outbox db)" for x
  proof (cases "no_delivery_id x = no_delivery_id r")
    case True
    then have "x = r"
      using outbox.distinct_key_unique[OF dist r(1) that] by simp
    with r(2) show ?thesis
      by (simp add: lease_step_def same_delivery_def open_delivery_def lease_delivery_def delivery_ready_def)
  qed (simp add: lease_step_def)
  then show ?thesis
    unfolding db' by (simp add: update_where_list_all2)
qed

subsection \<open>The worker keeps the invariant, whatever fails\<close>

text \<open>The outbox during one delivery: the invariant holds and, since the rows \<open>old\<close>, only leases moved;
  when it is over, at most one attempt was also recorded on some rows.\<close>

definition leases_moved :: "notification_row list \<Rightarrow> database \<Rightarrow> bool" where
  "leases_moved old db \<longleftrightarrow> outbox_inv db \<and> list_all2 lease_step old (notification_outbox db)"

definition attempt_recorded :: "time \<Rightarrow> notification_row list \<Rightarrow> database \<Rightarrow> bool" where
  "attempt_recorded at old db \<longleftrightarrow>
     outbox_inv db \<and> list_all2 (\<lambda>r r'. lease_step r r' \<or> attempt_step at r r') old (notification_outbox db)"

lemma leases_moved_recorded: "leases_moved old db \<Longrightarrow> attempt_recorded at old db"
  by (auto simp: leases_moved_def attempt_recorded_def elim: list_all2_mono)

lemma leases_moved_trans:
  assumes "leases_moved old db" "outbox_inv db'" "list_all2 lease_step (notification_outbox db) (notification_outbox db')"
  shows "leases_moved old db'"
  using assms list_all2_trans[of lease_step lease_step lease_step, OF lease_step_trans]
  by (auto simp: leases_moved_def)

lemma ReclaimExpired_triple:
  "triple (\<lambda>d _. leases_moved old d) (ReclaimExpired now) (\<lambda>_ d _. leases_moved old d)"
  unfolding ReclaimExpired_def
proof (rule triple_transaction[where E = "\<lambda>_. False"])
  fix d and x :: 'b assume d: "leases_moved old d"
  let ?s = "ReclaimExpiredNotificationLeases (databaseTimestamp now)"
  have "leases_moved old d'" if "?s d = Inr (n, d')" for n d'
    using leases_moved_trans[OF d _ reclaim_rows[OF that]] reclaim_keeps[of "databaseTimestamp now"] that d
    by (auto simp: stmt_keeps_def leases_moved_def)
  then show "ends_in (\<lambda>h k. query ?s (h \<circ> Db) (\<lambda>n. k (int n))) d (\<lambda>_. False)
      (\<lambda>_ d'. leases_moved old d' \<and> (\<forall>e::go_error. leases_moved old d'))"
    by (intro ends_bind[OF ends_stmt, where q = "\<lambda>n h k. k (int n)"] ends_done)
      (auto simp: ReclaimExpiredNotificationLeases_def)
qed

lemma claim_triple:
  "triple (\<lambda>d _. leases_moved old d) (claim w now)
     (\<lambda>r d _. leases_moved old d \<and> (case r of Inr (Some c) \<Rightarrow> claim_current c d | _ \<Rightarrow> True))"
  unfolding claim_def
proof (rule triple_transaction_or_return[where E = "\<lambda>_. True"])
  fix d and x :: 'b assume d: "leases_moved old d"
  let ?c = "\<lparr>cp_worker = workerID w, cp_expires = databaseTimestamp (now + lease w), cp_at = databaseTimestamp now\<rparr>"
  have ok: "case row of None \<Rightarrow> d' = d | Some c \<Rightarrow> leases_moved old d' \<and> claim_current c d'"
    if "ClaimNotificationDelivery ?c d = Inr (row, d')" for row d'
    using claim_keeps[OF _ that] claim_rows[of d ?c _ d'] that d leases_moved_trans[OF d, of d']
    by (auto simp: leases_moved_def split: option.splits)
  show "ends_in (claim_fragment w now) d (\<lambda>_. True)
     (\<lambda>v d'. case v of
         Inl r \<Rightarrow> leases_moved old d \<and> (case r of Inr (Some c) \<Rightarrow> claim_current c d | _ \<Rightarrow> True)
       | Inr a \<Rightarrow> (leases_moved old d' \<and> (case Inr (Some a) of Inr (Some c) \<Rightarrow> claim_current c d' | _ \<Rightarrow> True)) \<and>
           (\<forall>e. leases_moved old d' \<and> (case Inl e of Inr (Some c) \<Rightarrow> claim_current c d' | _ \<Rightarrow> True)))"
    unfolding claim_fragment_def
    by (intro ends_bind[OF ends_stmt, where q = "\<lambda>row h k. k (case row of None \<Rightarrow> Inl (Inr None) | Some d \<Rightarrow> Inr d)"] ends_done)
      (use ok d in \<open>auto split: option.splits\<close>)
qed simp

lemma finish_attempt_triple:
  assumes ok: "\<And>r. cd_attempt c = no_attempt_count r + 1 \<Longrightarrow> settlement_ok s r"
    and step: "\<And>r. cd_attempt c = no_attempt_count r + 1 \<Longrightarrow> no_state r = ''leased'' \<Longrightarrow> delivery_ok r
      \<Longrightarrow> attempt_step at r (settle_delivery s r)"
  shows "triple (\<lambda>d _. leases_moved old d \<and> claim_current c d)
     (transaction Some (\<lambda>_. None) (finish_attempt (settle_statement s (cd_deliveryID c) (cd_leaseToken c)) c oc st at'))
     (\<lambda>_ d _. attempt_recorded at old d)"
proof (rule triple_transaction)
  fix d and x :: 'b assume "leases_moved old d \<and> claim_current c d"
  then have d: "outbox_inv d" "list_all2 lease_step old (notification_outbox d)" "claim_current c d"
    by (simp_all add: leases_moved_def)
  let ?p = "leased_under (cd_deliveryID c) (cd_leaseToken c)"
  have "list_all2 (\<lambda>r r'. r' = r \<or> attempt_step at r r') (notification_outbox d)
      (update_where ?p (settle_delivery s) (notification_outbox d))"
    using d(1,3) step by (intro update_where_list_all2) (auto simp: claim_current_def outbox_inv_def)
  then have rows: "list_all2 (\<lambda>r r'. lease_step r r' \<or> attempt_step at r r') old
      (update_where ?p (settle_delivery s) (notification_outbox d))"
    by (rule list_all2_trans[rotated, OF d(2)]) (auto intro: attempt_after_lease)
  show "ends_in (finish_attempt (settle_statement s (cd_deliveryID c) (cd_leaseToken c)) c oc st at') d
      (\<lambda>e. e = ErrLeaseLost) (\<lambda>_ d'. attempt_recorded at old d' \<and> (\<forall>e::go_error. attempt_recorded at old d'))"
    by (rule ends_weaken[OF finish_attempt_ends[OF d(1,3) ok]]) (simp_all add: attempt_recorded_def rows)
qed (blast intro: leases_moved_recorded)

lemma accept_triple:
  "triple (\<lambda>d _. leases_moved old d \<and> claim_current c d) (accept c at response) (\<lambda>_ d _. attempt_recorded at old d)"
  unfolding accept_def Let_def AcceptNotificationDelivery_def
  by (rule finish_attempt_triple)
    (auto simp: settlement_ok_def attempt_step_def settle_delivery_def same_delivery_def open_delivery_def)

lemma retryOrFail_triple:
  "triple (\<lambda>d _. leases_moved old d \<and> claim_current c d) (retryOrFail c at status) (\<lambda>_ d _. attempt_recorded at old d)"
  unfolding retryOrFail_def Let_def CompleteFailedNotificationAttempt_def
  by (rule finish_attempt_triple)
    (auto simp: settlement_ok_def attempt_step_def settle_delivery_def same_delivery_def open_delivery_def
      delivery_ok_def)

lemma DeliverNext_triple:
  "triple (\<lambda>d _. leases_moved old d) (DeliverNext send w now at) (\<lambda>_ d _. attempt_recorded at old d)"
proof -
  let ?P = "\<lambda>d (_::'a). leases_moved old d" and ?Q = "\<lambda>_ d (_::'a). attempt_recorded at old d"
  have finish: "triple (\<lambda>d _. leases_moved old d \<and> claim_current c d)
      (remote (send (message_of c))
         (and_then (retryOrFail c at (safeProviderStatus None)) (\<lambda>err. ret (True, err)))
         (\<lambda>result. case result of
            Accepted response \<Rightarrow> and_then (accept c at response) (\<lambda>err. ret (True, err))
          | ProviderFailure status \<Rightarrow>
              and_then (retryOrFail c at (safeProviderStatus (Some status))) (\<lambda>err. ret (True, err)))) ?Q" for c
    by (rule triple_remote[where ?P1.0 = "\<lambda>d _. leases_moved old d \<and> claim_current c d"
          and ?P2.0 = "\<lambda>_ d _. leases_moved old d \<and> claim_current c d"])
      (auto split: send_result.split intro!: triple_and_then[OF accept_triple] triple_and_then[OF retryOrFail_triple] triple_ret)
  have claimed: "triple ?P (and_then (claim w now) (\<lambda>claimed. case claimed of
             Inl e \<Rightarrow> ret (False, Some e)
           | Inr None \<Rightarrow> ret (False, None)
           | Inr (Some c) \<Rightarrow>
               remote (send (message_of c))
                 (and_then (retryOrFail c at (safeProviderStatus None)) (\<lambda>err. ret (True, err)))
                 (\<lambda>result. case result of
                    Accepted response \<Rightarrow> and_then (accept c at response) (\<lambda>err. ret (True, err))
                  | ProviderFailure status \<Rightarrow>
                      and_then (retryOrFail c at (safeProviderStatus (Some status))) (\<lambda>err. ret (True, err))))) ?Q"
    by (rule triple_and_then[OF claim_triple])
      (auto split: sum.split option.split intro!: finish triple_ret leases_moved_recorded)
  show ?thesis
    unfolding DeliverNext_def
    by (rule triple_and_then[OF ReclaimExpired_triple])
      (auto split: sum.split intro!: claimed triple_ret leases_moved_recorded)
qed

subsection \<open>Enqueueing\<close>

abbreviation recipient_key :: "notification_row \<Rightarrow> uuid \<times> uuid" where
  "recipient_key r \<equiv> (no_incident_event_id r, no_recipient_user_id r)"

abbreviation target_key :: "incident_event_row \<times> user_row \<Rightarrow> uuid \<times> uuid" where
  "target_key p \<equiv> (ie_id (fst p), us_id (snd p))"

text \<open>The identifiers of the outbox come from \<open>gen_random_uuid()\<close>, whose values are assumed not to
  repeat; the attempt log only names deliveries of the outbox.\<close>

definition deliveries_drawn :: "database \<Rightarrow> bool" where
  "deliveries_drawn db \<longleftrightarrow>
     (\<forall>r\<in>set (notification_outbox db). was_drawn db (no_delivery_id r)) \<and>
     (\<forall>a\<in>set (notification_attempts db). \<exists>r\<in>set (notification_outbox db). na_delivery_id a = no_delivery_id r)"

definition enqueue_inv :: "database \<Rightarrow> bool" where
  "enqueue_inv db \<longleftrightarrow>
     inj (db_rand db) \<and> outbox_inv db \<and> deliveries_drawn db \<and>
     distinct (map recipient_key (notification_outbox db))"

definition enqueued_one :: "string \<Rightarrow> time \<Rightarrow> incident_event_row \<times> user_row \<Rightarrow> database \<Rightarrow> database" where
  "enqueued_one transition ts p db =
     (drawn_uuid db)\<lparr>notification_outbox :=
        notification_outbox db @ [notification_for transition ts (fresh_uuid db) p]\<rparr>"

lemma fresh_delivery:
  assumes "inj (db_rand db)" "deliveries_drawn db" "r \<in> set (notification_outbox db)"
  shows "no_delivery_id r \<noteq> fresh_uuid db"
  using assms fresh_not_drawn[of db] by (auto simp: deliveries_drawn_def)

lemma notification_for_sel [simp]:
  "no_delivery_id (notification_for t ts i p) = i" "recipient_key (notification_for t ts i p) = target_key p"
  "no_attempt_count (notification_for t ts i p) = 0" "delivery_ok (notification_for t ts i p)"
  by (simp_all add: notification_for_def delivery_ok_def maximumAttempts_def)

lemma enqueued_one_inv:
  assumes "enqueue_inv db" "target_key p \<notin> recipient_key ` set (notification_outbox db)"
  shows "enqueue_inv (enqueued_one transition ts p db)"
proof -
  let ?r = "notification_for transition ts (fresh_uuid db) p"
  have inv: "inj (db_rand db)" "outbox_inv db" "deliveries_drawn db" "distinct (map recipient_key (notification_outbox db))"
    using assms(1) by (simp_all add: enqueue_inv_def)
  have fresh: "fresh_uuid db \<notin> no_delivery_id ` set (notification_outbox db)"
    using fresh_delivery[OF inv(1,3)] by (metis imageE)
  then have "(fresh_uuid db, n) \<notin> attempt_key ` set (notification_attempts db)" for n
    using inv(3) by (auto simp: deliveries_drawn_def)
  then have "attempts_logged (notification_attempts db) ?r"
    by (simp add: attempts_logged_def)
  then have "outbox_inv (enqueued_one transition ts p db)"
    using inv(2) fresh by (auto simp: outbox_inv_def enqueued_one_def drawn_uuid_def)
  moreover have "deliveries_drawn (enqueued_one transition ts p db)"
    using inv(3) by (auto simp: deliveries_drawn_def enqueued_one_def)
  moreover have "distinct (map recipient_key (notification_outbox (enqueued_one transition ts p db)))"
    using inv(4) assms(2) notification_for_sel(2)[of transition ts "fresh_uuid db" p]
    by (simp add: enqueued_one_def)
  ultimately show ?thesis
    using inv(1) by (simp add: enqueue_inv_def enqueued_one_def drawn_uuid_def)
qed

lemma enqueue_all_Cons:
  "enqueue_all transition ts (p # ps) n db =
     (if target_key p \<in> recipient_key ` set (notification_outbox db) then enqueue_all transition ts ps n db
      else enqueue_all transition ts ps (n + 1) (enqueued_one transition ts p db))"
  by (auto simp: enqueued_one_def image_iff)

lemma insert_diff_new: "N = T - insert x K \<Longrightarrow> x \<notin> K \<Longrightarrow> insert x N = insert x T - K"
  by blast

lemma enqueue_all_result:
  assumes "enqueue_all transition ts ps n db = (m, db')" "enqueue_inv db"
  shows "enqueue_inv db' \<and>
    (\<exists>new. notification_outbox db' = notification_outbox db @ new \<and> m = n + int (length new) \<and>
       recipient_key ` set new = target_key ` set ps - recipient_key ` set (notification_outbox db) \<and>
       (\<forall>r\<in>set new. \<exists>p\<in>set ps. \<exists>i. r = notification_for transition ts i p))"
  using assms
proof (induction ps arbitrary: n db)
  case Nil
  then show ?case by simp
next
  case (Cons p ps)
  show ?case
  proof (cases "target_key p \<in> recipient_key ` set (notification_outbox db)")
    case True
    with Cons.prems have "enqueue_all transition ts ps n db = (m, db')"
      by (simp only: enqueue_all_Cons if_True)
    from Cons.IH[OF this Cons.prems(2)] True show ?thesis by fastforce
  next
    case False
    with Cons.prems have run: "enqueue_all transition ts ps (n + 1) (enqueued_one transition ts p db) = (m, db')"
      by (simp only: enqueue_all_Cons if_False)
    let ?r = "notification_for transition ts (fresh_uuid db) p"
    from Cons.IH[OF run enqueued_one_inv[OF Cons.prems(2) False]] obtain new where inv: "enqueue_inv db'"
      and new: "notification_outbox db' = notification_outbox (enqueued_one transition ts p db) @ new"
      "m = n + 1 + int (length new)"
      "recipient_key ` set new = target_key ` set ps - recipient_key ` set (notification_outbox (enqueued_one transition ts p db))"
      "\<forall>r\<in>set new. \<exists>p\<in>set ps. \<exists>i. r = notification_for transition ts i p"
      by blast
    have key: "recipient_key ?r = target_key p" by (rule notification_for_sel)
    have out: "notification_outbox (enqueued_one transition ts p db) = notification_outbox db @ [?r]"
      by (simp add: enqueued_one_def)
    have keys: "recipient_key ` set (?r # new) = target_key ` set (p # ps) - recipient_key ` set (notification_outbox db)"
      unfolding list.set image_insert key
      by (rule insert_diff_new[OF _ False]) (use new(3) in \<open>simp only: out list.set set_append image_Un image_insert key image_empty Un_insert_right Un_empty_right\<close>)
    show ?thesis
      using inv new(1,2,4) keys by (intro conjI inv exI[of _ "?r # new"]) (auto simp: out)
  qed
qed

lemma enqueue_all_frame:
  "\<exists>k rows. snd (enqueue_all transition ts ps n db) = db\<lparr>db_drawn := db_drawn db + k, notification_outbox := rows\<rparr>"
proof (induction ps arbitrary: n db)
  case Nil
  show ?case by (rule exI[of _ 0], rule exI[of _ "notification_outbox db"]) simp
next
  case (Cons p ps)
  show ?case
  proof (cases "target_key p \<in> recipient_key ` set (notification_outbox db)")
    case True
    then show ?thesis using Cons.IH[of n db] by (simp only: enqueue_all_Cons if_True)
  next
    case False
    from Cons.IH[of "n + 1" "enqueued_one transition ts p db"] obtain k rows where
      "snd (enqueue_all transition ts ps (n + 1) (enqueued_one transition ts p db)) =
        (enqueued_one transition ts p db)\<lparr>db_drawn := db_drawn (enqueued_one transition ts p db) + k, notification_outbox := rows\<rparr>"
      by blast
    with False show ?thesis
      by (intro exI[of _ "Suc k"] exI[of _ rows])
        (simp only: enqueue_all_Cons if_False, simp add: enqueued_one_def drawn_uuid_def)
  qed
qed

lemma enqueue_inv_frame:
  assumes "enqueue_inv db" "db_rand db' = db_rand db" "db_drawn db \<le> db_drawn db'"
    "notification_outbox db' = notification_outbox db" "notification_attempts db' = notification_attempts db"
  shows "enqueue_inv db'"
  using assms by (auto simp: enqueue_inv_def outbox_inv_def deliveries_drawn_def intro: was_drawn_mono)

lemma enqueue_all_again:
  assumes "target_key ` set ps \<subseteq> recipient_key ` set (notification_outbox db)"
  shows "enqueue_all transition ts ps n db = (n, db)"
  using assms by (induction ps) (auto simp only: enqueue_all_Cons enqueue_all.simps if_True list.set image_insert insert_subset)

subsection \<open>Properties\<close>

text \<open>C6: one delivery by a worker keeps the outbox consistent and moves every row only as intended,
  whatever the provider answers and whichever round trips fail: the rows stay in place, a final row
  never changes, a row either keeps its attempt count or gains exactly one attempt, which ends in
  acceptance, in a retry after the delay for that attempt, or, at the fourth attempt, in failure; and
  the attempt log numbers each delivery's attempts from one to its count.\<close>

theorem DeliverNext_outbox:
  assumes "outbox_inv (durable w)"
  shows "case DeliverNext send worker now at w of (r, w') \<Rightarrow>
    outbox_inv (durable w') \<and>
    list_all2 (\<lambda>r r'. lease_step r r' \<or> attempt_step at r r')
      (notification_outbox (durable w)) (notification_outbox (durable w'))"
proof -
  have "leases_moved (notification_outbox (durable w)) (durable w)"
    using assms by (simp add: leases_moved_def lease_step_def list_all2_refl)
  from tripleD[OF DeliverNext_triple, where w = w, OF this] show ?thesis
    by (simp add: attempt_recorded_def case_prod_beta)
qed

definition sample_event :: incident_event_row where
  "sample_event = \<lparr>ie_id = ''ev'', ie_organization_id = ''org'', ie_environment_id = ''env'', ie_incident_id = ''inc'',
     ie_event_key = ''opened'', ie_event_type = ''opened'', ie_actor_user_id = None, ie_source_job_id = None, ie_safe_reason = None, ie_occurred_at = 0\<rparr>"

definition sample_incident :: incident_row where
  "sample_incident = \<lparr>in_id = ''inc'', in_organization_id = ''org'', in_environment_id = ''env'', in_monitor_id = ''m'',
     in_alert_rule_id = ''rule'', in_status = ''open'', in_started_at = 0, in_opened_at = 0, in_acknowledged_at = None,
     in_acknowledged_by_user_id = None, in_resolved_at = None, in_resolved_by_user_id = None,
     in_resolution_kind = None, in_resolution_reason = None\<rparr>"

definition sample_member :: "uuid \<Rightarrow> member_row" where
  "sample_member u = \<lparr>om_organization_id = ''org'', om_user_id = u, om_role = ''viewer'',
     om_incident_notifications_enabled = True\<rparr>"

definition sample_user :: "uuid \<Rightarrow> time option \<Rightarrow> user_row" where
  "sample_user u verified = \<lparr>us_id = u, us_email = ''a@b.c'', us_email_verified_at = verified\<rparr>"

text \<open>An organization with a verified and an unverified member, and the first one's notification in
  the outbox after three failed attempts.\<close>

definition sample_notification :: notification_row where
  "sample_notification = (notification_for ''opened'' 0 (sample_uuid 0) (sample_event, sample_user ''u'' (Some 0)))
     \<lparr>no_incident_event_id := ''ev0'', no_attempt_count := 3\<rparr>"

definition sample_outbox :: database where
  "sample_outbox = (empty_database sample_uuid)
     \<lparr>db_drawn := 1, users := [sample_user ''u'' (Some 0), sample_user ''v'' None],
      org_members := [sample_member ''u'', sample_member ''v''], incidents := [sample_incident], incident_events := [sample_event],
      notification_outbox := [sample_notification],
      notification_attempts := map (\<lambda>n. \<lparr>na_delivery_id = sample_uuid 0, na_attempt_number = n,
        na_outcome = ''retry_scheduled'', na_provider_status = ''provider_error'', na_attempted_at = 0\<rparr>) [1, 2, 3]\<rparr>"

lemma sample_outbox_inv: "outbox_inv sample_outbox"
  by (auto simp: outbox_inv_def sample_outbox_def sample_notification_def notification_for_def delivery_ok_def
      maximumAttempts_def attempts_logged_def)

theorem DeliverNext_outbox_witness:
  "case DeliverNext (\<lambda>_ x. (ProviderFailure ''busy'', x)) \<lparr>workerID = ''w'', lease = minute\<rparr> 0 minute
      (world_with sample_outbox [] ()) of (r, w') \<Rightarrow>
    list_all2 (\<lambda>r r'. lease_step r r' \<or> attempt_step minute r r') [sample_notification] (notification_outbox (durable w')) \<and>
    map no_state (notification_outbox (durable w')) = [''failed'']"
proof -
  let ?run = "DeliverNext (\<lambda>_ x. (ProviderFailure ''busy'', x)) \<lparr>workerID = ''w'', lease = minute\<rparr> 0 minute
      (world_with sample_outbox [] ())"
  have "map no_state (notification_outbox (durable (snd ?run))) = [''failed'']"
    by code_simp
  moreover have "notification_outbox sample_outbox = [sample_notification]"
    by (simp add: sample_outbox_def)
  ultimately show ?thesis
    using DeliverNext_outbox[where w = "world_with sample_outbox [] ()" and at = minute and now = 0
      and send = "\<lambda>_ x. (ProviderFailure ''busy'', x)" and worker = "\<lparr>workerID = ''w'', lease = minute\<rparr>"]
      sample_outbox_inv by (simp add: case_prod_beta)
qed

lemma stale_finish:
  assumes "\<And>r. r \<in> set (notification_outbox db) \<Longrightarrow> no_delivery_id r = cd_deliveryID d
      \<Longrightarrow> no_lease_token r \<noteq> Some (cd_leaseToken d)"
  shows "ends_in (finish_attempt (settle_statement s (cd_deliveryID d) (cd_leaseToken d)) d oc st at) db
     (\<lambda>e. e = ErrLeaseLost) (\<lambda>_ _. False)"
proof -
  let ?p = "leased_under (cd_deliveryID d) (cd_leaseToken d)"
  have none: "count_where ?p (notification_outbox db) = 0"
    using outbox.stale_token(2)[OF assms] by simp
  have stmt: "settle_statement s (cd_deliveryID d) (cd_leaseToken d) db = Inr (0, db)"
    using none outbox.stale_token(1)[where s = s, OF assms] by (simp add: settle_statement_def)
  show ?thesis
    unfolding finish_attempt_def
    by (rule ends_query, rule stmt) (simp add: ends_fail)
qed

text \<open>C7: a worker whose lease was overtaken, because another worker took the delivery under another
  token, settles nothing: both ways of reporting the attempt return an error and leave the committed
  database as it was, and without a fault the error says that the lease was lost.\<close>

theorem overtaken_lease_settles_nothing:
  assumes "outbox_inv db" "ClaimNotificationDelivery c db = Inr (Some d', db')"
    and "cd_deliveryID d = cd_deliveryID d'" "cd_leaseToken d \<noteq> cd_leaseToken d'" "durable w = db'"
  shows "(case accept d at response w of (r, w') \<Rightarrow>
           r \<noteq> None \<and> durable w' = db' \<and> (faults w = [] \<longrightarrow> r = Some ErrLeaseLost)) \<and>
         (case retryOrFail d at status w of (r, w') \<Rightarrow>
           r \<noteq> None \<and> durable w' = db' \<and> (faults w = [] \<longrightarrow> r = Some ErrLeaseLost))"
proof -
  obtain r where r: "r \<in> set (notification_outbox db)" "delivery_ready c r" "cd_deliveryID d' = no_delivery_id r"
    "cd_leaseToken d' = fresh_uuid db"
    and db': "db' = (drawn_uuid db)\<lparr>notification_outbox :=
       update_where (\<lambda>x. no_delivery_id x = no_delivery_id r) (lease_delivery c (fresh_uuid db)) (notification_outbox db)\<rparr>"
    using assms(2) by (rule claim_Some)
  have dist: "distinct (map no_delivery_id (notification_outbox db))" and ok: "\<forall>r\<in>set (notification_outbox db). delivery_ok r"
    using assms(1) by (simp_all add: outbox_inv_def)
  have "no_lease_token x \<noteq> Some (cd_leaseToken d)"
    if "x \<in> set (notification_outbox db')" "no_delivery_id x = cd_deliveryID d" for x
    using outbox.taken_held[OF dist ok r(1,2), of x "fresh_uuid db"] that assms(3,4) r(3,4) by (simp add: db')
  note stale = stale_finish[of db' d, OF this]
  show ?thesis
    unfolding accept_def retryOrFail_def Let_def AcceptNotificationDelivery_def CompleteFailedNotificationAttempt_def
    by (intro conjI; rule transactionI[OF stale[folded assms(5)]]) (auto simp: assms(5))
qed

theorem overtaken_lease_settles_nothing_witness:
  "let c = \<lparr>cp_worker = ''w'', cp_expires = minute, cp_at = 0\<rparr>;
       d = \<lparr>cd_deliveryID = sample_uuid 0, cd_incidentID = ''inc'', cd_organizationID = ''org'', cd_environmentID = ''env'',
            cd_recipient = ''a@b.c'', cd_transition = ''opened'', cd_leaseToken = ''old'', cd_attempt = 4\<rparr>
   in \<exists>d' db'. ClaimNotificationDelivery c sample_outbox = Inr (Some d', db') \<and>
        fst (accept d minute \<lparr>MessageID = [], Status = []\<rparr> (world_with db' [] ())) = Some ErrLeaseLost \<and>
        durable (snd (accept d minute \<lparr>MessageID = [], Status = []\<rparr> (world_with db' [Fine, Lost_Reply] ()))) = db'"
proof -
  let ?c = "\<lparr>cp_worker = ''w'', cp_expires = minute, cp_at = 0\<rparr>"
  let ?d = "\<lparr>cd_deliveryID = sample_uuid 0, cd_incidentID = ''inc'', cd_organizationID = ''org'', cd_environmentID = ''env'',
            cd_recipient = ''a@b.c'', cd_transition = ''opened'', cd_leaseToken = ''old'', cd_attempt = 4\<rparr>"
  have "case ClaimNotificationDelivery ?c sample_outbox of Inr (Some d', db') \<Rightarrow>
      cd_deliveryID d' = sample_uuid 0 \<and> cd_leaseToken d' \<noteq> ''old'' | _ \<Rightarrow> False"
    by code_simp
  then obtain d' db' where run: "ClaimNotificationDelivery ?c sample_outbox = Inr (Some d', db')"
    "cd_deliveryID d' = sample_uuid 0" "cd_leaseToken d' \<noteq> ''old''"
    by (auto split: sum.splits option.splits)
  note lost = overtaken_lease_settles_nothing[OF sample_outbox_inv run(1), where d = ?d]
  show ?thesis
    using lost[where w = "world_with db' [] ()"] lost[where w = "world_with db' [Fine, Lost_Reply] ()"] run
    by (auto simp: Let_def case_prod_beta)
qed

text \<open>C8: enqueueing an incident transition adds exactly one pending notification for each member of
  the organization who opted in and whose address is verified and who has none for this event yet,
  counts the added rows, keeps the outbox consistent, and when repeated adds nothing.\<close>

theorem EnqueueIncidentNotifications_once:
  assumes "enqueue_inv db" "EnqueueIncidentNotifications ts transition eventID db = Inr (n, db')"
  shows "enqueue_inv db' \<and>
    (\<exists>new. notification_outbox db' = notification_outbox db @ new \<and> n = int (length new) \<and>
       recipient_key ` set new =
         target_key ` set (notification_recipients eventID db) - recipient_key ` set (notification_outbox db) \<and>
       (\<forall>r\<in>set new. no_state r = ''pending'' \<and> no_transition r = transition \<and> no_attempt_count r = 0)) \<and>
    enqueue_all transition ts' (notification_recipients eventID db) 0 db' = (0, db')"
proof -
  have run: "enqueue_all transition ts (notification_recipients eventID db) 0 db = (n, db')"
    using assms(2) by (simp add: EnqueueIncidentNotifications_def)
  from enqueue_all_result[OF run assms(1)] obtain new where new: "enqueue_inv db'"
    "notification_outbox db' = notification_outbox db @ new" "n = 0 + int (length new)"
    "recipient_key ` set new =
       target_key ` set (notification_recipients eventID db) - recipient_key ` set (notification_outbox db)"
    "\<forall>r\<in>set new. \<exists>p\<in>set (notification_recipients eventID db). \<exists>i. r = notification_for transition ts i p"
    by blast
  have "target_key ` set (notification_recipients eventID db) \<subseteq> recipient_key ` set (notification_outbox db')"
    unfolding new(2) set_append image_Un new(4) by blast
  then have again: "enqueue_all transition ts' (notification_recipients eventID db) 0 db' = (0, db')"
    by (rule enqueue_all_again)
  have "\<forall>r\<in>set new. no_state r = ''pending'' \<and> no_transition r = transition \<and> no_attempt_count r = 0"
    using new(5) by (fastforce simp: notification_for_def)
  with new again show ?thesis
    by (intro conjI exI[of _ new]) simp_all
qed

lemma sample_uuid_inj: "inj sample_uuid"
  by (simp add: sample_uuid_def inj_def)

lemma sample_enqueue_inv: "enqueue_inv sample_outbox"
  using sample_outbox_inv sample_uuid_inj
  by (auto simp: enqueue_inv_def deliveries_drawn_def was_drawn_def sample_outbox_def sample_notification_def
      notification_for_def empty_database_def)

theorem EnqueueIncidentNotifications_once_witness:
  "\<exists>new db'. EnqueueIncidentNotifications 7 ''opened'' ''ev'' sample_outbox = Inr (1, db') \<and>
     notification_outbox db' = notification_outbox sample_outbox @ [new] \<and> no_state new = ''pending'' \<and>
     enqueue_inv db'"
proof -
  have "case EnqueueIncidentNotifications 7 ''opened'' ''ev'' sample_outbox of Inr (n, db') \<Rightarrow> n = 1 | Inl _ \<Rightarrow> False"
    by code_simp
  then obtain db' where run: "EnqueueIncidentNotifications 7 ''opened'' ''ev'' sample_outbox = Inr (1, db')"
    by (auto split: sum.splits)
  from EnqueueIncidentNotifications_once[OF sample_enqueue_inv run, of 8] obtain new where
    "enqueue_inv db'" "notification_outbox db' = notification_outbox sample_outbox @ new" "1 = int (length new)"
    "\<forall>r\<in>set new. no_state r = ''pending''"
    by blast
  moreover from this(3) obtain r where "new = [r]"
    by (metis length_0_conv length_Suc_conv nat_int nat_one_as_int One_nat_def)
  ultimately show ?thesis
    using run by auto
qed

lemma cut_to_fits: "length (concat (map snd (rev (cut_to maximum cs)))) \<le> maximum"
  by (induction cs) auto

lemma cut_to_suffix: "\<exists>cut. cs = cut @ cut_to maximum cs"
proof (induction cs)
  case (Cons c cs)
  then show ?case
    by (metis append_Cons append_Nil cut_to.simps(2))
qed simp

lemma cut_to_id: "length (concat (map snd (rev cs))) \<le> maximum \<Longrightarrow> cut_to maximum cs = cs"
  by (cases cs) auto

text \<open>C9: the text that is stored from a provider's answer never exceeds its column, consists of
  whole runes from the start of the cleaned text, or of the fallback when nothing printable is left,
  and is that text unchanged when it fits.\<close>

theorem safeText_bounded:
  "let cleaned = TrimSpace (encode_runes (filter printable (runes value)));
       body = (if cleaned = [] then fallback else cleaned)
   in length (safeText value fallback maximum) \<le> maximum \<and>
      (\<exists>k. safeText value fallback maximum = concat (map snd (take k (chunks body)))) \<and>
      (length body \<le> maximum \<longrightarrow> safeText value fallback maximum = body)"
proof -
  define cleaned where "cleaned = TrimSpace (encode_runes (filter printable (runes value)))"
  define body where "body = (if cleaned = [] then fallback else cleaned)"
  let ?kept = "cut_to maximum (rev (chunks body))"
  have safe: "safeText value fallback maximum = concat (map snd (rev ?kept))"
    by (simp add: safeText_def Let_def cleaned_def body_def)
  obtain cut where "rev (chunks body) = cut @ ?kept"
    using cut_to_suffix by blast
  then have "chunks body = rev ?kept @ rev cut"
    by (metis rev_append rev_rev_ident)
  then have "take (length ?kept) (chunks body) = rev ?kept"
    by (metis append_eq_conv_conj length_rev)
  then have "safeText value fallback maximum = concat (map snd (take (length ?kept) (chunks body)))"
    by (simp only: safe)
  then have prefix: "\<exists>k. safeText value fallback maximum = concat (map snd (take k (chunks body)))"
    by (rule exI)
  have fits: "length body \<le> maximum \<longrightarrow> safeText value fallback maximum = body"
    using cut_to_id[of "rev (chunks body)" maximum] by (simp add: safe chunks_concat)
  have "length (safeText value fallback maximum) \<le> maximum"
    unfolding safe by (rule cut_to_fits)
  with prefix fits show ?thesis
    by (simp only: Let_def cleaned_def[symmetric] body_def[symmetric])
qed

theorem safeText_bounded_witness:
  "safeText ''  ok  '' ''accepted'' 160 = ''ok'' \<and> safeText (replicate 3 (CHR ''x'')) ''accepted'' 2 = ''xx''"
proof -
  have trimmed: "TrimSpace (encode_runes (filter printable (runes ''  ok  ''))) = ''ok''"
    by code_simp
  have "length ''ok'' \<le> 160 \<longrightarrow> safeText ''  ok  '' ''accepted'' 160 = ''ok''"
    using safeText_bounded[of "''  ok  ''" "''accepted''" 160]
    unfolding trimmed Let_def by (simp only: list.distinct if_False) blast
  moreover have "safeText (replicate 3 (CHR ''x'')) ''accepted'' 2 = ''xx''"
    by code_simp
  ultimately show ?thesis
    by simp
qed

end
