(* ===== verification/Incident.thy ===== *)
theory Incident
  imports Notification Authorization
begin



subsection \<open>Statements\<close>

definition default_rule :: "uuid \<Rightarrow> monitor_row \<Rightarrow> alert_rule_row" where
  "default_rule i m =
     \<lparr>ar_id = i, ar_organization_id = mon_organization_id m, ar_environment_id = mon_environment_id m,
      ar_monitor_id = mon_id m, ar_rule_key = ''consecutive_failures'', ar_failure_threshold = 3,
      ar_recovery_threshold = 2, ar_enabled = True\<rparr>"

definition EnsureDefaultAlertRule :: "uuid \<Rightarrow> unit sql" where
  "EnsureDefaultAlertRule monitorID = writing (\<lambda>db.
     case select_one (\<lambda>m. mon_id m = monitorID) (monitors db) of
       None \<Rightarrow> db
     | Some m \<Rightarrow>
         if exists_where (\<lambda>r. ar_monitor_id r = monitorID \<and> ar_rule_key r = ''consecutive_failures'') (alert_rules db)
         then db
         else (drawn_uuid db)\<lparr>alert_rules := alert_rules db @ [default_rule (fresh_uuid db) m]\<rparr>)"

record enabled_rule =
  RuleID :: uuid
  RuleOrganizationID :: uuid
  RuleEnvironmentID :: uuid
  FailureThreshold :: int
  ObservedState :: string

definition enabled_rule_of :: "alert_rule_row \<Rightarrow> reliability_state_row \<Rightarrow> enabled_rule" where
  "enabled_rule_of r s =
     \<lparr>RuleID = ar_id r, RuleOrganizationID = ar_organization_id r, RuleEnvironmentID = ar_environment_id r,
      FailureThreshold = ar_failure_threshold r, ObservedState = rs_observed_state s\<rparr>"

definition GetEnabledMonitorAlertRule :: "uuid \<Rightarrow> database \<Rightarrow> enabled_rule option" where
  "GetEnabledMonitorAlertRule monitorID db =
     (case select_one (\<lambda>r. ar_monitor_id r = monitorID \<and> ar_rule_key r = ''consecutive_failures'' \<and> ar_enabled r)
             (alert_rules db) of
        None \<Rightarrow> None
      | Some r \<Rightarrow> map_option (enabled_rule_of r)
          (select_one (\<lambda>s. rs_monitor_id s = monitorID) (monitor_reliability_states db)))"

definition open_for :: "uuid \<Rightarrow> uuid \<Rightarrow> incident_row \<Rightarrow> bool" where
  "open_for monitorID ruleID i \<longleftrightarrow>
     in_monitor_id i = monitorID \<and> in_alert_rule_id i = ruleID \<and> in_status i = ''open''"

definition LockOpenIncident :: "uuid \<Rightarrow> uuid \<Rightarrow> database \<Rightarrow> uuid option" where
  "LockOpenIncident monitorID ruleID db =
     map_option in_id (select_one (open_for monitorID ruleID) (incidents db))"

definition ListRecentIncidentEvaluationTimes :: "uuid \<Rightarrow> int \<Rightarrow> database \<Rightarrow> time list" where
  "ListRecentIncidentEvaluationTimes monitorID threshold db =
     take (nat threshold) (map ev_scheduled_at (rev (sort_key (\<lambda>e. (ev_scheduled_at e, ev_job_id e))
       (filter (\<lambda>e. ev_monitor_id e = monitorID) (monitor_result_evaluations db)))))"

definition open_incident_row :: "uuid \<Rightarrow> uuid \<Rightarrow> uuid \<Rightarrow> uuid \<Rightarrow> uuid \<Rightarrow> time \<Rightarrow> time \<Rightarrow> incident_row" where
  "open_incident_row i org env monitorID ruleID startedAt openedAt =
     \<lparr>in_id = i, in_organization_id = org, in_environment_id = env, in_monitor_id = monitorID,
      in_alert_rule_id = ruleID, in_status = ''open'', in_started_at = startedAt, in_opened_at = openedAt,
      in_acknowledged_at = None, in_acknowledged_by_user_id = None, in_resolved_at = None,
      in_resolved_by_user_id = None, in_resolution_kind = None, in_resolution_reason = None\<rparr>"

definition CreateOpenIncident :: "uuid \<Rightarrow> uuid \<Rightarrow> uuid \<Rightarrow> uuid \<Rightarrow> time \<Rightarrow> time \<Rightarrow> uuid option sql" where
  "CreateOpenIncident org env monitorID ruleID startedAt openedAt db =
     (if exists_where (open_for monitorID ruleID) (incidents db) then Inr (None, db)
      else Inr (Some (fresh_uuid db),
        (drawn_uuid db)\<lparr>incidents := incidents db @
           [open_incident_row (fresh_uuid db) org env monitorID ruleID startedAt openedAt]\<rparr>))"

definition resolve_row :: "time \<Rightarrow> string \<Rightarrow> string \<Rightarrow> string \<Rightarrow> incident_row \<Rightarrow> incident_row" where
  "resolve_row at actor kind reason i =
     i\<lparr>in_status := ''resolved'', in_resolved_at := Some at, in_resolved_by_user_id := nullif_empty actor,
       in_resolution_kind := Some kind, in_resolution_reason := nullif_empty (btrim reason)\<rparr>"

definition ResolveOpenIncident :: "time \<Rightarrow> string \<Rightarrow> string \<Rightarrow> string \<Rightarrow> uuid \<Rightarrow> nat sql" where
  "ResolveOpenIncident at actor kind reason incidentID db =
     Inr (count_where (\<lambda>i. in_id i = incidentID \<and> in_status i = ''open'') (incidents db),
          db\<lparr>incidents := update_where (\<lambda>i. in_id i = incidentID \<and> in_status i = ''open'')
               (resolve_row at actor kind reason) (incidents db)\<rparr>)"

definition GetIncidentTenant :: "uuid \<Rightarrow> database \<Rightarrow> (uuid \<times> uuid) option" where
  "GetIncidentTenant incidentID db =
     map_option (\<lambda>i. (in_organization_id i, in_environment_id i))
       (select_one (\<lambda>i. in_id i = incidentID) (incidents db))"

record event_params =
  ep_OrganizationID :: uuid
  ep_EnvironmentID :: uuid
  ep_IncidentID :: uuid
  ep_EventKey :: string
  ep_EventType :: string
  ep_ActorUserID :: string
  ep_SourceJobID :: string
  ep_SafeReason :: string
  ep_OccurredAt :: time

definition event_row_of :: "uuid \<Rightarrow> event_params \<Rightarrow> incident_event_row" where
  "event_row_of i p =
     \<lparr>ie_id = i, ie_organization_id = ep_OrganizationID p, ie_environment_id = ep_EnvironmentID p,
      ie_incident_id = ep_IncidentID p, ie_event_key = ep_EventKey p, ie_event_type = ep_EventType p,
      ie_actor_user_id = nullif_empty (ep_ActorUserID p), ie_source_job_id = nullif_empty (ep_SourceJobID p),
      ie_safe_reason = nullif_empty (btrim (ep_SafeReason p)), ie_occurred_at = ep_OccurredAt p\<rparr>"

definition UpsertIncidentEvent :: "event_params \<Rightarrow> uuid sql" where
  "UpsertIncidentEvent p db =
     (case select_one (\<lambda>e. ie_incident_id e = ep_IncidentID p \<and> ie_event_key e = ep_EventKey p) (incident_events db) of
        Some e \<Rightarrow> Inr (ie_id e, db)
      | None \<Rightarrow> Inr (fresh_uuid db,
          (drawn_uuid db)\<lparr>incident_events := incident_events db @ [event_row_of (fresh_uuid db) p]\<rparr>))"

definition InsertIncidentRefreshEvent :: "uuid \<Rightarrow> uuid \<Rightarrow> uuid \<Rightarrow> unit sql" where
  "InsertIncidentRefreshEvent org env incidentID = writing (\<lambda>db.
     db\<lparr>api_refresh_events := api_refresh_events db @
       [\<lparr>re_organization_id = org, re_environment_id = env, re_event_type = ''incident.changed'',
         re_resource_type = ''incident'', re_resource_id = incidentID\<rparr>]\<rparr>)"




subsection \<open>Fragments\<close>

type_synonym ('x, 'r, 'a) incident_fragment =
  "(go_error \<Rightarrow> ('x, 'r) handler) \<Rightarrow> ('a \<Rightarrow> ('x, 'r) handler) \<Rightarrow> ('x, 'r) handler"

definition openIncidentID :: "uuid \<Rightarrow> uuid \<Rightarrow> ('x, 'r, uuid option) incident_fragment" where
  "openIncidentID monitorID ruleID h k = query (reading (LockOpenIncident monitorID ruleID)) (h \<circ> Db) k"

text \<open>A nil actor is written as the empty string, which the statements read as NULL.\<close>

definition incident_optionalString :: "string option \<Rightarrow> string" where
  "incident_optionalString v = (case v of None \<Rightarrow> '''' | Some s \<Rightarrow> s)"

definition insertEvent ::
  "uuid \<Rightarrow> uuid \<Rightarrow> uuid \<Rightarrow> string \<Rightarrow> string \<Rightarrow> uuid option \<Rightarrow> string \<Rightarrow> string \<Rightarrow> time
   \<Rightarrow> ('x, 'r, uuid) incident_fragment" where
  "insertEvent org env incidentID eventKey eventType actor sourceJobID reason now h k =
     query (UpsertIncidentEvent
        \<lparr>ep_OrganizationID = org, ep_EnvironmentID = env, ep_IncidentID = incidentID, ep_EventKey = eventKey,
         ep_EventType = eventType, ep_ActorUserID = incident_optionalString actor, ep_SourceJobID = TrimSpace sourceJobID,
         ep_SafeReason = reason, ep_OccurredAt = databaseTimestamp now\<rparr>) (h \<circ> Db) (\<lambda>eventID.
     query (InsertIncidentRefreshEvent org env incidentID) (h \<circ> Db) (\<lambda>_. k eventID))"

definition openIncident ::
  "time \<Rightarrow> uuid \<Rightarrow> uuid \<Rightarrow> uuid \<Rightarrow> uuid \<Rightarrow> string \<Rightarrow> time \<Rightarrow> time \<Rightarrow> ('x, 'r, unit) incident_fragment" where
  "openIncident ts org env monitorID ruleID sourceJobID startedAt now h k =
     query (CreateOpenIncident org env monitorID ruleID (databaseTimestamp startedAt) (databaseTimestamp now)) (h \<circ> Db)
       (\<lambda>created. case created of
          None \<Rightarrow> openIncidentID monitorID ruleID h (\<lambda>_. k ())
        | Some incidentID \<Rightarrow>
            insertEvent org env incidentID ''opened'' ''opened'' None sourceJobID ''failure threshold reached'' now h
              (\<lambda>eventID. EnqueueIncidentEventTx ts eventID ''opened'' h (\<lambda>_. k ())))"

definition resolveIncident ::
  "time \<Rightarrow> uuid \<Rightarrow> string \<Rightarrow> string \<Rightarrow> uuid option \<Rightarrow> string \<Rightarrow> time \<Rightarrow> ('x, 'r, unit) incident_fragment" where
  "resolveIncident ts incidentID sourceJobID kind actor reason now h k =
     query (ResolveOpenIncident (databaseTimestamp now) (incident_optionalString actor) kind reason incidentID) (h \<circ> Db)
       (\<lambda>rowsAffected. if rowsAffected = 0 then k ()
        else query (reading (GetIncidentTenant incidentID)) (h \<circ> Db) (\<lambda>tenant. case tenant of
          None \<Rightarrow> h (Db NoRows)
        | Some (org, env) \<Rightarrow>
            insertEvent org env incidentID ''resolved'' kind actor sourceJobID reason now h
              (\<lambda>eventID. EnqueueIncidentEventTx ts eventID ''resolved'' h (\<lambda>_. k ()))))"

text \<open>The start of a new incident: the oldest of the newest evaluations up to the failure
  threshold, or now.\<close>

definition incident_start :: "time \<Rightarrow> time list \<Rightarrow> time" where
  "incident_start now slots = (if slots \<noteq> [] then last slots else now)"

definition ApplyEvaluationTx ::
  "time \<Rightarrow> uuid \<Rightarrow> string \<Rightarrow> bool \<Rightarrow> time \<Rightarrow> ('x, 'r, unit) incident_fragment" where
  "ApplyEvaluationTx ts monitorID sourceJobID corrected now h k =
     query (EnsureDefaultAlertRule monitorID) (h \<circ> Db) (\<lambda>_.
     query (reading (GetEnabledMonitorAlertRule monitorID)) (h \<circ> Db) (\<lambda>found. case found of
       None \<Rightarrow> k ()
     | Some rule \<Rightarrow> openIncidentID monitorID (RuleID rule) h (\<lambda>openID.
         if ObservedState rule = ''down'' then
           (if openID \<noteq> None then k ()
            else query (reading (ListRecentIncidentEvaluationTimes monitorID (FailureThreshold rule))) (h \<circ> Db)
              (\<lambda>slots. openIncident ts (RuleOrganizationID rule) (RuleEnvironmentID rule) monitorID (RuleID rule)
                 sourceJobID (incident_start now slots) now h k))
         else (case openID of
             None \<Rightarrow> k ()
           | Some incidentID \<Rightarrow>
               if corrected then
                 resolveIncident ts incidentID sourceJobID ''late_result_correction'' None
                   ''late result correction invalidated the open threshold'' now h k
               else if ObservedState rule = ''healthy'' then
                 resolveIncident ts incidentID sourceJobID ''automatic_recovery'' None
                   ''recovery threshold reached'' now h k
               else k ()))))"

subsection \<open>The service\<close>










subsection \<open>The invariant of incidents and their timeline\<close>

text \<open>What the check constraints say of one incident.\<close>

definition incident_ok :: "incident_row \<Rightarrow> bool" where
  "incident_ok i \<longleftrightarrow>
     (in_status i = ''open'' \<or> in_status i = ''resolved'') \<and>
     (in_acknowledged_at i = None \<longleftrightarrow> in_acknowledged_by_user_id i = None) \<and>
     (in_status i = ''open'' \<longrightarrow>
        in_resolved_at i = None \<and> in_resolved_by_user_id i = None \<and> in_resolution_kind i = None \<and>
        in_resolution_reason i = None) \<and>
     (in_status i = ''resolved'' \<longrightarrow> in_resolved_at i \<noteq> None \<and> in_resolution_kind i \<noteq> None)"

definition rule_of :: "incident_row \<Rightarrow> uuid \<times> uuid" where
  "rule_of i = (in_monitor_id i, in_alert_rule_id i)"

definition is_open :: "incident_row \<Rightarrow> bool" where
  "is_open i \<longleftrightarrow> in_status i = ''open''"

definition incidents_ok :: "database \<Rightarrow> bool" where
  "incidents_ok db \<longleftrightarrow>
     distinct (map in_id (incidents db)) \<and> (\<forall>i\<in>set (incidents db). was_drawn db (in_id i)) \<and>
     (\<forall>i\<in>set (incidents db). incident_ok i) \<and>
     distinct (map rule_of (filter is_open (incidents db)))"

text \<open>The timeline of an incident tells its state: it was opened, and it was acknowledged or resolved
  if and only if the timeline says so.\<close>

definition timeline_keys :: "incident_row \<Rightarrow> string set" where
  "timeline_keys i =
     {''opened''} \<union> (if in_acknowledged_at i \<noteq> None then {''acknowledged''} else {}) \<union>
     (if is_open i then {} else {''resolved''})"

definition event_key :: "incident_event_row \<Rightarrow> uuid \<times> string" where
  "event_key e = (ie_incident_id e, ie_event_key e)"

definition timeline_ok :: "database \<Rightarrow> bool" where
  "timeline_ok db \<longleftrightarrow>
     distinct (map ie_id (incident_events db)) \<and> (\<forall>e\<in>set (incident_events db). was_drawn db (ie_id e)) \<and>
     distinct (map event_key (incident_events db)) \<and>
     event_key ` set (incident_events db) = (\<Union>i\<in>set (incidents db). Pair (in_id i) ` timeline_keys i)"

definition incident_inv :: "database \<Rightarrow> bool" where
  "incident_inv db \<longleftrightarrow> enqueue_inv db \<and> incidents_ok db \<and> timeline_ok db"

definition open_rules :: "database \<Rightarrow> (uuid \<times> uuid) set" where
  "open_rules db = rule_of ` set (filter is_open (incidents db))"

lemma open_for_iff: "open_for m r i \<longleftrightarrow> is_open i \<and> rule_of i = (m, r)"
  by (auto simp: open_for_def is_open_def rule_of_def)

lemma LockOpenIncident_None: "LockOpenIncident m r db = None \<longleftrightarrow> (m, r) \<notin> open_rules db"
  by (auto simp: LockOpenIncident_def select_one_None open_for_iff open_rules_def image_iff)

lemma LockOpenIncident_Some:
  assumes "LockOpenIncident m r db = Some x"
  obtains i where "i \<in> set (incidents db)" "is_open i" "rule_of i = (m, r)" "in_id i = x"
  using assms select_one_Some[of "open_for m r" "incidents db"]
  by (auto simp: LockOpenIncident_def open_for_iff)

subsection \<open>What the fragments write\<close>

definition with_event :: "event_params \<Rightarrow> database \<Rightarrow> database" where
  "with_event p db =
     (drawn_uuid db)\<lparr>incident_events := incident_events db @ [event_row_of (fresh_uuid db) p],
        api_refresh_events := api_refresh_events db @
          [\<lparr>re_organization_id = ep_OrganizationID p, re_environment_id = ep_EnvironmentID p,
            re_event_type = ''incident.changed'', re_resource_type = ''incident'', re_resource_id = ep_IncidentID p\<rparr>]\<rparr>"

definition with_notifications :: "time \<Rightarrow> string \<Rightarrow> uuid \<Rightarrow> database \<Rightarrow> database" where
  "with_notifications ts transition eventID db =
     snd (enqueue_all transition ts (notification_recipients eventID db) 0 db)"

lemma insertEvent_yields:
  assumes "(incidentID, eventKey) \<notin> event_key ` set (incident_events db)"
    and "p = \<lparr>ep_OrganizationID = org, ep_EnvironmentID = env, ep_IncidentID = incidentID, ep_EventKey = eventKey,
         ep_EventType = eventType, ep_ActorUserID = incident_optionalString actor, ep_SourceJobID = TrimSpace job,
         ep_SafeReason = reason, ep_OccurredAt = databaseTimestamp now\<rparr>"
  shows "yields (insertEvent org env incidentID eventKey eventType actor job reason now) db
     (\<lambda>i d. i = fresh_uuid db \<and> d = with_event p db)"
proof -
  have "select_one (\<lambda>e. ie_incident_id e = incidentID \<and> ie_event_key e = eventKey) (incident_events db) = None"
    using assms(1) by (auto simp: select_one_None event_key_def image_iff)
  then have "UpsertIncidentEvent p db = Inr (fresh_uuid db,
      (drawn_uuid db)\<lparr>incident_events := incident_events db @ [event_row_of (fresh_uuid db) p]\<rparr>)"
    by (simp add: UpsertIncidentEvent_def assms(2))
  note upsert = this[unfolded assms(2)]
  show ?thesis
    unfolding insertEvent_def InsertIncidentRefreshEvent_def
    by (rule yields_query, rule upsert, intro yields_writing[where q = "\<lambda>_ h k. k (fresh_uuid db)"] yields_done)
      (simp add: with_event_def assms(2) drawn_uuid_def)
qed

lemma EnqueueIncidentEventTx_yields:
  assumes "transition = ''opened'' \<or> transition = ''resolved''"
  shows "yields (EnqueueIncidentEventTx ts eventID transition) db
     (\<lambda>_ d. d = with_notifications ts transition eventID db)"
  unfolding EnqueueIncidentEventTx_def
proof -
  have "yields (\<lambda>h k. query (EnqueueIncidentNotifications ts transition eventID) (h \<circ> Db) k) db
     (\<lambda>_ d. d = with_notifications ts transition eventID db)"
    by (rule ends_stmt) (auto simp: EnqueueIncidentNotifications_def with_notifications_def)
  then show "yields (\<lambda>h k. if transition \<noteq> ''opened'' \<and> transition \<noteq> ''resolved'' then h ErrInvalidConfiguration
      else query (EnqueueIncidentNotifications ts transition eventID) (h \<circ> Db) k) db
     (\<lambda>_ d. d = with_notifications ts transition eventID db)"
    using assms by auto
qed

text \<open>An event with its notifications, as both transitions write them.\<close>

lemma event_and_notifications_yields:
  assumes "(incidentID, eventKey) \<notin> event_key ` set (incident_events db)"
    and "transition = ''opened'' \<or> transition = ''resolved''"
    and "p = \<lparr>ep_OrganizationID = org, ep_EnvironmentID = env, ep_IncidentID = incidentID, ep_EventKey = eventKey,
         ep_EventType = eventType, ep_ActorUserID = incident_optionalString actor, ep_SourceJobID = TrimSpace job,
         ep_SafeReason = reason, ep_OccurredAt = databaseTimestamp now\<rparr>"
  shows "yields (\<lambda>h k. insertEvent org env incidentID eventKey eventType actor job reason now h
       (\<lambda>eventID. EnqueueIncidentEventTx ts eventID transition h (\<lambda>_. k ()))) db
     (\<lambda>_ d. d = with_notifications ts transition (fresh_uuid db) (with_event p db))"
proof (rule yields_bind[OF insertEvent_yields[OF assms(1,3)]], elim conjE, hypsubst)
  fix d :: database
  show "yields (\<lambda>h k. EnqueueIncidentEventTx ts (fresh_uuid db) transition h (\<lambda>_. k ())) (with_event p db)
      (\<lambda>_ d. d = with_notifications ts transition (fresh_uuid db) (with_event p db))"
    by (rule yields_bind[OF EnqueueIncidentEventTx_yields[OF assms(2)]]) (rule yields_done)
qed

lemma with_notifications_frame:
  obtains k rows where
    "with_notifications ts transition e db = db\<lparr>db_drawn := db_drawn db + k, notification_outbox := rows\<rparr>"
  using enqueue_all_frame unfolding with_notifications_def by blast

lemma with_notifications_sel [simp]:
  "incidents (with_notifications ts transition e db) = incidents db"
  "incident_events (with_notifications ts transition e db) = incident_events db"
  "db_rand (with_notifications ts transition e db) = db_rand db"
  "org_members (with_notifications ts transition e db) = org_members db"
  by (rule with_notifications_frame[of ts transition e db], simp)+

lemma was_drawn_notifications [simp]:
  "was_drawn db x \<Longrightarrow> was_drawn (with_notifications ts transition e db) x"
  by (rule with_notifications_frame[of ts transition e db]) (auto intro: was_drawn_mono)

lemma with_notifications_inv:
  assumes "enqueue_inv db" "incidents_ok db" "timeline_ok db"
  shows "incident_inv (with_notifications ts transition e db)"
proof -
  have "enqueue_inv (with_notifications ts transition e db)"
    using enqueue_all_result[OF prod.collapse[symmetric] assms(1)] by (simp add: with_notifications_def)
  with assms(2,3) show ?thesis
    by (simp add: incident_inv_def incidents_ok_def timeline_ok_def)
qed

lemma with_event_sel [simp]:
  "incidents (with_event p db) = incidents db" "db_rand (with_event p db) = db_rand db"
  "org_members (with_event p db) = org_members db" "notification_outbox (with_event p db) = notification_outbox db"
  "notification_attempts (with_event p db) = notification_attempts db"
  "db_drawn (with_event p db) = Suc (db_drawn db)"
  "incident_events (with_event p db) = incident_events db @ [event_row_of (fresh_uuid db) p]"
  by (simp_all add: with_event_def drawn_uuid_def)

lemma was_drawn_event [simp]: "was_drawn (with_event p db) x \<longleftrightarrow> was_drawn db x \<or> x = fresh_uuid db"
  by (simp add: with_event_def)

lemma event_row_of_sel [simp]:
  "ie_id (event_row_of i p) = i" "event_key (event_row_of i p) = (ep_IncidentID p, ep_EventKey p)"
  by (simp_all add: event_row_of_def event_key_def)

text \<open>Writing the event that the new state of the incidents calls for, with its notifications,
  restores the invariant; \<open>before\<close> is the database before the incident was written.\<close>

lemma event_restores_inv:
  assumes inv: "incident_inv before"
    and same: "db_rand db = db_rand before" "db_drawn before \<le> db_drawn db" "incident_events db = incident_events before"
      "notification_outbox db = notification_outbox before" "notification_attempts db = notification_attempts before"
    and rows: "incidents_ok db"
    and new: "(ep_IncidentID p, ep_EventKey p) \<notin> event_key ` set (incident_events before)"
    and keys: "(\<Union>i\<in>set (incidents db). Pair (in_id i) ` timeline_keys i) =
      insert (ep_IncidentID p, ep_EventKey p) (\<Union>i\<in>set (incidents before). Pair (in_id i) ` timeline_keys i)"
  shows "enqueue_inv (with_event p db) \<and> incidents_ok (with_event p db) \<and> timeline_ok (with_event p db)"
proof -
  have enq: "enqueue_inv before" and tl: "timeline_ok before"
    using inv by (simp_all add: incident_inv_def)
  have "enqueue_inv (with_event p db)"
    by (rule enqueue_inv_frame[OF enq]) (use same in simp_all)
  moreover have "incidents_ok (with_event p db)"
    using rows by (auto simp: incidents_ok_def)
  moreover have "timeline_ok (with_event p db)"
  proof -
    have drawn: "was_drawn db (ie_id e)" if "e \<in> set (incident_events db)" for e
      using tl that same by (auto simp: timeline_ok_def intro: was_drawn_mono)
    have "inj (db_rand db)"
      using enq same(1) by (simp add: enqueue_inv_def)
    then have "fresh_uuid db \<notin> ie_id ` set (incident_events db)"
      using drawn fresh_not_drawn by (metis imageE)
    then show ?thesis
      using tl drawn new keys unfolding timeline_ok_def by (simp add: same(3))
  qed
  ultimately show ?thesis by blast
qed

lemma drawn_incident:
  assumes "incident_inv db"
  shows "fresh_uuid db \<notin> in_id ` set (incidents db)"
  using assms fresh_not_drawn[of db] by (auto simp: incident_inv_def enqueue_inv_def incidents_ok_def)

lemma event_of_incident:
  assumes "incident_inv db" "e \<in> set (incident_events db)"
  obtains i where "i \<in> set (incidents db)" "in_id i = ie_incident_id e" "ie_event_key e \<in> timeline_keys i"
proof -
  have "event_key e \<in> (\<Union>i\<in>set (incidents db). Pair (in_id i) ` timeline_keys i)"
    using assms imageI[of e "set (incident_events db)" event_key] by (simp only: incident_inv_def timeline_ok_def)
  then show thesis
    using that by (auto simp: event_key_def)
qed

text \<open>What incidents do not write: everything but the incidents, their events and notifications, the
  refresh events and the alert rules.\<close>

definition effective_thresholds :: "uuid \<Rightarrow> database \<Rightarrow> int \<times> int" where
  "effective_thresholds m db =
     (case select_one (\<lambda>r. ar_monitor_id r = m \<and> ar_rule_key r = ''consecutive_failures'' \<and> ar_enabled r) (alert_rules db) of
        None \<Rightarrow> (3, 2)
      | Some r \<Rightarrow> (ar_failure_threshold r, ar_recovery_threshold r))"

definition incident_frame :: "database \<Rightarrow> database \<Rightarrow> bool" where
  "incident_frame db d \<longleftrightarrow>
     db_drawn db \<le> db_drawn d \<and> db_rand d = db_rand db \<and> users d = users db \<and>
     org_members d = org_members db \<and> monitors d = monitors db \<and> worker_pools d = worker_pools db \<and>
     worker_pool_credentials d = worker_pool_credentials db \<and> worker_pool_audit_events d = worker_pool_audit_events db \<and>
     check_jobs d = check_jobs db \<and> check_dispatch_outbox d = check_dispatch_outbox db \<and>
     health_checks d = health_checks db \<and> check_result_conflicts d = check_result_conflicts db \<and>
     monitoring_quarantine d = monitoring_quarantine db \<and> monitoring_coverage_gaps d = monitoring_coverage_gaps db \<and>
     monitoring_operational_events d = monitoring_operational_events db \<and>
     monitor_schedule_periods d = monitor_schedule_periods db \<and>
     monitor_reliability_states d = monitor_reliability_states db \<and>
     monitor_result_evaluations d = monitor_result_evaluations db \<and>
     monitor_evaluation_positions d = monitor_evaluation_positions db \<and>
     monitor_state_correction_events d = monitor_state_correction_events db \<and>
     monitor_rollups_hourly d = monitor_rollups_hourly db \<and> monitor_rollups_daily d = monitor_rollups_daily db \<and>
     monitor_rollup_invalidations d = monitor_rollup_invalidations db \<and>
     monitoring_rollup_checkpoint d = monitoring_rollup_checkpoint db \<and> notification_attempts d = notification_attempts db \<and>
     (\<forall>m. effective_thresholds m d = effective_thresholds m db)"

lemma incident_frame_refl [simp]: "incident_frame db db"
  by (simp add: incident_frame_def)

lemma incident_frame_trans: "incident_frame a b \<Longrightarrow> incident_frame b c \<Longrightarrow> incident_frame a c"
  by (simp add: incident_frame_def)

lemma incident_frame_event: "incident_frame db (with_notifications ts transition e (with_event p db))"
  by (rule with_notifications_frame[of ts transition e "with_event p db"])
    (simp add: incident_frame_def with_event_def effective_thresholds_def)

text \<open>A transition was written between two databases when the timeline grew by one event and the
  outbox by the notifications of exactly its recipients.\<close>

definition transition_written :: "incident_event_row \<Rightarrow> database \<Rightarrow> database \<Rightarrow> bool" where
  "transition_written e db db' \<longleftrightarrow>
     incident_events db' = incident_events db @ [e] \<and>
     recipient_key ` set (notification_outbox db') =
       recipient_key ` set (notification_outbox db) \<union> target_key ` set (notification_recipients (ie_id e) db') \<and>
     incident_frame db db'"

lemma notification_recipients_cong:
  "incident_events db' = incident_events db \<Longrightarrow> users db' = users db \<Longrightarrow> org_members db' = org_members db
   \<Longrightarrow> notification_recipients e db' = notification_recipients e db"
  by (simp add: notification_recipients_def)

lemma with_notifications_recipients:
  "notification_recipients e (with_notifications ts transition e' db) = notification_recipients e db"
  by (rule with_notifications_frame[of ts transition e' db]) (simp add: notification_recipients_def)

lemma with_notifications_keys:
  assumes "enqueue_inv db"
  shows "recipient_key ` set (notification_outbox (with_notifications ts transition e db)) =
    recipient_key ` set (notification_outbox db) \<union> target_key ` set (notification_recipients e db)"
proof -
  obtain new where new: "notification_outbox (with_notifications ts transition e db) = notification_outbox db @ new"
    "recipient_key ` set new = target_key ` set (notification_recipients e db) - recipient_key ` set (notification_outbox db)"
    using enqueue_all_result[OF prod.collapse[symmetric] assms] unfolding with_notifications_def by blast
  show ?thesis
    unfolding new(1) set_append image_Un new(2) by (rule Un_Diff_cancel)
qed

lemma transition_after_event:
  assumes "enqueue_inv (with_event p db)" "incidents_ok (with_event p db)" "timeline_ok (with_event p db)"
    and "incident_events db = incident_events before" "notification_outbox db = notification_outbox before" "incident_frame before db"
  shows "incident_inv (with_notifications ts transition (fresh_uuid db) (with_event p db))"
    and "transition_written (event_row_of (fresh_uuid db) p) before
      (with_notifications ts transition (fresh_uuid db) (with_event p db))"
  using with_notifications_inv[OF assms(1-3)] with_notifications_keys[OF assms(1), of ts transition "fresh_uuid db"] assms(4,5)
    incident_frame_trans[OF assms(6) incident_frame_event]
  by (simp_all add: transition_written_def with_notifications_recipients)

definition created :: "uuid \<Rightarrow> uuid \<Rightarrow> uuid \<Rightarrow> uuid \<Rightarrow> time \<Rightarrow> time \<Rightarrow> database \<Rightarrow> database" where
  "created org env m r startedAt openedAt db =
     (drawn_uuid db)\<lparr>incidents := incidents db @ [open_incident_row (fresh_uuid db) org env m r startedAt openedAt]\<rparr>"

lemma open_incident_row_sel [simp]:
  "in_id (open_incident_row i org env m r s t) = i" "rule_of (open_incident_row i org env m r s t) = (m, r)"
  "is_open (open_incident_row i org env m r s t)" "incident_ok (open_incident_row i org env m r s t)"
  "timeline_keys (open_incident_row i org env m r s t) = {''opened''}"
  "in_started_at (open_incident_row i org env m r s t) = s"
  by (simp_all add: open_incident_row_def rule_of_def is_open_def incident_ok_def timeline_keys_def)

lemma created_ok:
  assumes "incident_inv db" "(m, r) \<notin> open_rules db"
  shows "incidents_ok (created org env m r s t db)"
    and "open_rules (created org env m r s t db) = insert (m, r) (open_rules db)"
    and "(\<Union>i\<in>set (incidents (created org env m r s t db)). Pair (in_id i) ` timeline_keys i) =
      insert (fresh_uuid db, ''opened'') (\<Union>i\<in>set (incidents db). Pair (in_id i) ` timeline_keys i)"
proof -
  have ok: "incidents_ok db" using assms(1) by (simp add: incident_inv_def)
  have fresh: "fresh_uuid db \<notin> in_id ` set (incidents db)" by (rule drawn_incident[OF assms(1)])
  show "incidents_ok (created org env m r s t db)"
    using ok fresh assms(2) by (auto simp: incidents_ok_def created_def open_rules_def)
  show "open_rules (created org env m r s t db) = insert (m, r) (open_rules db)"
    by (auto simp: created_def open_rules_def)
  show "(\<Union>i\<in>set (incidents (created org env m r s t db)). Pair (in_id i) ` timeline_keys i) =
      insert (fresh_uuid db, ''opened'') (\<Union>i\<in>set (incidents db). Pair (in_id i) ` timeline_keys i)"
    by (simp add: created_def)
qed

lemma no_event_of_fresh:
  assumes "incident_inv db"
  shows "(fresh_uuid db, key) \<notin> event_key ` set (incident_events db)"
proof
  assume "(fresh_uuid db, key) \<in> event_key ` set (incident_events db)"
  then obtain e where "e \<in> set (incident_events db)" "ie_incident_id e = fresh_uuid db"
    by (auto simp: event_key_def)
  then show False
    using drawn_incident[OF assms] by (elim event_of_incident[OF assms]) force
qed

definition opened_event :: "uuid \<Rightarrow> uuid \<Rightarrow> string \<Rightarrow> time \<Rightarrow> uuid \<Rightarrow> event_params" where
  "opened_event org env job now incidentID =
     \<lparr>ep_OrganizationID = org, ep_EnvironmentID = env, ep_IncidentID = incidentID, ep_EventKey = ''opened'',
      ep_EventType = ''opened'', ep_ActorUserID = incident_optionalString None, ep_SourceJobID = TrimSpace job,
      ep_SafeReason = ''failure threshold reached'', ep_OccurredAt = databaseTimestamp now\<rparr>"

lemma openIncident_yields:
  assumes inv: "incident_inv db" and closed: "(m, r) \<notin> open_rules db"
  shows "yields (openIncident ts org env m r job startedAt now) db
    (\<lambda>_ d. incident_inv d \<and> open_rules d = insert (m, r) (open_rules db) \<and>
       (\<exists>i e. incidents d = incidents db @ [i] \<and> rule_of i = (m, r) \<and> in_started_at i = databaseTimestamp startedAt \<and>
          transition_written e db d \<and> event_key e = (in_id i, ''opened'')))"
proof -
  let ?db1 = "created org env m r (databaseTimestamp startedAt) (databaseTimestamp now) db"
  let ?p = "opened_event org env job now (fresh_uuid db)"
  let ?d = "with_notifications ts ''opened'' (fresh_uuid ?db1) (with_event ?p ?db1)"
  have create: "CreateOpenIncident org env m r (databaseTimestamp startedAt) (databaseTimestamp now) db =
      Inr (Some (fresh_uuid db), ?db1)"
    using closed by (auto simp: CreateOpenIncident_def created_def open_for_iff open_rules_def image_iff)
  have same: "db_rand ?db1 = db_rand db" "db_drawn db \<le> db_drawn ?db1" "incident_events ?db1 = incident_events db"
    "notification_outbox ?db1 = notification_outbox db" "notification_attempts ?db1 = notification_attempts db"
    by (simp_all add: created_def)
  have frame: "incident_frame db ?db1"
    by (simp add: incident_frame_def created_def effective_thresholds_def)
  have p: "ep_IncidentID ?p = fresh_uuid db" "ep_EventKey ?p = ''opened''"
    by (simp_all add: opened_event_def)
  have ok: "enqueue_inv (with_event ?p ?db1) \<and> incidents_ok (with_event ?p ?db1) \<and> timeline_ok (with_event ?p ?db1)"
    by (rule event_restores_inv[OF inv same created_ok(1)[OF inv closed]])
      (simp_all only: p no_event_of_fresh[OF inv] created_ok(3)[OF inv closed] not_False_eq_True)
  have result: "incident_inv ?d" "transition_written (event_row_of (fresh_uuid ?db1) ?p) db ?d"
    using ok by (auto intro: transition_after_event same frame)
  have rest: "open_rules ?d = insert (m, r) (open_rules db)"
    "incidents ?d = incidents db @ [open_incident_row (fresh_uuid db) org env m r (databaseTimestamp startedAt) (databaseTimestamp now)]"
    using created_ok(2)[OF inv closed] by (simp_all add: open_rules_def created_def)
  have new: "(fresh_uuid db, ''opened'') \<notin> event_key ` set (incident_events ?db1)"
    unfolding same(3) by (rule no_event_of_fresh[OF inv])
  show ?thesis
    unfolding openIncident_def
  proof (rule yields_query, rule create, unfold option.case,
      rule yields_weaken[OF event_and_notifications_yields[OF new _ opened_event_def]])
    fix a :: unit and d
    assume "d = with_notifications ts ''opened'' (fresh_uuid ?db1) (with_event ?p ?db1)"
    then show "incident_inv d \<and> open_rules d = insert (m, r) (open_rules db) \<and>
       (\<exists>i e. incidents d = incidents db @ [i] \<and> rule_of i = (m, r) \<and> in_started_at i = databaseTimestamp startedAt \<and>
          transition_written e db d \<and> event_key e = (in_id i, ''opened''))"
      using result rest p by (auto intro!: exI)
  qed simp
qed

subsection \<open>Resolving\<close>

definition resolved_db :: "time \<Rightarrow> string \<Rightarrow> string \<Rightarrow> string \<Rightarrow> uuid \<Rightarrow> database \<Rightarrow> database" where
  "resolved_db at actor kind reason x db =
     db\<lparr>incidents := update_where (\<lambda>i. in_id i = x \<and> in_status i = ''open'')
               (resolve_row at actor kind reason) (incidents db)\<rparr>"

lemma resolve_row_sel [simp]:
  "in_id (resolve_row at actor kind reason i) = in_id i" "rule_of (resolve_row at actor kind reason i) = rule_of i"
  "\<not> is_open (resolve_row at actor kind reason i)"
  "in_organization_id (resolve_row at actor kind reason i) = in_organization_id i"
  "in_environment_id (resolve_row at actor kind reason i) = in_environment_id i"
  by (simp_all add: resolve_row_def rule_of_def is_open_def)

lemma resolve_row_ok: "incident_ok i \<Longrightarrow> incident_ok (resolve_row at actor kind reason i)"
  by (simp add: incident_ok_def resolve_row_def)

lemma timeline_keys_resolve:
  "is_open i \<Longrightarrow> timeline_keys (resolve_row at actor kind reason i) = insert ''resolved'' (timeline_keys i)"
  by (auto simp: timeline_keys_def is_open_def resolve_row_def)

lemma resolved_rows:
  assumes inv: "incident_inv db" and i: "i \<in> set (incidents db)" "is_open i"
  shows "set (incidents (resolved_db at actor kind reason (in_id i) db)) =
    insert (resolve_row at actor kind reason i) (set (incidents db) - {i})"
  unfolding resolved_db_def
  using set_update_where_single[of in_id "incidents db" i "\<lambda>j. in_id j = in_id i \<and> in_status j = ''open''"] inv i
  by (simp add: incident_inv_def incidents_ok_def is_open_def)

lemma resolved_ok:
  fixes at :: time and actor kind reason :: string
  assumes inv: "incident_inv db" and i: "i \<in> set (incidents db)" "is_open i"
  defines "db' \<equiv> resolved_db at actor kind reason (in_id i) db"
  shows "incidents_ok db'" and "open_rules db' = open_rules db - {rule_of i}"
    and "(\<Union>j\<in>set (incidents db'). Pair (in_id j) ` timeline_keys j) =
      insert (in_id i, ''resolved'') (\<Union>j\<in>set (incidents db). Pair (in_id j) ` timeline_keys j)"
proof -
  let ?p = "\<lambda>j. in_id j = in_id i \<and> in_status j = ''open''"
  have ok: "incidents_ok db" using inv by (simp add: incident_inv_def)
  have ids: "map in_id (incidents db') = map in_id (incidents db)"
    by (simp add: db'_def resolved_db_def update_where_key)
  have still: "filter is_open (incidents db') = filter (\<lambda>j. is_open j \<and> \<not> ?p j) (incidents db)"
    unfolding db'_def resolved_db_def by (simp add: filter_update_where)
  have gone: "filter (\<lambda>j. is_open j \<and> \<not> ?p j) (incidents db) = filter (\<lambda>j. \<not> ?p j) (filter is_open (incidents db))"
    by (simp add: conj_commute)
  have set': "set (incidents db') = insert (resolve_row at actor kind reason i) (set (incidents db) - {i})"
    unfolding db'_def by (rule resolved_rows[OF inv i])
  have "distinct (map rule_of (filter is_open (incidents db')))"
    unfolding still gone using ok distinct_map_filter[of rule_of "filter is_open (incidents db)"] by (simp add: incidents_ok_def del: filter_filter)
  moreover have "was_drawn db' = was_drawn db"
    by (simp add: db'_def resolved_db_def)
  ultimately show "incidents_ok db'"
    using ok i unfolding incidents_ok_def ids set' by (auto simp: resolve_row_ok)
  have uniq: "j = i" if "j \<in> set (incidents db)" "in_id j = in_id i" for j
    using ok that i by (auto simp: incidents_ok_def distinct_map dest: inj_onD)
  have "set (filter is_open (incidents db')) = set (filter is_open (incidents db)) - {i}"
    unfolding still set_filter using uniq i by (blast intro: i(2)[unfolded is_open_def] dest: iffD1[OF is_open_def])
  moreover have "inj_on rule_of (set (filter is_open (incidents db)))"
    using ok by (simp add: incidents_ok_def distinct_map)
  ultimately show "open_rules db' = open_rules db - {rule_of i}"
    using i inj_on_image_set_diff[of rule_of "set (filter is_open (incidents db))" "set (filter is_open (incidents db))" "{i}"]
    by (simp add: open_rules_def)
  show "(\<Union>j\<in>set (incidents db'). Pair (in_id j) ` timeline_keys j) =
      insert (in_id i, ''resolved'') (\<Union>j\<in>set (incidents db). Pair (in_id j) ` timeline_keys j)"
    unfolding set' using i by (auto simp: timeline_keys_resolve)
qed

lemma no_resolved_event:
  assumes inv: "incident_inv db" and i: "i \<in> set (incidents db)" "is_open i"
  shows "(in_id i, ''resolved'') \<notin> event_key ` set (incident_events db)"
proof
  assume "(in_id i, ''resolved'') \<in> event_key ` set (incident_events db)"
  then obtain j where j: "j \<in> set (incidents db)" "in_id j = in_id i" "''resolved'' \<in> timeline_keys j"
    using inv by (auto simp: incident_inv_def timeline_ok_def)
  then have "j = i"
    using inv i by (auto simp: incident_inv_def incidents_ok_def distinct_map dest: inj_onD)
  with j i show False
    by (auto simp: timeline_keys_def split: if_splits)
qed

lemma resolveIncident_yields:
  assumes inv: "incident_inv db" and i: "i \<in> set (incidents db)" "is_open i" and x: "in_id i = x"
  shows "yields (resolveIncident ts x job kind actor reason now) db
    (\<lambda>_ d. incident_inv d \<and> open_rules d = open_rules db - {rule_of i} \<and> org_members d = org_members db \<and>
       incidents d = incidents (resolved_db (databaseTimestamp now) (incident_optionalString actor) kind reason x db) \<and>
       (\<exists>e. transition_written e db d \<and> event_key e = (x, ''resolved'')))"
proof -
  let ?db1 = "resolved_db (databaseTimestamp now) (incident_optionalString actor) kind reason x db"
  let ?n = "count_where (\<lambda>i. in_id i = x \<and> in_status i = ''open'') (incidents db)"
  have stmt: "ResolveOpenIncident (databaseTimestamp now) (incident_optionalString actor) kind reason x db = Inr (?n, ?db1)"
    by (simp add: ResolveOpenIncident_def resolved_db_def)
  have n: "?n \<noteq> 0"
    using i x by (auto simp: count_where_0_iff is_open_def)
  have same: "db_rand ?db1 = db_rand db" "db_drawn db \<le> db_drawn ?db1" "incident_events ?db1 = incident_events db"
    "notification_outbox ?db1 = notification_outbox db" "notification_attempts ?db1 = notification_attempts db"
    by (simp_all add: resolved_db_def)
  have frame: "incident_frame db ?db1"
    by (simp add: incident_frame_def resolved_db_def effective_thresholds_def)
  note ok1 = resolved_ok[OF inv i, of "databaseTimestamp now" "incident_optionalString actor" kind reason, unfolded x]
  have "\<exists>org env. GetIncidentTenant x ?db1 = Some (org, env)"
    using i x resolved_rows[OF inv i, of "databaseTimestamp now" "incident_optionalString actor" kind reason]
      select_one_None[of "\<lambda>i. in_id i = x" "incidents ?db1"]
    by (cases "select_one (\<lambda>i. in_id i = x) (incidents ?db1)") (auto simp: GetIncidentTenant_def)
  then obtain org env where tenant: "GetIncidentTenant x ?db1 = Some (org, env)" by blast
  define p where "p = \<lparr>ep_OrganizationID = org, ep_EnvironmentID = env, ep_IncidentID = x, ep_EventKey = ''resolved'',
      ep_EventType = kind, ep_ActorUserID = incident_optionalString actor, ep_SourceJobID = TrimSpace job,
      ep_SafeReason = reason, ep_OccurredAt = databaseTimestamp now\<rparr>"
  let ?d = "with_notifications ts ''resolved'' (fresh_uuid ?db1) (with_event p ?db1)"
  have p: "ep_IncidentID p = x" "ep_EventKey p = ''resolved''" by (simp_all add: p_def)
  have new: "(x, ''resolved'') \<notin> event_key ` set (incident_events db)"
    by (rule no_resolved_event[OF inv i, unfolded x])
  have ok: "enqueue_inv (with_event p ?db1) \<and> incidents_ok (with_event p ?db1) \<and> timeline_ok (with_event p ?db1)"
    by (rule event_restores_inv[OF inv same ok1(1)]) (simp_all only: p new ok1(3) not_False_eq_True)
  have result: "incident_inv ?d" "transition_written (event_row_of (fresh_uuid ?db1) p) db ?d"
    using ok by (auto intro: transition_after_event same frame)
  have rest: "open_rules ?d = open_rules db - {rule_of i}"
    using ok1(2) by (simp add: open_rules_def)
  show ?thesis
    unfolding resolveIncident_def
  proof (rule yields_query, rule stmt, simp only: n if_False, rule yields_reading, simp only: tenant option.case prod.case,
      rule yields_weaken[OF event_and_notifications_yields[OF new[folded same(3)] _ p_def]])
    fix a :: unit and d
    assume d: "d = ?d"
    show "incident_inv d \<and> open_rules d = open_rules db - {rule_of i} \<and> org_members d = org_members db \<and>
       incidents d = incidents ?db1 \<and>
       (\<exists>e. transition_written e db d \<and> event_key e = (x, ''resolved''))"
      unfolding d by (intro conjI exI[of _ "event_row_of (fresh_uuid ?db1) p"] result rest)
        (simp_all add: p resolved_db_def)
  qed simp
qed

subsection \<open>Applying an evaluation\<close>

definition ensured :: "uuid \<Rightarrow> database \<Rightarrow> database" where
  "ensured monitorID db =
     (case select_one (\<lambda>m. mon_id m = monitorID) (monitors db) of
       None \<Rightarrow> db
     | Some m \<Rightarrow>
         if exists_where (\<lambda>r. ar_monitor_id r = monitorID \<and> ar_rule_key r = ''consecutive_failures'') (alert_rules db)
         then db
         else (drawn_uuid db)\<lparr>alert_rules := alert_rules db @ [default_rule (fresh_uuid db) m]\<rparr>)"

lemma ensured_sel [simp]:
  "incidents (ensured m db) = incidents db" "incident_events (ensured m db) = incident_events db"
  "notification_outbox (ensured m db) = notification_outbox db"
  "open_rules (ensured m db) = open_rules db"
  by (simp_all add: ensured_def open_rules_def split: option.split)

lemma ensured_inv:
  assumes "incident_inv db"
  shows "incident_inv (ensured m db)"
proof -
  have "enqueue_inv (ensured m db)"
    by (rule enqueue_inv_frame[of db]) (use assms in \<open>auto simp: incident_inv_def ensured_def split: option.split\<close>)
  moreover have "was_drawn (ensured m db) x" if "was_drawn db x" for x
    using that by (auto simp: ensured_def split: option.split)
  ultimately show ?thesis
    using assms by (auto simp: incident_inv_def incidents_ok_def timeline_ok_def)
qed

text \<open>What the threshold promises of a monitor's rule: it is open while the ordered state is down, and
  closed once the state is healthy again or a correction took the reason away.\<close>

definition next_open :: "string \<Rightarrow> bool \<Rightarrow> bool \<Rightarrow> bool" where
  "next_open observed corrected was =
     (if observed = ''down'' then True else if corrected \<or> observed = ''healthy'' then False else was)"

definition evaluation_applied :: "uuid \<Rightarrow> bool \<Rightarrow> enabled_rule option \<Rightarrow> database \<Rightarrow> database \<Rightarrow> bool" where
  "evaluation_applied m corrected found db d =
     (case found of
        None \<Rightarrow> open_rules d = open_rules db \<and> incident_events d = incident_events db \<and>
          notification_outbox d = notification_outbox db \<and> incident_frame db d
      | Some rule \<Rightarrow>
          (let p = (m, RuleID rule); was = p \<in> open_rules db; will = next_open (ObservedState rule) corrected was in
           open_rules d = (if will then insert p (open_rules db) else open_rules db - {p}) \<and>
           (if will = was
            then incident_events d = incident_events db \<and> notification_outbox d = notification_outbox db \<and> incident_frame db d
            else \<exists>e. transition_written e db d \<and> ie_event_key e = (if will then ''opened'' else ''resolved''))))"

lemma evaluation_applied_resolved:
  assumes "incident_inv d" "open_rules d = open_rules db - {(m, RuleID rule)}" "transition_written e db d"
    "event_key e = (x, ''resolved'')" "(m, RuleID rule) \<in> open_rules db" "ObservedState rule \<noteq> ''down''"
    "corrected \<or> ObservedState rule = ''healthy''"
  shows "evaluation_applied m corrected (Some rule) db d"
  using assms by (auto simp: evaluation_applied_def next_open_def event_key_def Let_def)

lemma evaluation_applied_same:
  assumes "(m, RuleID rule) \<in> open_rules db \<longleftrightarrow> next_open (ObservedState rule) corrected ((m, RuleID rule) \<in> open_rules db)"
  shows "evaluation_applied m corrected (Some rule) db db"
  using assms by (auto simp: evaluation_applied_def Let_def)

lemma ensured_thresholds: "effective_thresholds x (ensured m db) = effective_thresholds x db"
proof (cases "ensured m db = db")
  case False
  then obtain r where "\<not> exists_where (\<lambda>r. ar_monitor_id r = m \<and> ar_rule_key r = ''consecutive_failures'') (alert_rules db)"
    "alert_rules (ensured m db) = alert_rules db @ [default_rule (fresh_uuid db) r]" "mon_id r = m"
    by (auto simp: ensured_def split: option.splits if_splits dest!: select_one_Some)
  then show ?thesis
    by (auto simp: effective_thresholds_def select_one_append exists_where_def default_rule_def
        split: option.split dest!: select_one_Some)
qed simp

lemma rule_ensured_frame: "incident_frame db (ensured m db)"
  unfolding incident_frame_def using ensured_thresholds by (auto simp: ensured_def split: option.split)

lemma evaluation_applied_ensured:
  assumes "evaluation_applied m corrected found (ensured m db) d"
  shows "evaluation_applied m corrected found db d"
proof -
  have "incident_frame db d" if "incident_frame (ensured m db) d"
    by (rule incident_frame_trans[OF rule_ensured_frame that])
  with assms show ?thesis
    by (auto simp: evaluation_applied_def transition_written_def Let_def split: option.splits if_splits)
qed

definition apply_rule :: "time \<Rightarrow> uuid \<Rightarrow> string \<Rightarrow> bool \<Rightarrow> time \<Rightarrow> enabled_rule \<Rightarrow> ('x, 'r, unit) incident_fragment" where
  "apply_rule ts monitorID sourceJobID corrected now rule h k =
     openIncidentID monitorID (RuleID rule) h (\<lambda>openID.
         if ObservedState rule = ''down'' then
           (if openID \<noteq> None then k ()
            else query (reading (ListRecentIncidentEvaluationTimes monitorID (FailureThreshold rule))) (h \<circ> Db)
              (\<lambda>slots. openIncident ts (RuleOrganizationID rule) (RuleEnvironmentID rule) monitorID (RuleID rule)
                 sourceJobID (incident_start now slots) now h k))
         else (case openID of
             None \<Rightarrow> k ()
           | Some incidentID \<Rightarrow>
               if corrected then
                 resolveIncident ts incidentID sourceJobID ''late_result_correction'' None
                   ''late result correction invalidated the open threshold'' now h k
               else if ObservedState rule = ''healthy'' then
                 resolveIncident ts incidentID sourceJobID ''automatic_recovery'' None
                   ''recovery threshold reached'' now h k
               else k ()))"

lemma resolve_applied_yields:
  assumes "incident_inv db" "i \<in> set (incidents db)" "is_open i" "rule_of i = (m, RuleID rule)" "in_id i = x"
    and "ObservedState rule \<noteq> ''down''" "corrected \<or> ObservedState rule = ''healthy''"
  shows "yields (resolveIncident ts x job kind None reason now) db
    (\<lambda>_ d. incident_inv d \<and> evaluation_applied m corrected (Some rule) db d)"
proof -
  have "(m, RuleID rule) \<in> open_rules db"
    using assms(2-4) by (force simp: open_rules_def)
  then show ?thesis
    by (intro yields_weaken[OF resolveIncident_yields[OF assms(1,2,3,5)]])
      (use assms in \<open>auto intro: evaluation_applied_resolved\<close>)
qed

lemma open_applied_yields:
  assumes "incident_inv db" "(m, RuleID rule) \<notin> open_rules db" "ObservedState rule = ''down''"
  shows "yields (openIncident ts org env m (RuleID rule) job startedAt now) db
    (\<lambda>_ d. incident_inv d \<and> evaluation_applied m corrected (Some rule) db d)"
  by (rule yields_weaken[OF openIncident_yields[OF assms(1,2)]])
    (use assms in \<open>auto simp: evaluation_applied_def next_open_def event_key_def Let_def\<close>)

lemma apply_rule_yields:
  assumes inv: "incident_inv db"
  shows "yields (apply_rule ts m job corrected now rule) db
    (\<lambda>_ d. incident_inv d \<and> evaluation_applied m corrected (Some rule) db d)"
  unfolding apply_rule_def openIncidentID_def
proof (rule yields_reading, goal_cases)
  case 1
  note same = yields_done[of "\<lambda>_ d. incident_inv d \<and> evaluation_applied m corrected (Some rule) db d" "()" db,
      OF conjI[OF inv evaluation_applied_same]]
  show ?case
  proof (cases "LockOpenIncident m (RuleID rule) db")
    case None
    then have closed: "(m, RuleID rule) \<notin> open_rules db" by (simp add: LockOpenIncident_None)
    show ?thesis
    proof (cases "ObservedState rule = ''down''")
      case True
      with None show ?thesis
        by (simp add: yields_reading open_applied_yields[OF inv closed])
    next
      case False
      with None closed show ?thesis
        by (simp add: same next_open_def)
    qed
  next
    case (Some x)
    then obtain i where i: "i \<in> set (incidents db)" "is_open i" "rule_of i = (m, RuleID rule)" "in_id i = x"
      by (rule LockOpenIncident_Some)
    then have opened: "(m, RuleID rule) \<in> open_rules db" by (force simp: open_rules_def)
    show ?thesis
    proof (cases "ObservedState rule = ''down''")
      case True
      with Some opened show ?thesis
        by (simp add: same next_open_def)
    next
      case False
      show ?thesis
      proof (cases "corrected \<or> ObservedState rule = ''healthy''")
        case True
        with False Some resolve_applied_yields[OF inv i False True] show ?thesis
          by (cases corrected) simp_all
      next
        case other: False
        with False Some opened show ?thesis
          by (auto simp: next_open_def intro!: yields_done inv evaluation_applied_same)
      qed
    qed
  qed
qed

lemma evaluation_applies:
  assumes "incident_inv db"
  shows "yields (ApplyEvaluationTx ts m job corrected now) db
    (\<lambda>_ d. incident_inv d \<and>
       evaluation_applied m corrected (GetEnabledMonitorAlertRule m (ensured m db)) db d)"
proof -
  have "yields (\<lambda>h k. case GetEnabledMonitorAlertRule m (ensured m db) of
        None \<Rightarrow> k () | Some rule \<Rightarrow> apply_rule ts m job corrected now rule h k) (ensured m db)
      (\<lambda>_ d. incident_inv d \<and> evaluation_applied m corrected (GetEnabledMonitorAlertRule m (ensured m db)) db d)"
  proof (cases "GetEnabledMonitorAlertRule m (ensured m db)")
    case None
    then show ?thesis
      using ensured_inv[OF assms] rule_ensured_frame by (simp add: yields_done evaluation_applied_def)
  next
    case (Some rule)
    show ?thesis
      unfolding Some option.case
      by (rule yields_weaken[OF apply_rule_yields[OF ensured_inv[OF assms]]]) (auto intro: evaluation_applied_ensured)
  qed
  then show ?thesis
    unfolding ApplyEvaluationTx_def EnsureDefaultAlertRule_def apply_rule_def
    by (intro yields_writing yields_reading) (simp add: ensured_def)
qed

text \<open>C10: applying an evaluation in the transaction that accepted the result implements the threshold
  contract.  Whatever the continuation, after it the monitor's rule has an open incident exactly when
  the contract says so, no other rule is affected, and the change of the rule, if there is one,
  writes exactly one event to the timeline and one notification for each eligible recipient, while
  without a change neither grows; the incidents and their timeline stay consistent, and no table other
  than those of the incidents, their notifications and the refresh events is touched.\<close>

theorem ApplyEvaluationTx_refines:
  assumes "incident_inv db"
  shows "yields (ApplyEvaluationTx ts m job corrected now) db
    (\<lambda>_ d. incident_inv d \<and>
       evaluation_applied m corrected (GetEnabledMonitorAlertRule m (ensured m db)) db d)"
  by (rule evaluation_applies[OF assms])

subsection \<open>Actions of members\<close>


















text \<open>Acknowledging.\<close>

definition acknowledge_row :: "time \<Rightarrow> uuid \<Rightarrow> incident_row \<Rightarrow> incident_row" where
  "acknowledge_row at u i = i\<lparr>in_acknowledged_at := Some at, in_acknowledged_by_user_id := Some u\<rparr>"



lemma acknowledge_row_sel [simp]:
  "in_id (acknowledge_row at u i) = in_id i" "rule_of (acknowledge_row at u i) = rule_of i"
  "is_open (acknowledge_row at u i) = is_open i"
  by (simp_all add: acknowledge_row_def rule_of_def is_open_def)








subsection \<open>A concrete incident\<close>

definition zero_uuid :: uuid where
  "zero_uuid = ''00000000-0000-0000-0000-000000000000''"

definition sample_rand :: "nat \<Rightarrow> uuid" where
  "sample_rand n = (if n = 0 then zero_uuid else sample_uuid n)"

definition sample_opened :: incident_event_row where
  "sample_opened = \<lparr>ie_id = sample_uuid 1, ie_organization_id = ''org'', ie_environment_id = zero_uuid,
     ie_incident_id = zero_uuid, ie_event_key = ''opened'', ie_event_type = ''opened'',
     ie_actor_user_id = None, ie_source_job_id = None, ie_safe_reason = None, ie_occurred_at = 0\<rparr>"

text \<open>A member of an organization with an open incident of the monitor \<open>m\<close>, which has recovered.\<close>

definition sample_incidents :: "role \<Rightarrow> database" where
  "sample_incidents role = (empty_database sample_rand)
     \<lparr>db_drawn := 2,
      org_members := [\<lparr>om_organization_id = ''org'', om_user_id = zero_uuid, om_role = role,
        om_incident_notifications_enabled = True\<rparr>],
      alert_rules := [\<lparr>ar_id = ''rule'', ar_organization_id = ''org'', ar_environment_id = zero_uuid,
        ar_monitor_id = ''m'', ar_rule_key = ''consecutive_failures'', ar_failure_threshold = 3,
        ar_recovery_threshold = 2, ar_enabled = True\<rparr>],
      monitor_reliability_states := [\<lparr>rs_monitor_id = ''m'', rs_display_state = ''healthy'',
        rs_observed_state = ''healthy'', rs_consecutive_failures = 0, rs_consecutive_successes = 0,
        rs_last_observed_scheduled_at = None, rs_last_observed_job_id = None,
        rs_newest_expected_scheduled_at = None, rs_last_evaluated_scheduled_at = None,
        rs_last_evaluated_job_id = None\<rparr>],
      incidents := [open_incident_row zero_uuid ''org'' zero_uuid ''m'' ''rule'' 0 0],
      incident_events := [sample_opened]\<rparr>"

lemma sample_rand_inj: "inj sample_rand"
proof (rule injI)
  have "zero_uuid \<noteq> sample_uuid n \<and> sample_uuid n \<noteq> zero_uuid" for n
  proof (cases n)
    case (Suc k)
    then show ?thesis by (simp add: zero_uuid_def sample_uuid_def)
  qed (simp add: zero_uuid_def sample_uuid_def)
  moreover fix m n
  assume "sample_rand m = sample_rand n"
  ultimately show "m = n"
    using injD[OF sample_uuid_inj] by (auto simp: sample_rand_def split: if_splits)
qed

lemma sample_incidents_inv: "incident_inv (sample_incidents role)"
proof -
  have sel: "db_rand (sample_incidents role) = sample_rand" "db_drawn (sample_incidents role) = 2"
    "notification_outbox (sample_incidents role) = []" "notification_attempts (sample_incidents role) = []"
    "incidents (sample_incidents role) = [open_incident_row zero_uuid ''org'' zero_uuid ''m'' ''rule'' 0 0]"
    by (simp_all add: sample_incidents_def empty_database_def)
  have ev: "incident_events (sample_incidents role) = [sample_opened]"
    by (simp add: sample_incidents_def)
  have drawn: "was_drawn (sample_incidents role) zero_uuid" "was_drawn (sample_incidents role) (ie_id sample_opened)"
    by (auto simp: was_drawn_def sel sample_rand_def sample_opened_def intro: exI[of _ 0] exI[of _ 1])
  have "enqueue_inv (sample_incidents role)"
    by (simp add: enqueue_inv_def outbox_inv_def deliveries_drawn_def sel sample_rand_inj)
  moreover have "incidents_ok (sample_incidents role)"
    by (simp add: incidents_ok_def sel drawn)
  moreover have "timeline_ok (sample_incidents role)"
    by (simp add: timeline_ok_def sel ev drawn event_key_def) (simp add: sample_opened_def)
  ultimately show ?thesis by (simp add: incident_inv_def)
qed

theorem ApplyEvaluationTx_refines_witness:
  "case transaction Inl Inr (ApplyEvaluationTx 0 ''m'' ''j'' False 0) (world_with (sample_incidents ''viewer'') [Fine] ()) of
     (r, w') \<Rightarrow> incident_inv (durable w')"
proof -
  have "yields (ApplyEvaluationTx 0 ''m'' ''j'' False 0) (durable (world_with (sample_incidents ''viewer'') [Fine] ()))
    (\<lambda>_ d. incident_inv d \<and> evaluation_applied ''m'' False
       (GetEnabledMonitorAlertRule ''m'' (ensured ''m'' (sample_incidents ''viewer''))) (sample_incidents ''viewer'') d)"
    using ApplyEvaluationTx_refines[OF sample_incidents_inv] by simp
  then show ?thesis
    by (rule transactionI) (use sample_incidents_inv in auto)
qed



end
