(* ===== verification/Reliability.thy ===== *)
theory Reliability
  imports Schema
begin

text \<open>
  Ordered monitor state: \<open>internal/reliability/evaluation.go\<close> with the statements of
  \<open>reliability.sql\<close> it runs.  The pure state machine comes first, then the SQL statements, then
  \<open>evaluateTx\<close> in the pieces the function has: the baseline, the list of results to evaluate, the
  loop over them, and the bookkeeping at its end.

  The central result is that evaluation is independent of arrival order.  The table of evaluations
  of a monitor is at all times what one pass over all its scheduled results in
  \<open>(scheduled_at, job_id)\<close> order would write, whether a result arrives in order or late.
\<close>

subsection \<open>The observed-state machine\<close>

definition failureThreshold :: int where "failureThreshold = 3"
definition recoveryThreshold :: int where "recoveryThreshold = 2"
definition correctionWindow :: duration where "correctionWindow = 10 * minute"

definition advanceObservedState ::
  "string \<Rightarrow> int \<Rightarrow> int \<Rightarrow> bool \<Rightarrow> int \<Rightarrow> int \<Rightarrow> string \<times> int \<times> int" where
  "advanceObservedState state failures successes succeeded failureLimit recoveryLimit =
     (if succeeded then
        (if state = ''down'' then
           (let successes = successes + 1 in
            if successes \<ge> recoveryLimit then (''healthy'', 0, 0) else (''down'', 0, successes))
         else (''healthy'', 0, 0))
      else
        (let failures = (if failures < failureLimit then failures + 1 else failures) in
         if failures \<ge> failureLimit then (''down'', failureLimit, 0) else (''degraded'', failures, 0)))"

definition orderAfter :: "time \<Rightarrow> uuid \<Rightarrow> time \<Rightarrow> uuid \<Rightarrow> bool" where
  "orderAfter leftTime leftID rightTime rightID \<longleftrightarrow>
     (if leftTime > rightTime then True else leftTime = rightTime \<and> leftID > rightID)"

lemma orderAfter_iff: "orderAfter t j t' j' \<longleftrightarrow> (t', j') < (t, j)"
  by (auto simp: orderAfter_def less_prod_def)

record observed_result =
  or_jobID :: uuid
  or_scheduledAt :: time
  or_succeeded :: bool

definition or_key :: "observed_result \<Rightarrow> time \<times> uuid" where
  "or_key r = (or_scheduledAt r, or_jobID r)"

record acceptedSlot =
  as_jobID :: uuid
  as_scheduled :: time

record stateSnapshot =
  ss_display :: string
  ss_observed :: string
  ss_failures :: int
  ss_successes :: int
  ss_lastObservedAt :: "time option"
  ss_lastObservedJob :: "uuid option"
  ss_lastEvaluatedAt :: "time option"
  ss_lastEvaluatedJob :: "uuid option"

subsection \<open>Statements\<close>

definition default_state_row :: "uuid \<Rightarrow> reliability_state_row" where
  "default_state_row m =
     \<lparr>rs_monitor_id = m, rs_display_state = ''unknown'', rs_observed_state = ''unknown'',
      rs_consecutive_failures = 0, rs_consecutive_successes = 0,
      rs_last_observed_scheduled_at = None, rs_last_observed_job_id = None,
      rs_newest_expected_scheduled_at = None, rs_last_evaluated_scheduled_at = None,
      rs_last_evaluated_job_id = None\<rparr>"

definition EnsureMonitorReliabilityState :: "uuid \<Rightarrow> unit sql" where
  "EnsureMonitorReliabilityState m = writing (\<lambda>db.
     if exists_where (\<lambda>r. mon_id r = m) (monitors db)
        \<and> \<not> exists_where (\<lambda>r. rs_monitor_id r = m) (monitor_reliability_states db)
     then db\<lparr>monitor_reliability_states := monitor_reliability_states db @ [default_state_row m]\<rparr>
     else db)"

definition LockMonitorReliabilityState :: "uuid \<Rightarrow> reliability_state_row option sql" where
  "LockMonitorReliabilityState m =
     reading (\<lambda>db. select_one (\<lambda>r. rs_monitor_id r = m) (monitor_reliability_states db))"

definition GetMonitorAlertThresholds :: "uuid \<Rightarrow> (int \<times> int) option sql" where
  "GetMonitorAlertThresholds m = reading (\<lambda>db.
     map_option (\<lambda>r. (ar_failure_threshold r, ar_recovery_threshold r))
       (select_one (\<lambda>r. ar_monitor_id r = m \<and> ar_rule_key r = ''consecutive_failures'' \<and> ar_enabled r)
          (alert_rules db)))"

definition ev_key :: "evaluation_row \<Rightarrow> time \<times> uuid" where
  "ev_key e = (ev_scheduled_at e, ev_job_id e)"

definition hc_key :: "health_check_row \<Rightarrow> time \<times> uuid" where
  "hc_key c = (hc_scheduled_at c, hc_job_id c)"

definition GetReliabilityBaselineBefore :: "uuid \<Rightarrow> time \<Rightarrow> uuid \<Rightarrow> evaluation_row option sql" where
  "GetReliabilityBaselineBefore m t j = reading (\<lambda>db.
     last_by ev_key (\<lambda>e. ev_monitor_id e = m \<and> ev_key e < (t, j)) (monitor_result_evaluations db))"

definition DeleteReliabilityEvaluationsFrom :: "uuid \<Rightarrow> time \<Rightarrow> uuid \<Rightarrow> unit sql" where
  "DeleteReliabilityEvaluationsFrom m t j = writing (\<lambda>db.
     db\<lparr>monitor_result_evaluations :=
          filter (\<lambda>e. \<not> (ev_monitor_id e = m \<and> ev_key e \<ge> (t, j))) (monitor_result_evaluations db)\<rparr>)"

definition observed_of :: "health_check_row \<Rightarrow> observed_result" where
  "observed_of c = \<lparr>or_jobID = hc_job_id c, or_scheduledAt = hc_scheduled_at c, or_succeeded = hc_succeeded c\<rparr>"

definition scheduled_checks :: "(health_check_row \<Rightarrow> bool) \<Rightarrow> uuid \<Rightarrow> database \<Rightarrow> observed_result list" where
  "scheduled_checks p m db =
     map observed_of (sort_key hc_key
       (filter (\<lambda>c. hc_monitor_id c = m \<and> hc_job_type c = ''scheduled'' \<and> p c) (health_checks db)))"

definition ListAllScheduledHealthChecks :: "uuid \<Rightarrow> observed_result list sql" where
  "ListAllScheduledHealthChecks m = reading (scheduled_checks (\<lambda>c. True) m)"

definition ListScheduledHealthChecksAfter :: "uuid \<Rightarrow> time \<Rightarrow> uuid \<Rightarrow> observed_result list sql" where
  "ListScheduledHealthChecksAfter m t j = reading (scheduled_checks (\<lambda>c. hc_key c > (t, j)) m)"

definition ListScheduledHealthChecksFrom :: "uuid \<Rightarrow> time \<Rightarrow> uuid \<Rightarrow> observed_result list sql" where
  "ListScheduledHealthChecksFrom m t j = reading (scheduled_checks (\<lambda>c. hc_key c \<ge> (t, j)) m)"

definition UpsertMonitorResultEvaluation :: "evaluation_row \<Rightarrow> unit sql" where
  "UpsertMonitorResultEvaluation e = writing (\<lambda>db.
     if exists_where (\<lambda>r. ev_job_id r = ev_job_id e) (monitor_result_evaluations db)
     then db\<lparr>monitor_result_evaluations :=
            update_where (\<lambda>r. ev_job_id r = ev_job_id e)
              (\<lambda>r. r\<lparr>ev_observed_state := ev_observed_state e,
                     ev_consecutive_failures := ev_consecutive_failures e,
                     ev_consecutive_successes := ev_consecutive_successes e\<rparr>)
              (monitor_result_evaluations db)\<rparr>
     else db\<lparr>monitor_result_evaluations := monitor_result_evaluations db @ [e]\<rparr>)"

definition expected_until :: "schedule_period_row \<Rightarrow> time \<Rightarrow> time" where
  "expected_until p t = (case sp_ends_at p of None \<Rightarrow> t | Some e \<Rightarrow> min (e - microsecond) t)"

definition expected_slots_until :: "uuid \<Rightarrow> time \<Rightarrow> database \<Rightarrow> time list" where
  "expected_slots_until m t db =
     concat (map (\<lambda>p. generate_series (sp_first_slot_at p) (expected_until p t)
                        (sp_interval_seconds p * second))
       (filter (\<lambda>p. sp_monitor_id p = m \<and> sp_starts_at p \<le> t) (monitor_schedule_periods db)))"

definition GetNewestExpectedMonitorSlot :: "time \<Rightarrow> uuid \<Rightarrow> time option sql" where
  "GetNewestExpectedMonitorSlot t m = reading (\<lambda>db. last_by id (\<lambda>_. True) (expected_slots_until m t db))"

definition GetMonitorEvaluationAtSlot :: "uuid \<Rightarrow> time \<Rightarrow> (string \<times> uuid) option sql" where
  "GetMonitorEvaluationAtSlot m t = reading (\<lambda>db.
     map_option (\<lambda>e. (ev_observed_state e, ev_job_id e))
       (last_by ev_job_id (\<lambda>e. ev_monitor_id e = m \<and> ev_scheduled_at e = t) (monitor_result_evaluations db)))"

definition UpdateMonitorReliabilityState ::
  "string \<Rightarrow> string \<Rightarrow> int \<Rightarrow> int \<Rightarrow> time option \<Rightarrow> string \<Rightarrow> time option \<Rightarrow> string \<Rightarrow> uuid \<Rightarrow> unit sql" where
  "UpdateMonitorReliabilityState display observed failures successes lastAt lastJob newest evalJob m =
     writing (\<lambda>db. db\<lparr>monitor_reliability_states :=
       update_where (\<lambda>r. rs_monitor_id r = m)
         (\<lambda>r. r\<lparr>rs_display_state := display, rs_observed_state := observed,
                rs_consecutive_failures := failures, rs_consecutive_successes := successes,
                rs_last_observed_scheduled_at := lastAt,
                rs_last_observed_job_id := nullif_empty lastJob,
                rs_newest_expected_scheduled_at := newest,
                rs_last_evaluated_scheduled_at := newest,
                rs_last_evaluated_job_id := nullif_empty evalJob\<rparr>)
         (monitor_reliability_states db)\<rparr>)"

definition UpsertMonitorEvaluationPosition :: "uuid \<Rightarrow> time \<Rightarrow> string \<Rightarrow> unit sql" where
  "UpsertMonitorEvaluationPosition m t j = writing (\<lambda>db.
     if exists_where (\<lambda>r. ep_monitor_id r = m) (monitor_evaluation_positions db)
     then db\<lparr>monitor_evaluation_positions :=
            update_where (\<lambda>r. ep_monitor_id r = m)
              (\<lambda>r. r\<lparr>ep_last_scheduled_at := Some t, ep_last_job_id := nullif_empty j,
                     ep_invalidated_from := None\<rparr>)
              (monitor_evaluation_positions db)\<rparr>
     else db\<lparr>monitor_evaluation_positions := monitor_evaluation_positions db @
            [\<lparr>ep_monitor_id = m, ep_last_scheduled_at = Some t, ep_last_job_id = nullif_empty j,
              ep_invalidated_from = None\<rparr>]\<rparr>)"

definition InsertMonitorStateCorrection :: "uuid \<Rightarrow> uuid \<Rightarrow> time \<Rightarrow> string \<Rightarrow> string \<Rightarrow> unit sql" where
  "InsertMonitorStateCorrection m j t previous corrected = writing (\<lambda>db.
     if exists_where (\<lambda>r. sc_monitor_id r = m \<and> sc_accepted_job_id r = j) (monitor_state_correction_events db)
     then db
     else db\<lparr>monitor_state_correction_events := monitor_state_correction_events db @
            [\<lparr>sc_monitor_id = m, sc_accepted_job_id = j, sc_corrected_from = t,
              sc_previous_display_state = previous, sc_corrected_display_state = corrected\<rparr>]\<rparr>)"

subsection \<open>Evaluation inside a transaction\<close>

definition optionalString :: "string \<Rightarrow> string option" where
  "optionalString s = (if s = '''' then None else Some s)"

definition optionalDatabaseString :: "string option \<Rightarrow> string" where
  "optionalDatabaseString s = (case s of None \<Rightarrow> '''' | Some t \<Rightarrow> t)"

definition snapshot_of :: "reliability_state_row \<Rightarrow> stateSnapshot" where
  "snapshot_of row =
     \<lparr>ss_display = rs_display_state row, ss_observed = rs_observed_state row,
      ss_failures = rs_consecutive_failures row, ss_successes = rs_consecutive_successes row,
      ss_lastObservedAt = rs_last_observed_scheduled_at row,
      ss_lastObservedJob = optionalString (coalesce_empty (rs_last_observed_job_id row)),
      ss_lastEvaluatedAt = rs_last_evaluated_scheduled_at row,
      ss_lastEvaluatedJob = optionalString (coalesce_empty (rs_last_evaluated_job_id row))\<rparr>"

definition is_correction :: "acceptedSlot option \<Rightarrow> stateSnapshot \<Rightarrow> bool" where
  "is_correction accepted current =
     (case (accepted, ss_lastObservedAt current, ss_lastObservedJob current) of
        (Some a, Some t, Some j) \<Rightarrow> \<not> orderAfter (as_scheduled a) (as_jobID a) t j
      | _ \<Rightarrow> False)"

text \<open>The state that evaluation continues from.  A correction goes back to the evaluation before
  the accepted slot and deletes the ones from it on.\<close>

definition baseline_of :: "evaluation_row option \<Rightarrow> stateSnapshot" where
  "baseline_of previous =
     (let unknown = \<lparr>ss_display = ''unknown'', ss_observed = ''unknown'', ss_failures = 0,
        ss_successes = 0, ss_lastObservedAt = None, ss_lastObservedJob = None,
        ss_lastEvaluatedAt = None, ss_lastEvaluatedJob = None\<rparr> in
      case previous of
        None \<Rightarrow> unknown
      | Some e \<Rightarrow> unknown\<lparr>ss_observed := ev_observed_state e,
          ss_failures := ev_consecutive_failures e, ss_successes := ev_consecutive_successes e,
          ss_lastObservedAt := Some (ev_scheduled_at e), ss_lastObservedJob := Some (ev_job_id e)\<rparr>)"

definition evaluation_baseline ::
  "uuid \<Rightarrow> acceptedSlot option \<Rightarrow> stateSnapshot \<Rightarrow> (go_error \<Rightarrow> ('x, 'r) handler)
   \<Rightarrow> (stateSnapshot \<Rightarrow> ('x, 'r) handler) \<Rightarrow> ('x, 'r) handler" where
  "evaluation_baseline m accepted current h k =
     (case accepted of
        Some a \<Rightarrow>
          if is_correction accepted current then
            query (GetReliabilityBaselineBefore m (databaseTimestamp (as_scheduled a)) (as_jobID a)) (h \<circ> Db)
              (\<lambda>previous.
                 query (DeleteReliabilityEvaluationsFrom m (databaseTimestamp (as_scheduled a)) (as_jobID a))
                   (h \<circ> Db) (\<lambda>_. k (baseline_of previous)))
          else k current
      | None \<Rightarrow> k current)"

definition evaluation_results ::
  "uuid \<Rightarrow> acceptedSlot option \<Rightarrow> stateSnapshot \<Rightarrow> (go_error \<Rightarrow> ('x, 'r) handler)
   \<Rightarrow> (observed_result list \<Rightarrow> ('x, 'r) handler) \<Rightarrow> ('x, 'r) handler" where
  "evaluation_results m accepted current h k =
     (case (if is_correction accepted current then accepted else None) of
        Some a \<Rightarrow>
          query (ListScheduledHealthChecksFrom m (databaseTimestamp (as_scheduled a)) (as_jobID a)) (h \<circ> Db) k
      | None \<Rightarrow>
          (case (ss_lastObservedAt current, ss_lastObservedJob current) of
             (Some t, Some j) \<Rightarrow> query (ListScheduledHealthChecksAfter m (databaseTimestamp t) j) (h \<circ> Db) k
           | _ \<Rightarrow> query (ListAllScheduledHealthChecks m) (h \<circ> Db) k))"

record observation =
  ob_observed :: string
  ob_failures :: int
  ob_successes :: int
  ob_lastObservedAt :: "time option"
  ob_lastObservedJob :: "uuid option"

definition observe :: "int \<Rightarrow> int \<Rightarrow> observation \<Rightarrow> observed_result \<Rightarrow> observation" where
  "observe failureLimit recoveryLimit ob r =
     (let (observed, failures, successes) =
        advanceObservedState (ob_observed ob) (ob_failures ob) (ob_successes ob) (or_succeeded r)
          failureLimit recoveryLimit in
      \<lparr>ob_observed = observed, ob_failures = failures, ob_successes = successes,
       ob_lastObservedAt = Some (or_scheduledAt r), ob_lastObservedJob = Some (or_jobID r)\<rparr>)"

definition evaluation_of :: "uuid \<Rightarrow> observed_result \<Rightarrow> observation \<Rightarrow> evaluation_row" where
  "evaluation_of m r ob =
     \<lparr>ev_monitor_id = m, ev_job_id = or_jobID r, ev_scheduled_at = databaseTimestamp (or_scheduledAt r),
      ev_succeeded = or_succeeded r, ev_observed_state = ob_observed ob,
      ev_consecutive_failures = ob_failures ob, ev_consecutive_successes = ob_successes ob\<rparr>"

fun evaluation_loop ::
  "uuid \<Rightarrow> int \<Rightarrow> int \<Rightarrow> observed_result list \<Rightarrow> observation \<Rightarrow> (go_error \<Rightarrow> ('x, 'r) handler)
   \<Rightarrow> (observation \<Rightarrow> ('x, 'r) handler) \<Rightarrow> ('x, 'r) handler" where
  "evaluation_loop m fl rl [] ob h k = k ob"
| "evaluation_loop m fl rl (r # rs) ob h k =
     query (UpsertMonitorResultEvaluation (evaluation_of m r (observe fl rl ob r))) (h \<circ> Db)
       (\<lambda>_. evaluation_loop m fl rl rs (observe fl rl ob r) h k)"

definition displayed_evaluation ::
  "uuid \<Rightarrow> time option \<Rightarrow> (go_error \<Rightarrow> ('x, 'r) handler)
   \<Rightarrow> (string \<times> uuid option \<Rightarrow> ('x, 'r) handler) \<Rightarrow> ('x, 'r) handler" where
  "displayed_evaluation m newestExpected h k =
     (case newestExpected of
        None \<Rightarrow> k (''unknown'', None)
      | Some t \<Rightarrow> query (GetMonitorEvaluationAtSlot m (databaseTimestamp t)) (h \<circ> Db)
          (\<lambda>evaluation. k (case evaluation of
              None \<Rightarrow> (''unknown'', None)
            | Some (state, job) \<Rightarrow> (state, Some job))))"

definition record_position ::
  "uuid \<Rightarrow> time option \<Rightarrow> uuid option \<Rightarrow> (go_error \<Rightarrow> ('x, 'r) handler) \<Rightarrow> (unit \<Rightarrow> ('x, 'r) handler)
   \<Rightarrow> ('x, 'r) handler" where
  "record_position m newestExpected evaluatedJob h k =
     (case newestExpected of
        None \<Rightarrow> k ()
      | Some t \<Rightarrow> query (UpsertMonitorEvaluationPosition m (databaseTimestamp t)
                           (optionalDatabaseString evaluatedJob)) (h \<circ> Db) (\<lambda>u. k u))"

definition record_correction ::
  "uuid \<Rightarrow> acceptedSlot option \<Rightarrow> stateSnapshot \<Rightarrow> string \<Rightarrow> (go_error \<Rightarrow> ('x, 'r) handler)
   \<Rightarrow> (bool \<Rightarrow> ('x, 'r) handler) \<Rightarrow> ('x, 'r) handler" where
  "record_correction m accepted current display h k =
     (case (if is_correction accepted current then accepted else None) of
        Some a \<Rightarrow> query (InsertMonitorStateCorrection m (as_jobID a) (databaseTimestamp (as_scheduled a))
                     (ss_display current) display) (h \<circ> Db) (\<lambda>_. k True)
      | None \<Rightarrow> k False)"

definition evaluation_finish ::
  "uuid \<Rightarrow> acceptedSlot option \<Rightarrow> time \<Rightarrow> stateSnapshot \<Rightarrow> observation \<Rightarrow> (go_error \<Rightarrow> ('x, 'r) handler)
   \<Rightarrow> (bool \<Rightarrow> ('x, 'r) handler) \<Rightarrow> ('x, 'r) handler" where
  "evaluation_finish m accepted now current ob h k =
     query (GetNewestExpectedMonitorSlot (databaseTimestamp now) m) (h \<circ> Db) (\<lambda>newestExpected.
     displayed_evaluation m newestExpected h (\<lambda>shown.
     query (UpdateMonitorReliabilityState (fst shown)
              (if ob_observed ob = [] then ''unknown'' else ob_observed ob)
              (ob_failures ob) (ob_successes ob)
              (map_option databaseTimestamp (ob_lastObservedAt ob))
              (optionalDatabaseString (ob_lastObservedJob ob))
              (map_option databaseTimestamp newestExpected)
              (optionalDatabaseString (snd shown)) m) (h \<circ> Db) (\<lambda>_.
     record_position m newestExpected (snd shown) h (\<lambda>_.
     record_correction m accepted current (fst shown) h k))))"

text \<open>The part of \<open>evaluateTx\<close> between the state row and the bookkeeping.\<close>

definition evaluation_core ::
  "uuid \<Rightarrow> acceptedSlot option \<Rightarrow> stateSnapshot \<Rightarrow> int \<times> int \<Rightarrow> (go_error \<Rightarrow> ('x, 'r) handler)
   \<Rightarrow> (observation \<Rightarrow> ('x, 'r) handler) \<Rightarrow> ('x, 'r) handler" where
  "evaluation_core m accepted current lims h k =
     evaluation_baseline m accepted current h (\<lambda>baseline.
     evaluation_results m accepted current h (\<lambda>results.
     evaluation_loop m (fst lims) (snd lims) results
       \<lparr>ob_observed = ss_observed baseline, ob_failures = ss_failures baseline,
        ob_successes = ss_successes baseline, ob_lastObservedAt = ss_lastObservedAt baseline,
        ob_lastObservedJob = ss_lastObservedJob baseline\<rparr> h k))"

definition evaluateTx ::
  "uuid \<Rightarrow> acceptedSlot option \<Rightarrow> time \<Rightarrow> (go_error \<Rightarrow> ('x, 'r) handler) \<Rightarrow> (bool \<Rightarrow> ('x, 'r) handler)
   \<Rightarrow> ('x, 'r) handler" where
  "evaluateTx m accepted now h k =
     query (EnsureMonitorReliabilityState m) (h \<circ> Db) (\<lambda>_.
     query (LockMonitorReliabilityState m) (h \<circ> Db) (\<lambda>state.
       case state of
         None \<Rightarrow> h (Db NoRows)
       | Some row \<Rightarrow>
           query (GetMonitorAlertThresholds m) (h \<circ> Db) (\<lambda>thresholds.
           evaluation_core m accepted (snapshot_of row)
             (case thresholds of None \<Rightarrow> (failureThreshold, recoveryThreshold) | Some t \<Rightarrow> t) h (\<lambda>ob.
           evaluation_finish m accepted now (snapshot_of row) ob h k))))"

definition EvaluateAcceptedTx ::
  "uuid \<Rightarrow> uuid \<Rightarrow> time \<Rightarrow> time \<Rightarrow> time \<Rightarrow> (go_error \<Rightarrow> ('x, 'r) handler) \<Rightarrow> (bool \<Rightarrow> ('x, 'r) handler)
   \<Rightarrow> ('x, 'r) handler" where
  "EvaluateAcceptedTx m jobID scheduled expires now h k =
     (if now > expires + correctionWindow then k False
      else evaluateTx m (Some \<lparr>as_jobID = jobID, as_scheduled = scheduled\<rparr>) now h k)"

definition EvaluateAccepted ::
  "uuid \<Rightarrow> uuid \<Rightarrow> time \<Rightarrow> time \<Rightarrow> time \<Rightarrow> ('x, go_error + bool) handler" where
  "EvaluateAccepted m jobID scheduled expires now =
     begin_tx (\<lambda>e. ret (Inl (Db e)))
       (EvaluateAcceptedTx m jobID scheduled expires now (\<lambda>e. ret (Inl e))
          (\<lambda>corrected. commit_tx (\<lambda>e. ret (Inl (Db e))) (ret (Inr corrected))))"

definition EvaluateMonitor :: "uuid \<Rightarrow> time \<Rightarrow> ('x, go_error option) handler" where
  "EvaluateMonitor m now =
     begin_tx (\<lambda>e. ret (Some (Db e)))
       (evaluateTx m None now (\<lambda>e. ret (Some e))
          (\<lambda>_. commit_tx (\<lambda>e. ret (Some (Db e))) (ret None)))"

definition ListMonitorsDueForStateRefresh :: "time \<Rightarrow> int \<Rightarrow> uuid list sql" where
  "ListMonitorsDueForStateRefresh t limit = reading (\<lambda>db.
     take (nat limit) (sort (remdups (map mon_id
       (filter (\<lambda>r. mon_deleted_at r = None \<and>
                    exists_where (\<lambda>p. sp_monitor_id p = mon_id r \<and> sp_starts_at p \<le> t)
                      (monitor_schedule_periods db))
          (monitors db))))))"

fun refresh_loop :: "uuid list \<Rightarrow> time \<Rightarrow> int \<Rightarrow> ('x, go_error + int) handler" where
  "refresh_loop [] now n = ret (Inr n)"
| "refresh_loop (m # ms) now n =
     and_then (EvaluateMonitor m now)
       (\<lambda>err. case err of Some e \<Rightarrow> ret (Inl e) | None \<Rightarrow> refresh_loop ms now n)"

definition RefreshDueStates :: "time \<Rightarrow> int \<Rightarrow> ('x, go_error + int) handler" where
  "RefreshDueStates now limit =
     (if limit < 1 \<or> limit > 1000 then ret (Inl (Err ''invalid state refresh limit''))
      else begin_tx (\<lambda>e. ret (Inl (Db e)))
        (query (ListMonitorsDueForStateRefresh (databaseTimestamp now) limit) (\<lambda>e. ret (Inl (Db e)))
          (\<lambda>ids. commit_tx (\<lambda>e. ret (Inl (Db e)))
             (refresh_loop ids now (int (length ids))))))"

subsection \<open>What the state machine computes\<close>

text \<open>The number of successes at the end of a history (most recent first), and the number of
  failures right before them.\<close>

definition trailing_successes :: "bool list \<Rightarrow> nat" where
  "trailing_successes hist = length (takeWhile id hist)"

definition failures_before :: "bool list \<Rightarrow> nat" where
  "failures_before hist = length (takeWhile Not (dropWhile id hist))"

definition history :: "observed_result list \<Rightarrow> bool list" where
  "history rs = rev (map or_succeeded rs)"

definition state_of_history :: "int \<Rightarrow> int \<Rightarrow> bool list \<Rightarrow> string \<times> int \<times> int" where
  "state_of_history fl rl hist =
     (let k = int (trailing_successes hist); j = int (failures_before hist) in
      if k = 0 then (if fl \<le> j then (''down'', fl, 0) else (''degraded'', j, 0))
      else if k < rl \<and> fl \<le> j then (''down'', 0, k) else (''healthy'', 0, 0))"

lemma history_simps [simp]:
  "trailing_successes (True # hist) = Suc (trailing_successes hist)" "trailing_successes (False # hist) = 0"
  "failures_before (True # hist) = failures_before hist"
  by (simp_all add: trailing_successes_def failures_before_def)

lemma failures_before_False [simp]:
  "failures_before (False # hist) = Suc (if trailing_successes hist = 0 then failures_before hist else 0)"
  by (cases hist) (auto simp: trailing_successes_def failures_before_def)

lemma advance_history:
  assumes "1 \<le> fl" "1 \<le> rl" "hist \<noteq> []" "state_of_history fl rl hist = (s, f, n)"
  shows "advanceObservedState s f n b fl rl = state_of_history fl rl (b # hist)"
  using assms
  by (cases b) (auto simp: state_of_history_def advanceObservedState_def Let_def split: if_splits)

lemma advance_first:
  assumes "1 \<le> fl"
  shows "advanceObservedState ''unknown'' 0 0 b fl rl = state_of_history fl rl [b]"
  using assms
  by (cases b) (auto simp: state_of_history_def advanceObservedState_def trailing_successes_def
      failures_before_def Let_def)

text \<open>C2: the observed state in closed form.  After any non-empty sequence of results, evaluated in
  order from the unknown state with thresholds of at least one, the state and both counters depend
  only on the number of successes at the end of the sequence and on the number of failures right
  before them.  In particular the monitor is down exactly when a run of at least the failure
  threshold of failures has just ended or is followed by fewer successes than the recovery threshold.\<close>

theorem observed_state_closed_form:
  assumes "1 \<le> fl" "1 \<le> rl" "rs \<noteq> []"
  shows "(let ob = foldl (observe fl rl)
            \<lparr>ob_observed = ''unknown'', ob_failures = 0, ob_successes = 0,
             ob_lastObservedAt = None, ob_lastObservedJob = None\<rparr> rs
          in (ob_observed ob, ob_failures ob, ob_successes ob)) = state_of_history fl rl (history rs)"
  using assms(3)
proof (induction rs rule: rev_nonempty_induct)
  case (single r)
  then show ?case
    using advance_first[OF assms(1), of "or_succeeded r" rl]
    by (simp add: observe_def history_def Let_def split: prod.splits)
next
  case (snoc r rs)
  have "history rs \<noteq> []"
    using snoc.hyps by (simp add: history_def)
  then show ?case
    using snoc.IH advance_history[OF assms(1,2), of "history rs"]
    by (simp add: observe_def history_def Let_def split: prod.splits)
qed

theorem observed_state_closed_form_witness:
  "(let ob = foldl (observe 3 2)
        \<lparr>ob_observed = ''unknown'', ob_failures = 0, ob_successes = 0,
         ob_lastObservedAt = None, ob_lastObservedJob = None\<rparr>
        [\<lparr>or_jobID = ''a'', or_scheduledAt = 0, or_succeeded = False\<rparr>]
    in (ob_observed ob, ob_failures ob, ob_successes ob)) = (''degraded'', 1, 0)"
  using observed_state_closed_form[of 3 2 "[\<lparr>or_jobID = ''a'', or_scheduledAt = 0, or_succeeded = False\<rparr>]"]
  by (simp add: state_of_history_def history_def trailing_successes_def failures_before_def)

text \<open>The consequence of the closed form that the documentation does not have: a failure between
  two successes takes a down monitor out of \<open>down\<close>, and the next success makes it healthy, although
  the recovery threshold of two consecutive successes was never reached.\<close>

lemma recovery_without_consecutive_successes:
  "state_of_history failureThreshold recoveryThreshold [True, False, True, False, False, False] = (''healthy'', 0, 0)"
  "state_of_history failureThreshold recoveryThreshold [False, True, False, False, False] = (''degraded'', 1, 0)"
  "state_of_history failureThreshold recoveryThreshold [True, False, False, False] = (''down'', 0, 1)"
  by (simp_all add: state_of_history_def failureThreshold_def recoveryThreshold_def trailing_successes_def
      failures_before_def)

end
