(* ===== verification/ReliabilityOrder.thy ===== *)
theory ReliabilityOrder
  imports Reliability
begin

text \<open>
  Independence of arrival order.  \<open>replay\<close> is the reference: one pass over the scheduled results
  of a monitor in \<open>(scheduled_at, job_id)\<close> order.  \<open>ordered_state\<close> says that the evaluation
  table and the state row of a monitor are exactly what that pass gives.  Every accepted result,
  in order or late, leads from such a database to such a database.
\<close>

subsection \<open>The reference\<close>

definition unobserved :: observation where
  "unobserved = \<lparr>ob_observed = ''unknown'', ob_failures = 0, ob_successes = 0,
     ob_lastObservedAt = None, ob_lastObservedJob = None\<rparr>"

fun replay :: "uuid \<Rightarrow> int \<Rightarrow> int \<Rightarrow> observation \<Rightarrow> observed_result list \<Rightarrow> evaluation_row list" where
  "replay m fl rl ob [] = []"
| "replay m fl rl ob (r # rs) = evaluation_of m r (observe fl rl ob r) # replay m fl rl (observe fl rl ob r) rs"

definition monitor_evaluations :: "uuid \<Rightarrow> database \<Rightarrow> evaluation_row list" where
  "monitor_evaluations m db =
     sort_key ev_key (filter (\<lambda>e. ev_monitor_id e = m) (monitor_result_evaluations db))"

definition all_checks :: "uuid \<Rightarrow> database \<Rightarrow> observed_result list" where
  "all_checks m db = scheduled_checks (\<lambda>c. True) m db"

definition limits :: "uuid \<Rightarrow> database \<Rightarrow> int \<times> int" where
  "limits m db =
     (case select_one (\<lambda>r. ar_monitor_id r = m \<and> ar_rule_key r = ''consecutive_failures'' \<and> ar_enabled r)
             (alert_rules db) of
        None \<Rightarrow> (failureThreshold, recoveryThreshold)
      | Some r \<Rightarrow> (ar_failure_threshold r, ar_recovery_threshold r))"

definition state_observation :: "uuid \<Rightarrow> database \<Rightarrow> observation" where
  "state_observation m db =
     (case select_one (\<lambda>r. rs_monitor_id r = m) (monitor_reliability_states db) of
        None \<Rightarrow> unobserved
      | Some r \<Rightarrow> \<lparr>ob_observed = rs_observed_state r, ob_failures = rs_consecutive_failures r,
                   ob_successes = rs_consecutive_successes r,
                   ob_lastObservedAt = rs_last_observed_scheduled_at r,
                   ob_lastObservedJob = rs_last_observed_job_id r\<rparr>)"

definition ordered_state :: "uuid \<Rightarrow> database \<Rightarrow> bool" where
  "ordered_state m db =
     (case limits m db of (fl, rl) \<Rightarrow>
        monitor_evaluations m db = replay m fl rl unobserved (all_checks m db) \<and>
        state_observation m db = foldl (observe fl rl) unobserved (all_checks m db))"

text \<open>What the schema guarantees: job identifiers identify results and are not empty, stored times
  have microsecond precision, and an evaluation belongs to the result of its job.\<close>

definition results_wf :: "database \<Rightarrow> bool" where
  "results_wf db \<longleftrightarrow>
     distinct (map hc_job_id (health_checks db)) \<and>
     (\<forall>c\<in>set (health_checks db). hc_job_id c \<noteq> '''' \<and> databaseTimestamp (hc_scheduled_at c) = hc_scheduled_at c) \<and>
     distinct (map ev_job_id (monitor_result_evaluations db)) \<and>
     (\<forall>e\<in>set (monitor_result_evaluations db). \<exists>c\<in>set (health_checks db).
        hc_job_id c = ev_job_id e \<and> hc_monitor_id c = ev_monitor_id e)"

definition add_check :: "health_check_row \<Rightarrow> database \<Rightarrow> database" where
  "add_check c db = db\<lparr>health_checks := health_checks db @ [c]\<rparr>"

definition slot_of :: "health_check_row \<Rightarrow> acceptedSlot" where
  "slot_of c = \<lparr>as_jobID = hc_job_id c, as_scheduled = hc_scheduled_at c\<rparr>"

lemma add_check_frame [simp]:
  "db_rand (add_check c db) = db_rand db"
  "db_drawn (add_check c db) = db_drawn db"
  "users (add_check c db) = users db"
  "org_members (add_check c db) = org_members db"
  "monitors (add_check c db) = monitors db"
  "worker_pools (add_check c db) = worker_pools db"
  "worker_pool_credentials (add_check c db) = worker_pool_credentials db"
  "worker_pool_audit_events (add_check c db) = worker_pool_audit_events db"
  "check_jobs (add_check c db) = check_jobs db"
  "check_dispatch_outbox (add_check c db) = check_dispatch_outbox db"
  "check_result_conflicts (add_check c db) = check_result_conflicts db"
  "monitoring_quarantine (add_check c db) = monitoring_quarantine db"
  "monitoring_coverage_gaps (add_check c db) = monitoring_coverage_gaps db"
  "monitoring_operational_events (add_check c db) = monitoring_operational_events db"
  "monitor_schedule_periods (add_check c db) = monitor_schedule_periods db"
  "monitor_rollups_hourly (add_check c db) = monitor_rollups_hourly db"
  "monitor_rollups_daily (add_check c db) = monitor_rollups_daily db"
  "monitor_rollup_invalidations (add_check c db) = monitor_rollup_invalidations db"
  "monitoring_rollup_checkpoint (add_check c db) = monitoring_rollup_checkpoint db"
  "alert_rules (add_check c db) = alert_rules db"
  "incidents (add_check c db) = incidents db"
  "incident_events (add_check c db) = incident_events db"
  "notification_outbox (add_check c db) = notification_outbox db"
  "notification_attempts (add_check c db) = notification_attempts db"
  "api_refresh_events (add_check c db) = api_refresh_events db"
  "monitor_result_evaluations (add_check c db) = monitor_result_evaluations db"
  "monitor_reliability_states (add_check c db) = monitor_reliability_states db"
  "monitor_evaluation_positions (add_check c db) = monitor_evaluation_positions db"
  "monitor_state_correction_events (add_check c db) = monitor_state_correction_events db"
  by (simp_all add: add_check_def)

subsection \<open>Replay\<close>

lemma replay_append:
  "replay m fl rl ob (xs @ ys) = replay m fl rl ob xs @ replay m fl rl (foldl (observe fl rl) ob xs) ys"
  by (induction xs arbitrary: ob) auto

lemma length_replay [simp]: "length (replay m fl rl ob rs) = length rs"
  by (induction rs arbitrary: ob) auto

lemma replay_Nil_iff [simp]: "replay m fl rl ob rs = [] \<longleftrightarrow> rs = []"
  by (cases rs) auto

lemma last_replay:
  "rs \<noteq> [] \<Longrightarrow> last (replay m fl rl ob rs) = evaluation_of m (last rs) (foldl (observe fl rl) ob rs)"
  by (induction rs rule: rev_induct) (auto simp: replay_append)

lemma replay_monitor: "e \<in> set (replay m fl rl ob rs) \<Longrightarrow> ev_monitor_id e = m"
  by (induction rs arbitrary: ob) (auto simp: evaluation_of_def)

lemma replay_keys:
  "(\<And>r. r \<in> set rs \<Longrightarrow> databaseTimestamp (or_scheduledAt r) = or_scheduledAt r)
   \<Longrightarrow> map ev_key (replay m fl rl ob rs) = map or_key rs"
  by (induction rs arbitrary: ob) (auto simp: evaluation_of_def ev_key_def or_key_def)

lemma replay_jobs: "map ev_job_id (replay m fl rl ob rs) = map or_jobID rs"
  by (induction rs arbitrary: ob) (auto simp: evaluation_of_def)

lemma observe_last:
  "rs \<noteq> [] \<Longrightarrow> ob_lastObservedAt (foldl (observe fl rl) ob rs) = Some (or_scheduledAt (last rs)) \<and>
     ob_lastObservedJob (foldl (observe fl rl) ob rs) = Some (or_jobID (last rs))"
  by (induction rs rule: rev_induct) (auto simp: observe_def split: prod.splits)

lemma observe_state_nonempty:
  "ob_observed (observe fl rl ob r) \<noteq> ''''"
  by (auto simp: observe_def advanceObservedState_def Let_def split: prod.splits if_splits)

lemma foldl_observe_nonempty:
  "ob_observed ob \<noteq> '''' \<Longrightarrow> ob_observed (foldl (observe fl rl) ob rs) \<noteq> ''''"
  by (induction rs arbitrary: ob) (auto simp: observe_state_nonempty)

subsection \<open>The loop\<close>

lemma loop_yields:
  assumes "distinct (map or_jobID rs)"
    and "\<forall>r\<in>set rs. \<forall>e\<in>set (monitor_result_evaluations d). ev_job_id e \<noteq> or_jobID r"
  shows "yields (evaluation_loop m fl rl rs ob) d
     (\<lambda>ob' d'. ob' = foldl (observe fl rl) ob rs \<and>
        d' = d\<lparr>monitor_result_evaluations := monitor_result_evaluations d @ replay m fl rl ob rs\<rparr>)"
  using assms
proof (induction rs arbitrary: ob d)
  case Nil
  then show ?case by (auto intro!: yields_done)
next
  case (Cons r rs)
  let ?e = "evaluation_of m r (observe fl rl ob r)"
  let ?d = "d\<lparr>monitor_result_evaluations := monitor_result_evaluations d @ [?e]\<rparr>"
  have "ev_job_id ?e = or_jobID r"
    by (simp add: evaluation_of_def)
  with Cons.prems have stmt: "UpsertMonitorResultEvaluation ?e d = Inr ((), ?d)"
    by (simp add: UpsertMonitorResultEvaluation_def writing_def)
  have "distinct (map or_jobID rs)"
    "\<forall>r\<in>set rs. \<forall>e\<in>set (monitor_result_evaluations ?d). ev_job_id e \<noteq> or_jobID r"
    using Cons.prems by (auto simp: evaluation_of_def)
  note rest = Cons.IH[OF this, of "observe fl rl ob r"]
  show ?case
    unfolding evaluation_loop.simps
    by (rule yields_query, rule stmt, rule yields_weaken[OF rest]) simp
qed

subsection \<open>Splitting the results at the accepted one\<close>

definition check_rows :: "uuid \<Rightarrow> database \<Rightarrow> health_check_row list" where
  "check_rows m db = filter (\<lambda>d. hc_monitor_id d = m \<and> hc_job_type d = ''scheduled'') (health_checks db)"

lemma all_checks_rows: "all_checks m db = map observed_of (sort_key hc_key (check_rows m db))"
  by (simp add: all_checks_def scheduled_checks_def check_rows_def)

lemma or_key_observed_of [simp]: "or_key (observed_of c) = hc_key c"
  by (simp add: observed_of_def or_key_def hc_key_def)

lemma check_rows_keys: "results_wf db \<Longrightarrow> distinct (map hc_key (check_rows m db))"
  by (rule distinct_map_key[of snd]) (simp add: check_rows_def results_wf_def distinct_map_filter o_def hc_key_def)

lemma scheduled_checks_filter:
  assumes "results_wf db"
  shows "scheduled_checks (\<lambda>d. P (hc_key d)) m db = filter (\<lambda>r. P (or_key r)) (all_checks m db)"
proof -
  have "filter (\<lambda>d. hc_monitor_id d = m \<and> hc_job_type d = ''scheduled'' \<and> P (hc_key d)) (health_checks db)
      = filter (\<lambda>d. P (hc_key d)) (check_rows m db)"
    by (simp only: check_rows_def filter_filter conj_assoc)
  then show ?thesis
    by (simp add: scheduled_checks_def all_checks_rows filter_map o_def
        sort_key_filter_unique[OF check_rows_keys[OF assms]])
qed

lemma all_checks_split:
  assumes wf: "results_wf (add_check c db)" and c: "hc_monitor_id c = m" "hc_job_type c = ''scheduled''"
  obtains A B where
    "all_checks m db = A @ B" "all_checks m (add_check c db) = A @ observed_of c # B"
    "\<forall>a\<in>set A. or_key a < hc_key c" "\<forall>b\<in>set B. hc_key c < or_key b"
proof -
  define lo where "lo = filter (\<lambda>d. hc_key d < hc_key c) (sort_key hc_key (check_rows m db))"
  define hi where "hi = filter (\<lambda>d. hc_key c < hc_key d) (sort_key hc_key (check_rows m db))"
  have new: "check_rows m (add_check c db) = check_rows m db @ [c]"
    using c by (simp add: add_check_def check_rows_def)
  have "distinct (map hc_key (check_rows m db @ [c]))"
    using check_rows_keys[OF wf, of m] by (simp only: new)
  note parts = sort_key_snoc[OF this, folded lo_def hi_def]
  show thesis
  proof (rule that[of "map observed_of lo" "map observed_of hi"])
    show "all_checks m db = map observed_of lo @ map observed_of hi"
      by (simp only: all_checks_rows parts(1) map_append)
    show "all_checks m (add_check c db) = map observed_of lo @ observed_of c # map observed_of hi"
      by (simp only: all_checks_rows new parts(2) map_append list.map)
  qed (auto simp: lo_def hi_def)
qed

lemma all_checks_from:
  assumes "r \<in> set (all_checks m db)"
  shows "\<exists>c\<in>set (health_checks db). r = observed_of c \<and> hc_monitor_id c = m \<and> hc_job_type c = ''scheduled''"
  using assms by (auto simp: all_checks_rows check_rows_def)

lemma all_checks_aligned:
  "results_wf db \<Longrightarrow> r \<in> set (all_checks m db) \<Longrightarrow> databaseTimestamp (or_scheduledAt r) = or_scheduledAt r"
  by (drule all_checks_from) (auto simp: results_wf_def observed_of_def)

lemma all_checks_job_nonempty:
  "results_wf db \<Longrightarrow> r \<in> set (all_checks m db) \<Longrightarrow> or_jobID r \<noteq> ''''"
  by (drule all_checks_from) (auto simp: results_wf_def observed_of_def)

lemma all_checks_jobs_distinct: "results_wf db \<Longrightarrow> distinct (map or_jobID (all_checks m db))"
proof -
  assume wf: "results_wf db"
  have "distinct (map hc_job_id (check_rows m db))"
    using wf by (simp add: results_wf_def check_rows_def distinct_map_filter)
  then have "distinct (map hc_job_id (sort_key hc_key (check_rows m db)))"
    by (metis mset_map mset_sort mset_eq_imp_distinct_iff)
  then show ?thesis
    by (simp add: all_checks_rows observed_of_def o_def)
qed

lemma all_checks_sorted: "sorted (map or_key (all_checks m db))"
  by (simp add: all_checks_rows o_def)

subsection \<open>One accepted result\<close>

text \<open>The database after \<open>evaluateTx\<close> has looked up the state row.\<close>

definition ensured :: "uuid \<Rightarrow> database \<Rightarrow> database" where
  "ensured m db = (case EnsureMonitorReliabilityState m db of Inr (_, d) \<Rightarrow> d | Inl _ \<Rightarrow> db)"

lemma Ensure_ensured: "EnsureMonitorReliabilityState m db = Inr ((), ensured m db)"
  by (simp add: ensured_def EnsureMonitorReliabilityState_def writing_def)

lemma ensured_frame [simp]:
  "db_rand (ensured m db) = db_rand db"
  "db_drawn (ensured m db) = db_drawn db"
  "users (ensured m db) = users db"
  "org_members (ensured m db) = org_members db"
  "monitors (ensured m db) = monitors db"
  "worker_pools (ensured m db) = worker_pools db"
  "worker_pool_credentials (ensured m db) = worker_pool_credentials db"
  "worker_pool_audit_events (ensured m db) = worker_pool_audit_events db"
  "check_jobs (ensured m db) = check_jobs db"
  "check_dispatch_outbox (ensured m db) = check_dispatch_outbox db"
  "health_checks (ensured m db) = health_checks db"
  "check_result_conflicts (ensured m db) = check_result_conflicts db"
  "monitoring_quarantine (ensured m db) = monitoring_quarantine db"
  "monitoring_coverage_gaps (ensured m db) = monitoring_coverage_gaps db"
  "monitoring_operational_events (ensured m db) = monitoring_operational_events db"
  "monitor_schedule_periods (ensured m db) = monitor_schedule_periods db"
  "monitor_rollups_hourly (ensured m db) = monitor_rollups_hourly db"
  "monitor_rollups_daily (ensured m db) = monitor_rollups_daily db"
  "monitor_rollup_invalidations (ensured m db) = monitor_rollup_invalidations db"
  "monitoring_rollup_checkpoint (ensured m db) = monitoring_rollup_checkpoint db"
  "alert_rules (ensured m db) = alert_rules db"
  "incidents (ensured m db) = incidents db"
  "incident_events (ensured m db) = incident_events db"
  "notification_outbox (ensured m db) = notification_outbox db"
  "notification_attempts (ensured m db) = notification_attempts db"
  "api_refresh_events (ensured m db) = api_refresh_events db"
  "monitor_result_evaluations (ensured m db) = monitor_result_evaluations db"
  by (simp_all add: ensured_def EnsureMonitorReliabilityState_def writing_def)

lemma ensured_row:
  assumes "\<exists>r\<in>set (monitors db). mon_id r = m"
  obtains row where
    "select_one (\<lambda>r. rs_monitor_id r = m) (monitor_reliability_states (ensured m db)) = Some row"
    "state_observation m db = \<lparr>ob_observed = rs_observed_state row, ob_failures = rs_consecutive_failures row,
       ob_successes = rs_consecutive_successes row,
       ob_lastObservedAt = rs_last_observed_scheduled_at row,
       ob_lastObservedJob = rs_last_observed_job_id row\<rparr>"
proof (cases "select_one (\<lambda>r. rs_monitor_id r = m) (monitor_reliability_states db)")
  case None
  then have "\<not> exists_where (\<lambda>r. rs_monitor_id r = m) (monitor_reliability_states db)"
    by (simp add: select_one_None)
  then have "monitor_reliability_states (ensured m db) = monitor_reliability_states db @ [default_state_row m]"
    using assms by (simp add: ensured_def EnsureMonitorReliabilityState_def writing_def)
  then have "select_one (\<lambda>r. rs_monitor_id r = m) (monitor_reliability_states (ensured m db)) = Some (default_state_row m)"
    using None by (simp add: select_one_append) (simp add: select_one_def default_state_row_def)
  moreover have "state_observation m db = unobserved"
    using None by (simp add: state_observation_def)
  ultimately show thesis
    by (intro that[of "default_state_row m"]) (simp_all add: default_state_row_def unobserved_def)
next
  case (Some row)
  then have "\<exists>r\<in>set (monitor_reliability_states db). rs_monitor_id r = m"
    using select_one_Some[OF Some] by auto
  then have "ensured m db = db"
    by (auto simp: ensured_def EnsureMonitorReliabilityState_def writing_def)
  then show thesis
    using Some that by (simp add: state_observation_def)
qed

definition displayed :: "uuid \<Rightarrow> time option \<Rightarrow> database \<Rightarrow> string \<times> uuid option" where
  "displayed m newest db =
     (case newest of
        None \<Rightarrow> (''unknown'', None)
      | Some t \<Rightarrow>
          (case last_by ev_job_id (\<lambda>e. ev_monitor_id e = m \<and> ev_scheduled_at e = databaseTimestamp t)
                  (monitor_result_evaluations db) of
             None \<Rightarrow> (''unknown'', None)
           | Some e \<Rightarrow> (ev_observed_state e, Some (ev_job_id e))))"

lemma displayed_calm:
  "calm w \<Longrightarrow> displayed_evaluation m newest h k w = k (displayed m newest (work w)) w"
  by (auto simp: displayed_evaluation_def displayed_def GetMonitorEvaluationAtSlot_def calm_reading
      split: option.splits)

text \<open>What evaluation does not write: everything but the state rows, the evaluations, the positions and
  the corrections.\<close>

definition same_inputs :: "database \<Rightarrow> database \<Rightarrow> bool" where
  "same_inputs d d' \<longleftrightarrow>
     db_rand d' = db_rand d \<and> db_drawn d' = db_drawn d \<and> users d' = users d \<and> org_members d' = org_members d \<and>
     monitors d' = monitors d \<and> worker_pools d' = worker_pools d \<and>
     worker_pool_credentials d' = worker_pool_credentials d \<and> worker_pool_audit_events d' = worker_pool_audit_events d \<and>
     check_jobs d' = check_jobs d \<and> check_dispatch_outbox d' = check_dispatch_outbox d \<and>
     health_checks d' = health_checks d \<and> check_result_conflicts d' = check_result_conflicts d \<and>
     monitoring_quarantine d' = monitoring_quarantine d \<and> monitoring_coverage_gaps d' = monitoring_coverage_gaps d \<and>
     monitoring_operational_events d' = monitoring_operational_events d \<and>
     monitor_schedule_periods d' = monitor_schedule_periods d \<and> monitor_rollups_hourly d' = monitor_rollups_hourly d \<and>
     monitor_rollups_daily d' = monitor_rollups_daily d \<and>
     monitor_rollup_invalidations d' = monitor_rollup_invalidations d \<and>
     monitoring_rollup_checkpoint d' = monitoring_rollup_checkpoint d \<and> alert_rules d' = alert_rules d \<and>
     incidents d' = incidents d \<and> incident_events d' = incident_events d \<and>
     notification_outbox d' = notification_outbox d \<and> notification_attempts d' = notification_attempts d \<and>
     api_refresh_events d' = api_refresh_events d"

lemma displayed_yields:
  "yields (displayed_evaluation m newest) d (\<lambda>v d'. v = displayed m newest d \<and> d' = d)"
  unfolding displayed_evaluation_def GetMonitorEvaluationAtSlot_def
  by (cases newest) (auto simp: displayed_def intro!: yields_steps split: option.splits)

lemma record_position_yields:
  "yields (record_position m newest job) d (\<lambda>_ d'. \<exists>X. d' = d\<lparr>monitor_evaluation_positions := X\<rparr>)"
proof (cases newest)
  case None
  have "d = d\<lparr>monitor_evaluation_positions := monitor_evaluation_positions d\<rparr>"
    by simp
  then show ?thesis
    unfolding record_position_def None option.case by (intro yields_done exI)
next
  case (Some t)
  show ?thesis
    unfolding record_position_def Some option.case UpsertMonitorEvaluationPosition_def
    by (intro yields_writing yields_done) auto
qed

lemma record_correction_yields:
  "yields (record_correction m accepted current display) d
     (\<lambda>c d'. c = is_correction accepted current \<and> (\<exists>Y. d' = d\<lparr>monitor_state_correction_events := Y\<rparr>))"
proof -
  have same: "\<exists>Y. d = d\<lparr>monitor_state_correction_events := Y\<rparr>"
    by (rule exI[of _ "monitor_state_correction_events d"]) simp
  show ?thesis
  proof (cases "is_correction accepted current")
    case True
    then obtain a where "accepted = Some a"
      by (cases accepted) (auto simp: is_correction_def)
    with True same show ?thesis
      unfolding record_correction_def InsertMonitorStateCorrection_def
      by (auto intro!: yields_writing yields_done)
  next
    case False
    with same show ?thesis
      unfolding record_correction_def by (auto intro!: yields_done)
  qed
qed

lemma finish_yields:
  assumes ob: "ob_observed ob \<noteq> ''''" "\<forall>j. ob_lastObservedJob ob = Some j \<longrightarrow> j \<noteq> ''''"
    "\<forall>t. ob_lastObservedAt ob = Some t \<longrightarrow> databaseTimestamp t = t"
    and row: "select_one (\<lambda>r. rs_monitor_id r = m) (monitor_reliability_states d) = Some row"
  shows "yields (evaluation_finish m accepted now current ob) d
    (\<lambda>c d'. c = is_correction accepted current \<and> same_inputs d d' \<and>
       monitor_result_evaluations d' = monitor_result_evaluations d \<and> state_observation m d' = ob)"
  unfolding evaluation_finish_def GetNewestExpectedMonitorSlot_def UpdateMonitorReliabilityState_def
proof (rule yields_reading, rule yields_bind[OF displayed_yields], rule yields_writing,
    rule yields_bind[OF record_position_yields], rule yields_weaken[OF record_correction_yields], goal_cases)
  case (1 shown d0 u d1 c d2)
  then show ?case
    using row ob
    by (cases "ob_lastObservedAt ob"; cases "ob_lastObservedJob ob")
      (auto simp: same_inputs_def state_observation_def select_one_update nullif_empty_def optionalDatabaseString_def)
qed

lemma foreign_evaluation_jobs:
  assumes wf: "results_wf (add_check c db)" and e: "e \<in> set (monitor_result_evaluations db)"
    and r: "r \<in> set (all_checks m (add_check c db))" and job: "ev_job_id e = or_jobID r"
  shows "ev_monitor_id e = m"
proof -
  obtain d where d: "d \<in> set (health_checks (add_check c db))" "hc_job_id d = or_jobID r" "hc_monitor_id d = m"
    using all_checks_from[OF r] by (auto simp: observed_of_def)
  have "\<exists>d'\<in>set (health_checks (add_check c db)). hc_job_id d' = ev_job_id e \<and> hc_monitor_id d' = ev_monitor_id e"
    using wf e by (simp add: results_wf_def)
  then obtain d' where d': "d' \<in> set (health_checks (add_check c db))" "hc_job_id d' = ev_job_id e"
    "hc_monitor_id d' = ev_monitor_id e"
    by blast
  have "inj_on hc_job_id (set (health_checks (add_check c db)))"
    using wf by (simp add: results_wf_def distinct_map)
  with d d' job show ?thesis
    by (metis inj_onD)
qed

lemma monitor_evaluations_split:
  assumes wf: "results_wf (add_check c db)" and rep: "monitor_evaluations m db = replay m fl rl ob (A @ B)"
    and new: "all_checks m (add_check c db) = A @ observed_of c # B"
    and A: "\<forall>a\<in>set A. or_key a < hc_key c" and B: "\<forall>b\<in>set B. hc_key c < or_key b"
  shows "sort_key ev_key (filter (\<lambda>e. ev_monitor_id e = m \<and> ev_key e < hc_key c) (monitor_result_evaluations db))
     = replay m fl rl ob A"
proof -
  let ?E = "filter (\<lambda>e. ev_monitor_id e = m) (monitor_result_evaluations db)"
  have "distinct (map (snd \<circ> ev_key) ?E)"
    using wf by (simp add: results_wf_def add_check_def distinct_map_filter ev_key_def o_def)
  then have keys: "distinct (map ev_key ?E)"
    by (rule distinct_map_key)
  have aligned: "databaseTimestamp (or_scheduledAt r) = or_scheduledAt r" if "r \<in> set (A @ B)" for r
    using all_checks_aligned[OF wf, of r m] that new by auto
  have "sort_key ev_key (filter (\<lambda>e. ev_monitor_id e = m \<and> ev_key e < hc_key c) (monitor_result_evaluations db))
      = filter (\<lambda>e. ev_key e < hc_key c) (monitor_evaluations m db)"
    unfolding monitor_evaluations_def sort_key_filter_unique[OF keys, symmetric] filter_filter
    by (simp only: conj_commute)
  also have "\<dots> = filter (\<lambda>e. ev_key e < hc_key c) (replay m fl rl ob A @ replay m fl rl (foldl (observe fl rl) ob A) B)"
    by (simp only: rep replay_append)
  also have "\<dots> = replay m fl rl ob A"
  proof -
    have "ev_key ` set (replay m fl rl ob A) = or_key ` set A" for ob
      using replay_keys[of A m fl rl ob] aligned by (metis UnCI list.set_map set_append)
    then have "\<forall>e\<in>set (replay m fl rl ob A). ev_key e < hc_key c" for ob
      using A by (metis (no_types, lifting) imageE imageI)
    moreover have "ev_key ` set (replay m fl rl ob B) = or_key ` set B" for ob
      using replay_keys[of B m fl rl ob] aligned by (metis UnCI list.set_map set_append)
    then have "\<forall>e\<in>set (replay m fl rl ob B). \<not> ev_key e < hc_key c" for ob
      using B by (metis (no_types, lifting) imageE imageI less_asym)
    ultimately show ?thesis
      by (simp add: filter_id_conv[THEN iffD2] filter_empty_conv[THEN iffD2])
  qed
  finally show ?thesis .
qed

definition kept_evaluations :: "uuid \<Rightarrow> health_check_row \<Rightarrow> database \<Rightarrow> evaluation_row list" where
  "kept_evaluations m c db =
     filter (\<lambda>e. \<not> (ev_monitor_id e = m \<and> ev_key e \<ge> hc_key c)) (monitor_result_evaluations db)"

text \<open>A result \<open>c\<close> that splits the monitor's results into \<open>A\<close> before it and \<open>B\<close> after it.\<close>

definition accepted_between ::
  "uuid \<Rightarrow> int \<Rightarrow> int \<Rightarrow> health_check_row \<Rightarrow> database \<Rightarrow> observed_result list \<Rightarrow> observed_result list \<Rightarrow> bool" where
  "accepted_between m fl rl c db A B \<longleftrightarrow>
     results_wf (add_check c db) \<and> hc_monitor_id c = m \<and> hc_job_type c = ''scheduled'' \<and>
     all_checks m db = A @ B \<and> all_checks m (add_check c db) = A @ observed_of c # B \<and>
     (\<forall>a\<in>set A. or_key a < hc_key c) \<and> (\<forall>b\<in>set B. hc_key c < or_key b) \<and>
     monitor_evaluations m db = replay m fl rl unobserved (A @ B)"

lemma accepted_betweenD:
  assumes "accepted_between m fl rl c db A B"
  shows "results_wf (add_check c db)" "hc_monitor_id c = m" "hc_job_type c = ''scheduled''"
    "all_checks m db = A @ B" "all_checks m (add_check c db) = A @ observed_of c # B"
    "\<forall>a\<in>set A. or_key a < hc_key c" "\<forall>b\<in>set B. hc_key c < or_key b"
    "monitor_evaluations m db = replay m fl rl unobserved (A @ B)"
  using assms unfolding accepted_between_def by blast+

lemma kept_sorted:
  assumes "accepted_between m fl rl c db A B"
  shows "sort_key ev_key (filter (\<lambda>e. ev_monitor_id e = m \<and> ev_key e < hc_key c) (monitor_result_evaluations db))
     = replay m fl rl unobserved A"
  by (rule monitor_evaluations_split[OF accepted_betweenD(1,8,5,6,7)[OF assms]])

lemma kept_jobs:
  assumes "accepted_between m fl rl c db A B" "e \<in> set (kept_evaluations m c db)"
    and r: "r \<in> set (observed_of c # B)"
  shows "ev_job_id e \<noteq> or_jobID r"
proof
  assume job: "ev_job_id e = or_jobID r"
  note ab = accepted_betweenD[OF assms(1)]
  have mem: "e \<in> set (monitor_result_evaluations db)" and "\<not> (ev_monitor_id e = m \<and> ev_key e \<ge> hc_key c)"
    using assms(2) by (auto simp: kept_evaluations_def)
  moreover have "r \<in> set (all_checks m (add_check c db))"
    using r ab(5) by auto
  then have "ev_monitor_id e = m"
    using foreign_evaluation_jobs[OF ab(1) mem] job by blast
  ultimately have "e \<in> set (filter (\<lambda>e. ev_monitor_id e = m \<and> ev_key e < hc_key c) (monitor_result_evaluations db))"
    by (simp add: not_le)
  then have "e \<in> set (replay m fl rl unobserved A)"
    unfolding kept_sorted[OF assms(1), symmetric] set_sort .
  then have "ev_job_id e \<in> set (map or_jobID A)"
    by (metis image_eqI list.set_map replay_jobs)
  moreover have "distinct (map or_jobID (A @ observed_of c # B))"
    using all_checks_jobs_distinct[OF ab(1), of m] ab(5) by simp
  ultimately show False
    using r job by auto
qed

lemma rebuilt_evaluations:
  assumes ab: "accepted_between m fl rl c db A B"
  defines "E \<equiv> kept_evaluations m c db @ replay m fl rl (foldl (observe fl rl) unobserved A) (observed_of c # B)"
  shows "sort_key ev_key (filter (\<lambda>e. ev_monitor_id e = m) E) = replay m fl rl unobserved (A @ observed_of c # B)"
    "distinct (map ev_job_id E)"
    "\<forall>e\<in>set E. \<exists>d\<in>set (health_checks (add_check c db)). hc_job_id d = ev_job_id e \<and> hc_monitor_id d = ev_monitor_id e"
proof -
  note ab' = accepted_betweenD[OF ab]
  let ?R = "replay m fl rl (foldl (observe fl rl) unobserved A) (observed_of c # B)"
  let ?K = "filter (\<lambda>e. ev_monitor_id e = m \<and> ev_key e < hc_key c) (monitor_result_evaluations db)"
  note wf = ab'(1)
  have R_m: "filter (\<lambda>e. ev_monitor_id e = m) ?R = ?R"
    unfolding filter_id_conv using replay_monitor by blast
  have K_m: "filter (\<lambda>e. ev_monitor_id e = m) (kept_evaluations m c db) = ?K"
    unfolding kept_evaluations_def filter_filter by (rule filter_cong) auto
  note K_sorted = kept_sorted[OF ab]
  have "distinct (map ev_job_id (kept_evaluations m c db))"
    using wf by (simp add: results_wf_def kept_evaluations_def distinct_map_filter)
  moreover have "distinct (map or_jobID (A @ observed_of c # B))"
    using all_checks_jobs_distinct[OF wf, of m] ab'(5) by simp
  then have "distinct (map ev_job_id ?R)"
    by (simp only: replay_jobs map_append distinct_append)
  moreover have "set (map ev_job_id (kept_evaluations m c db)) \<inter> set (map ev_job_id ?R) = {}"
    unfolding replay_jobs using kept_jobs[OF ab] by fastforce
  ultimately show dist: "distinct (map ev_job_id E)"
    by (simp add: E_def)
  show "\<forall>e\<in>set E. \<exists>d\<in>set (health_checks (add_check c db)). hc_job_id d = ev_job_id e \<and> hc_monitor_id d = ev_monitor_id e"
  proof
    fix e assume "e \<in> set E"
    then consider "e \<in> set (monitor_result_evaluations db)" | "e \<in> set ?R"
      by (auto simp: E_def kept_evaluations_def simp del: replay.simps)
    then show "\<exists>d\<in>set (health_checks (add_check c db)). hc_job_id d = ev_job_id e \<and> hc_monitor_id d = ev_monitor_id e"
    proof cases
      case 1
      then show ?thesis using wf by (simp add: results_wf_def)
    next
      case 2
      then have "ev_job_id e \<in> set (map or_jobID (observed_of c # B))"
        by (metis image_eqI list.set_map replay_jobs)
      then obtain r where "r \<in> set (all_checks m (add_check c db))" "ev_job_id e = or_jobID r"
        unfolding ab'(5) by auto
      then show ?thesis
        using all_checks_from[of r m "add_check c db"] replay_monitor[OF 2] by (auto simp: observed_of_def)
    qed
  qed
  have "distinct (map (snd \<circ> ev_key) (filter (\<lambda>e. ev_monitor_id e = m) E))"
    using dist by (simp add: ev_key_def o_def distinct_map_filter)
  then have keys: "distinct (map ev_key (filter (\<lambda>e. ev_monitor_id e = m) E))"
    by (rule distinct_map_key)
  have whole: "replay m fl rl unobserved (A @ observed_of c # B) = replay m fl rl unobserved A @ ?R"
    by (simp only: replay_append)
  have Eset: "set (filter (\<lambda>e. ev_monitor_id e = m) E) = set (replay m fl rl unobserved (A @ observed_of c # B))"
    unfolding E_def filter_append K_m R_m whole set_append K_sorted[symmetric] set_sort ..
  have aligned: "databaseTimestamp (or_scheduledAt r) = or_scheduledAt r" if "r \<in> set (A @ observed_of c # B)" for r
    using all_checks_aligned[OF wf, of r m] that ab'(5) by simp
  have order: "map ev_key (replay m fl rl unobserved (A @ observed_of c # B)) = map or_key (A @ observed_of c # B)"
    using aligned by (rule replay_keys)
  show "sort_key ev_key (filter (\<lambda>e. ev_monitor_id e = m) E) = replay m fl rl unobserved (A @ observed_of c # B)"
  proof (rule sort_key_unique[OF keys _ Eset])
    have "distinct (map (snd \<circ> or_key) (all_checks m (add_check c db)))"
      using all_checks_jobs_distinct[OF wf, of m] by (simp add: or_key_def o_def)
    then have "distinct (map or_key (all_checks m (add_check c db)))"
      by (rule distinct_map_key)
    then show "distinct (map ev_key (replay m fl rl unobserved (A @ observed_of c # B)))"
      unfolding order ab'(5) .
    show "sorted (map ev_key (replay m fl rl unobserved (A @ observed_of c # B)))"
      unfolding order using all_checks_sorted[of m "add_check c db"] unfolding ab'(5) .
  qed
qed

lemma evaluation_unchanged_inputs:
  "health_checks d = health_checks d' \<Longrightarrow> scheduled_checks p m d = scheduled_checks p m d'"
  by (simp add: scheduled_checks_def)

lemma slot_key: "(as_scheduled (slot_of c), as_jobID (slot_of c)) = hc_key c"
  by (simp add: slot_of_def hc_key_def)

definition snapshot_observation :: "stateSnapshot \<Rightarrow> observation" where
  "snapshot_observation s =
     \<lparr>ob_observed = ss_observed s, ob_failures = ss_failures s, ob_successes = ss_successes s,
      ob_lastObservedAt = ss_lastObservedAt s, ob_lastObservedJob = ss_lastObservedJob s\<rparr>"

lemma snapshot_last:
  assumes "snapshot_observation s = ob"
  shows "ss_lastObservedAt s = ob_lastObservedAt ob" "ss_lastObservedJob s = ob_lastObservedJob ob"
  using assms by (auto simp: snapshot_observation_def)

lemma is_correction_iff:
  assumes ab: "accepted_between m fl rl c db A B"
    and cur: "snapshot_observation current = foldl (observe fl rl) unobserved (A @ B)"
  shows "is_correction (Some (slot_of c)) current \<longleftrightarrow> B \<noteq> []"
proof (cases "A @ B = []")
  case True
  then show ?thesis
    using snapshot_last[OF cur] by (simp add: is_correction_def unobserved_def)
next
  case False
  have "is_correction (Some (slot_of c)) current \<longleftrightarrow> \<not> or_key (last (A @ B)) < hc_key c"
    using observe_last[OF False, of fl rl unobserved] snapshot_last[OF cur]
    by (simp add: is_correction_def orderAfter_iff slot_key) (simp add: or_key_def)
  also have "\<dots> \<longleftrightarrow> B \<noteq> []"
  proof (cases "B = []")
    case True
    with False accepted_betweenD(6)[OF ab] show ?thesis by simp
  next
    case False
    with accepted_betweenD(7)[OF ab] have "hc_key c < or_key (last (A @ B))" by simp
    with False show ?thesis by (simp add: not_less less_imp_le)
  qed
  finally show ?thesis .
qed

text \<open>In order: nothing follows the accepted result.\<close>

lemma kept_all:
  assumes ab: "accepted_between m fl rl c db A []"
  shows "kept_evaluations m c db = monitor_result_evaluations db"
proof -
  have "ev_key e < hc_key c" if "e \<in> set (monitor_result_evaluations db)" "ev_monitor_id e = m" for e
  proof -
    have "e \<in> set (monitor_evaluations m db)"
      using that by (simp add: monitor_evaluations_def)
    also have "monitor_evaluations m db = replay m fl rl unobserved A"
      using accepted_betweenD(8)[OF ab] by simp
    also have "set \<dots> = set (filter (\<lambda>e. ev_monitor_id e = m \<and> ev_key e < hc_key c) (monitor_result_evaluations db))"
      unfolding kept_sorted[OF ab, symmetric] set_sort ..
    finally show ?thesis by simp
  qed
  then show ?thesis
    unfolding kept_evaluations_def filter_id_conv by (auto simp: not_le)
qed

lemma results_after_last:
  assumes ab: "accepted_between m fl rl c db A []" and A: "A \<noteq> []"
    and d: "health_checks d = health_checks (add_check c db)"
  shows "scheduled_checks (\<lambda>e. hc_key e > or_key (last A)) m d = [observed_of c]"
proof -
  note ab' = accepted_betweenD[OF ab]
  let ?k = "or_key (last A)"
  have "sorted (map or_key A)"
    using all_checks_sorted[of m db] ab'(4) by simp
  then have "\<forall>a\<in>set A. or_key a \<le> ?k"
    using A by (induction A) (auto split: if_splits)
  then have "filter (\<lambda>r. or_key r > ?k) A = []"
    by (auto simp: filter_empty_conv not_less)
  moreover have "?k < hc_key c"
    using ab'(6) A by simp
  moreover have "scheduled_checks (\<lambda>e. hc_key e > ?k) m d = filter (\<lambda>r. or_key r > ?k) (A @ [observed_of c])"
    using scheduled_checks_filter[OF ab'(1), of "\<lambda>k. k > ?k" m] evaluation_unchanged_inputs[OF d] ab'(5)
    by simp
  ultimately show ?thesis by simp
qed

lemma results_in_order:
  assumes ab: "accepted_between m fl rl c db A []"
    and d: "health_checks d = health_checks (add_check c db)"
    and cur: "snapshot_observation current = foldl (observe fl rl) unobserved A"
  shows "yields (evaluation_results m (Some (slot_of c)) current) d (\<lambda>rs d'. rs = [observed_of c] \<and> d' = d)"
proof -
  note ab' = accepted_betweenD[OF ab]
  have nc: "\<not> is_correction (Some (slot_of c)) current"
    using is_correction_iff[OF ab] cur by simp
  show ?thesis
  proof (cases "A = []")
    case True
    have "scheduled_checks (\<lambda>c. True) m d = [observed_of c]"
      using ab'(5) True evaluation_unchanged_inputs[OF d] by (simp add: all_checks_def)
    then show ?thesis
      unfolding evaluation_results_def ListAllScheduledHealthChecks_def
      using nc True snapshot_last[OF cur]
      by (auto simp: unobserved_def intro!: yields_reading yields_done)
  next
    case False
    have "databaseTimestamp (or_scheduledAt (last A)) = or_scheduledAt (last A)"
      using all_checks_aligned[OF ab'(1), of "last A" m] False ab'(5) by simp
    then have lastk: "(databaseTimestamp (or_scheduledAt (last A)), or_jobID (last A)) = or_key (last A)"
      by (simp add: or_key_def)
    show ?thesis
      unfolding evaluation_results_def ListScheduledHealthChecksAfter_def
      using nc observe_last[OF False, of fl rl unobserved] lastk snapshot_last[OF cur]
        results_after_last[OF ab False d]
      by (auto intro!: yields_reading yields_done)
  qed
qed

lemma core_in_order:
  assumes ab: "accepted_between m fl rl c db A []"
    and d: "health_checks d = health_checks (add_check c db)"
      "monitor_result_evaluations d = monitor_result_evaluations db"
    and cur: "snapshot_observation current = foldl (observe fl rl) unobserved A"
  shows "yields (evaluation_core m (Some (slot_of c)) current (fl, rl)) d
      (\<lambda>ob d'. ob = foldl (observe fl rl) unobserved (A @ [observed_of c]) \<and>
         d' = d\<lparr>monitor_result_evaluations := kept_evaluations m c db @
           replay m fl rl (foldl (observe fl rl) unobserved A) [observed_of c]\<rparr>)"
proof -
  have "\<not> is_correction (Some (slot_of c)) current"
    using is_correction_iff[OF ab] cur by simp
  then show ?thesis
    unfolding evaluation_core_def evaluation_baseline_def
    apply simp
    apply (rule yields_bind[OF results_in_order[OF ab d(1) cur]])
    apply (rule yields_weaken[OF loop_yields])
    using kept_jobs[OF ab] kept_all[OF ab] d(2) cur
    apply (auto simp: snapshot_observation_def)
    done
qed

text \<open>Late: the results after the accepted one are evaluated again.\<close>

lemma baseline_late:
  assumes ab: "accepted_between m fl rl c db A B" and B: "B \<noteq> []"
    and d: "monitor_result_evaluations d = monitor_result_evaluations db"
    and cur: "snapshot_observation current = foldl (observe fl rl) unobserved (A @ B)"
  shows "yields (evaluation_baseline m (Some (slot_of c)) current) d
     (\<lambda>b d'. snapshot_observation b = foldl (observe fl rl) unobserved A \<and>
        d' = d\<lparr>monitor_result_evaluations := kept_evaluations m c db\<rparr>)"
proof -
  note ab' = accepted_betweenD[OF ab]
  have corr: "is_correction (Some (slot_of c)) current"
    using is_correction_iff[OF ab cur] B by simp
  have "c \<in> set (health_checks (add_check c db))"
    by (simp add: add_check_def)
  then have "databaseTimestamp (hc_scheduled_at c) = hc_scheduled_at c"
    using ab'(1) by (simp add: results_wf_def)
  then have key: "(databaseTimestamp (as_scheduled (slot_of c)), as_jobID (slot_of c)) = hc_key c"
    by (simp add: slot_of_def hc_key_def)
  have previous: "snapshot_observation (baseline_of (last_by ev_key (\<lambda>e. ev_monitor_id e = m \<and> ev_key e < hc_key c)
      (monitor_result_evaluations d))) = foldl (observe fl rl) unobserved A"
  proof (cases "A = []")
    case True
    then show ?thesis
      unfolding last_by_sorted d kept_sorted[OF ab]
      by (simp add: baseline_of_def snapshot_observation_def unobserved_def)
  next
    case False
    have "databaseTimestamp (or_scheduledAt (last A)) = or_scheduledAt (last A)"
      using all_checks_aligned[OF ab'(1), of "last A" m] False ab'(5) by simp
    moreover have "foldl (observe fl rl) unobserved A = ob \<Longrightarrow>
       ob_lastObservedAt ob = Some (or_scheduledAt (last A)) \<and> ob_lastObservedJob ob = Some (or_jobID (last A))" for ob
      using observe_last[OF False] by blast
    ultimately show ?thesis
      unfolding last_by_sorted d kept_sorted[OF ab]
      using False by (simp add: baseline_of_def snapshot_observation_def last_replay evaluation_of_def)
  qed
  show ?thesis
    unfolding evaluation_baseline_def GetReliabilityBaselineBefore_def DeleteReliabilityEvaluationsFrom_def
    using corr previous d
    by (auto simp: key kept_evaluations_def intro!: yields_reading yields_writing yields_done)
qed

lemma results_late:
  assumes ab: "accepted_between m fl rl c db A B" and B: "B \<noteq> []"
    and d: "health_checks d = health_checks (add_check c db)"
    and cur: "snapshot_observation current = foldl (observe fl rl) unobserved (A @ B)"
  shows "yields (evaluation_results m (Some (slot_of c)) current) d (\<lambda>rs d'. rs = observed_of c # B \<and> d' = d)"
proof -
  note ab' = accepted_betweenD[OF ab]
  have corr: "is_correction (Some (slot_of c)) current"
    using is_correction_iff[OF ab cur] B by simp
  have "c \<in> set (health_checks (add_check c db))"
    by (simp add: add_check_def)
  then have "databaseTimestamp (hc_scheduled_at c) = hc_scheduled_at c"
    using ab'(1) by (simp add: results_wf_def)
  then have key: "(databaseTimestamp (as_scheduled (slot_of c)), as_jobID (slot_of c)) = hc_key c"
    by (simp add: slot_of_def hc_key_def)
  have "filter (\<lambda>r. or_key r \<ge> hc_key c) A = []" "filter (\<lambda>r. or_key r \<ge> hc_key c) B = B"
    using ab'(6,7) unfolding filter_empty_conv filter_id_conv by (auto simp: not_le)
  then have "filter (\<lambda>r. or_key r \<ge> hc_key c) (A @ observed_of c # B) = observed_of c # B"
    by simp
  then have "scheduled_checks (\<lambda>e. hc_key e \<ge> hc_key c) m d = observed_of c # B"
    using scheduled_checks_filter[OF ab'(1), of "\<lambda>k. k \<ge> hc_key c" m] evaluation_unchanged_inputs[OF d] ab'(5)
    by simp
  then show ?thesis
    unfolding evaluation_results_def ListScheduledHealthChecksFrom_def
    using corr by (auto simp: key intro!: yields_reading yields_done)
qed

lemma core_yields:
  assumes ab: "accepted_between m fl rl c db A B"
    and d: "health_checks d = health_checks (add_check c db)"
      "monitor_result_evaluations d = monitor_result_evaluations db"
    and cur: "snapshot_observation current = foldl (observe fl rl) unobserved (A @ B)"
  shows "yields (evaluation_core m (Some (slot_of c)) current (fl, rl)) d
      (\<lambda>ob d'. ob = foldl (observe fl rl) unobserved (A @ observed_of c # B) \<and>
         d' = d\<lparr>monitor_result_evaluations := kept_evaluations m c db @
           replay m fl rl (foldl (observe fl rl) unobserved A) (observed_of c # B)\<rparr>)"
proof (cases "B = []")
  case True
  then show ?thesis
    using core_in_order[of m fl rl c db A d current] assms by simp
next
  case False
  have jobs: "distinct (map or_jobID (observed_of c # B))"
    using all_checks_jobs_distinct[OF accepted_betweenD(1)[OF ab], of m] accepted_betweenD(5)[OF ab] by auto
  show ?thesis
    unfolding evaluation_core_def fst_conv snd_conv
  proof (rule yields_bind[OF baseline_late[OF ab False d(2) cur]], goal_cases)
    case (1 b d1)
    then have d1: "health_checks d1 = health_checks (add_check c db)"
      using d(1) by simp
    show ?case
    proof (rule yields_bind[OF results_late[OF ab False d1 cur]], goal_cases)
      case (1 rs d2)
      with \<open>snapshot_observation b = _ \<and> _\<close> jobs kept_jobs[OF ab] show ?case
        by (intro yields_weaken[OF loop_yields]) (auto simp: snapshot_observation_def)
    qed
  qed
qed

lemma snapshot_of_row:
  assumes "\<forall>j. rs_last_observed_job_id row = Some j \<longrightarrow> j \<noteq> ''''"
  shows "snapshot_observation (snapshot_of row) =
    \<lparr>ob_observed = rs_observed_state row, ob_failures = rs_consecutive_failures row,
     ob_successes = rs_consecutive_successes row, ob_lastObservedAt = rs_last_observed_scheduled_at row,
     ob_lastObservedJob = rs_last_observed_job_id row\<rparr>"
  using assms
  by (cases "rs_last_observed_job_id row")
    (auto simp: snapshot_observation_def snapshot_of_def optionalString_def coalesce_empty_def)

definition sound_result :: "observed_result \<Rightarrow> bool" where
  "sound_result r \<longleftrightarrow> or_jobID r \<noteq> [] \<and> databaseTimestamp (or_scheduledAt r) = or_scheduledAt r"

lemma all_checks_sound: "results_wf db \<Longrightarrow> r \<in> set (all_checks m db) \<Longrightarrow> sound_result r"
  using all_checks_job_nonempty all_checks_aligned by (simp add: sound_result_def)

lemma replayed_observation:
  assumes sound: "\<forall>r\<in>set rs. sound_result r" and ob: "ob = foldl (observe fl rl) unobserved rs"
  shows "ob_observed ob \<noteq> []" "\<forall>j. ob_lastObservedJob ob = Some j \<longrightarrow> j \<noteq> []"
    "\<forall>t. ob_lastObservedAt ob = Some t \<longrightarrow> databaseTimestamp t = t"
proof -
  show "ob_observed ob \<noteq> []"
    unfolding ob by (rule foldl_observe_nonempty) (simp add: unobserved_def)
  show "\<forall>j. ob_lastObservedJob ob = Some j \<longrightarrow> j \<noteq> []" "\<forall>t. ob_lastObservedAt ob = Some t \<longrightarrow> databaseTimestamp t = t"
    unfolding ob using sound observe_last[of rs fl rl unobserved]
    by (cases "rs = []"; force simp: unobserved_def sound_result_def)+
qed

lemma ordered_stateD:
  assumes "ordered_state m db" "limits m db = (fl, rl)"
  shows "monitor_evaluations m db = replay m fl rl unobserved (all_checks m db)"
    "state_observation m db = foldl (observe fl rl) unobserved (all_checks m db)"
  using assms by (auto simp: ordered_state_def)

lemma results_wf_before:
  assumes "results_wf (add_check c db)" "ordered_state m db" "hc_monitor_id c = m" "hc_job_type c = ''scheduled''"
  obtains fl rl A B where "limits m db = (fl, rl)" "accepted_between m fl rl c db A B"
    "state_observation m db = foldl (observe fl rl) unobserved (A @ B)"
proof -
  obtain fl rl where l: "limits m db = (fl, rl)"
    by (cases "limits m db")
  obtain A B where AB: "all_checks m db = A @ B" "all_checks m (add_check c db) = A @ observed_of c # B"
    "\<forall>a\<in>set A. or_key a < hc_key c" "\<forall>b\<in>set B. hc_key c < or_key b"
    by (rule all_checks_split[OF assms(1,3,4)])
  have "accepted_between m fl rl c db A B"
    unfolding accepted_between_def using assms AB ordered_stateD(1)[OF assms(2) l] by simp
  with l AB(1) ordered_stateD(2)[OF assms(2) l] show thesis
    by (intro that) simp_all
qed

lemma evaluateTx_yields:
  assumes wf: "results_wf (add_check c db)" and ord: "ordered_state m db"
    and mon: "\<exists>r\<in>set (monitors db). mon_id r = m"
    and c: "hc_monitor_id c = m" "hc_job_type c = ''scheduled''"
  shows "yields (evaluateTx m (Some (slot_of c)) now) (add_check c db)
    (\<lambda>corrected d'. ordered_state m d' \<and> results_wf d' \<and> same_inputs (add_check c db) d' \<and>
       corrected = (\<exists>r\<in>set (all_checks m db). hc_key c < or_key r))"
proof -
  obtain fl rl A B where l: "limits m db = (fl, rl)" and ab: "accepted_between m fl rl c db A B"
    and obs: "state_observation m db = foldl (observe fl rl) unobserved (A @ B)"
    by (rule results_wf_before[OF wf ord c])
  note ab' = accepted_betweenD[OF ab]
  let ?d = "ensured m (add_check c db)"
  obtain row where row: "select_one (\<lambda>r. rs_monitor_id r = m) (monitor_reliability_states ?d) = Some row"
    and row_obs: "state_observation m (add_check c db) = \<lparr>ob_observed = rs_observed_state row,
       ob_failures = rs_consecutive_failures row, ob_successes = rs_consecutive_successes row,
       ob_lastObservedAt = rs_last_observed_scheduled_at row,
       ob_lastObservedJob = rs_last_observed_job_id row\<rparr>"
    using mon by (elim ensured_row[of "add_check c db" m, simplified]) auto
  have same_obs: "state_observation m (add_check c db) = state_observation m db"
    by (simp add: state_observation_def)
  have sound: "\<forall>r\<in>set (A @ observed_of c # B). sound_result r"
    using all_checks_sound[OF ab'(1), of _ m] by (simp add: ab'(5))
  then have "\<forall>j. ob_lastObservedJob (state_observation m db) = Some j \<longrightarrow> j \<noteq> []"
    using replayed_observation(2)[of "A @ B", OF _ obs] by auto
  then have cur: "snapshot_observation (snapshot_of row) = foldl (observe fl rl) unobserved (A @ B)"
    using snapshot_of_row[of row] row_obs same_obs obs by simp
  have corrected: "is_correction (Some (slot_of c)) (snapshot_of row) = (\<exists>r\<in>set (all_checks m db). hc_key c < or_key r)"
    unfolding is_correction_iff[OF ab cur] ab'(4) using ab'(6,7) by (cases B) (auto dest: less_asym)
  have lims: "(case map_option (\<lambda>r. (ar_failure_threshold r, ar_recovery_threshold r))
      (select_one (\<lambda>r. ar_monitor_id r = m \<and> ar_rule_key r = ''consecutive_failures'' \<and> ar_enabled r)
        (alert_rules ?d)) of None \<Rightarrow> (failureThreshold, recoveryThreshold) | Some t \<Rightarrow> t) = (fl, rl)"
    using l by (simp add: limits_def split: option.splits)
  note table = rebuilt_evaluations[OF ab]
  show ?thesis
    unfolding evaluateTx_def LockMonitorReliabilityState_def GetMonitorAlertThresholds_def
  proof (rule yields_query, rule Ensure_ensured, rule yields_reading, simp only: row option.case,
      rule yields_reading, simp only: lims, rule yields_bind[OF core_yields[OF ab _ _ cur]], goal_cases)
    case (3 ob d1)
    note ob = replayed_observation[OF sound 3[THEN conjunct1]]
    have "select_one (\<lambda>r. rs_monitor_id r = m) (monitor_reliability_states d1) = Some row"
      using 3 row by simp
    then show ?case
    proof (rule yields_weaken[OF finish_yields[OF ob]], goal_cases)
      case (1 corr d2)
      then have d2: "health_checks d2 = health_checks (add_check c db)" "alert_rules d2 = alert_rules db"
        "monitor_result_evaluations d2 = monitor_result_evaluations d1"
        using 3 by (simp_all add: same_inputs_def)
      have "all_checks m d2 = A @ observed_of c # B" "limits m d2 = (fl, rl)"
        using ab'(5) l d2 evaluation_unchanged_inputs[OF d2(1)] by (simp_all add: all_checks_def limits_def)
      moreover have "monitor_evaluations m d2 = replay m fl rl unobserved (A @ observed_of c # B)"
        using table(1) d2 3 by (simp add: monitor_evaluations_def)
      ultimately have "ordered_state m d2"
        using 1 3 by (simp add: ordered_state_def)
      moreover have "results_wf d2"
        using ab'(1) table(2,3) d2 3 by (simp add: results_wf_def)
      ultimately show ?case
        using 1 3 corrected by (simp add: same_inputs_def)
    qed
  qed simp_all
qed

subsection \<open>Evaluation keeps the tables consistent\<close>

text \<open>Also where the stored evaluations are not those of an ordered replay, evaluating a monitor keeps
  one evaluation for each evaluated result and writes to no table that it reads its input from.\<close>

definition evaluation_kept :: "database \<Rightarrow> database \<Rightarrow> bool" where
  "evaluation_kept d d' \<longleftrightarrow> results_wf d' \<and> same_inputs d d'"

lemma same_inputs_trans: "same_inputs a b \<Longrightarrow> same_inputs b c \<Longrightarrow> same_inputs a c"
  by (simp add: same_inputs_def)

lemma same_inputs_refl [simp]: "same_inputs d d"
  by (simp add: same_inputs_def)

lemma evaluation_kept_trans: "evaluation_kept a b \<Longrightarrow> evaluation_kept b c \<Longrightarrow> evaluation_kept a c"
  by (auto simp: evaluation_kept_def intro: same_inputs_trans)

definition of_monitor :: "uuid \<Rightarrow> database \<Rightarrow> observed_result \<Rightarrow> bool" where
  "of_monitor m d r \<longleftrightarrow> (\<exists>c\<in>set (health_checks d). hc_job_id c = or_jobID r \<and> hc_monitor_id c = m)"

lemma of_monitor_same: "same_inputs d d' \<Longrightarrow> of_monitor m d' r = of_monitor m d r"
  by (simp add: of_monitor_def same_inputs_def)

lemma scheduled_checks_of_monitor: "r \<in> set (scheduled_checks p m d) \<Longrightarrow> of_monitor m d r"
  by (auto simp: scheduled_checks_def of_monitor_def observed_of_def)

lemma upsert_kept:
  assumes "results_wf d" "of_monitor m d r"
  shows "yields (\<lambda>h k. query (UpsertMonitorResultEvaluation (evaluation_of m r ob)) (h \<circ> Db) k) d (\<lambda>_ d'. evaluation_kept d d')"
proof (rule ends_stmt, goal_cases)
  case (1 u d')
  let ?e = "evaluation_of m r ob"
  have sel: "ev_job_id ?e = or_jobID r" "ev_monitor_id ?e = m"
    by (simp_all add: evaluation_of_def)
  show ?case
  proof (cases "exists_where (\<lambda>r. ev_job_id r = ev_job_id ?e) (monitor_result_evaluations d)")
    case True
    let ?f = "\<lambda>r. r\<lparr>ev_observed_state := ev_observed_state ?e, ev_consecutive_failures := ev_consecutive_failures ?e,
                     ev_consecutive_successes := ev_consecutive_successes ?e\<rparr>"
    have d': "d' = d\<lparr>monitor_result_evaluations :=
            update_where (\<lambda>r. ev_job_id r = ev_job_id ?e) ?f (monitor_result_evaluations d)\<rparr>"
      using 1 True by (simp add: UpsertMonitorResultEvaluation_def writing_def)
    have "map ev_job_id (monitor_result_evaluations d') = map ev_job_id (monitor_result_evaluations d)"
      by (simp add: d' update_where_def)
    moreover have "\<exists>c\<in>set (health_checks d). hc_job_id c = ev_job_id x \<and> hc_monitor_id c = ev_monitor_id x"
      if "x \<in> set (monitor_result_evaluations d')" for x
    proof -
      note x = that
      obtain y where "y \<in> set (monitor_result_evaluations d)" "ev_job_id x = ev_job_id y" "ev_monitor_id x = ev_monitor_id y"
        using x unfolding d' by (auto simp: update_where_def split: if_splits)
      then show ?thesis
        using assms(1) by (simp add: results_wf_def)
    qed
    ultimately show ?thesis
      using assms(1) by (simp add: evaluation_kept_def results_wf_def same_inputs_def d')
  next
    case False
    then have "d' = d\<lparr>monitor_result_evaluations := monitor_result_evaluations d @ [?e]\<rparr>"
      using 1 by (simp add: UpsertMonitorResultEvaluation_def writing_def)
    with False assms sel show ?thesis
      by (auto simp: evaluation_kept_def results_wf_def same_inputs_def exists_where_def of_monitor_def)
  qed
qed (simp add: UpsertMonitorResultEvaluation_def writing_def)

lemma evaluation_loop_kept:
  assumes "results_wf d" "\<forall>r\<in>set rs. of_monitor m d r"
  shows "yields (evaluation_loop m fl rl rs ob :: (database, 'x, 'r, go_error, observation) fragment) d (\<lambda>_ d'. evaluation_kept d d')"
  using assms
proof (induction rs arbitrary: ob d)
  case Nil
  then show ?case
    unfolding evaluation_loop.simps[abs_def] by (intro yields_done) (simp add: evaluation_kept_def)
next
  case (Cons r rs)
  let ?ob = "observe fl rl ob r"
  have step: "yields (\<lambda>h k. query (UpsertMonitorResultEvaluation (evaluation_of m r ?ob)) (h \<circ> Db) k) d (\<lambda>_ d'. evaluation_kept d d')"
    using Cons.prems by (intro upsert_kept) auto
  have "yields (\<lambda>h k. query (UpsertMonitorResultEvaluation (evaluation_of m r ?ob)) (h \<circ> Db)
      (\<lambda>a. evaluation_loop m fl rl rs ?ob h k) :: (database, 'x, 'r) program) d (\<lambda>_ d'. evaluation_kept d d')"
  proof (rule yields_bind[OF step], goal_cases)
    case (1 u d1)
    then have "yields (evaluation_loop m fl rl rs ?ob :: (database, 'x, 'r, go_error, observation) fragment) d1 (\<lambda>_ d'. evaluation_kept d1 d')"
      using Cons.prems by (intro Cons.IH) (auto simp: evaluation_kept_def of_monitor_same)
    then show ?case
      by (rule yields_weaken) (rule evaluation_kept_trans[OF 1])
  qed
  then show ?case
    unfolding evaluation_loop.simps[abs_def] .
qed

lemma evaluation_core_kept:
  assumes wf: "results_wf d"
  shows "yields (evaluation_core m accepted current lims :: (database, 'x, 'r, go_error, observation) fragment) d (\<lambda>_ d'. evaluation_kept d d')"
proof -
  have base: "yields (evaluation_baseline m accepted current :: (database, 'x, 'r, go_error, stateSnapshot) fragment) d (\<lambda>_ d'. evaluation_kept d d')"
  proof (cases "is_correction accepted current")
    case True
    then obtain a where a: "accepted = Some a"
      by (cases accepted) (auto simp: is_correction_def)
    show ?thesis
      using True wf unfolding evaluation_baseline_def[abs_def] a option.case GetReliabilityBaselineBefore_def
        DeleteReliabilityEvaluationsFrom_def
      by (auto intro!: yields_reading yields_writing yields_done
          simp: evaluation_kept_def results_wf_def same_inputs_def distinct_map_filter)
  next
    case False
    then show ?thesis
      using wf unfolding evaluation_baseline_def[abs_def]
      by (cases accepted) (simp_all add: yields_done evaluation_kept_def)
  qed
  have results: "yields (evaluation_results m accepted current :: (database, 'x, 'r, go_error, observed_result list) fragment) d'
      (\<lambda>rs d''. d'' = d' \<and> (\<forall>r\<in>set rs. of_monitor m d' r))" for d'
  proof -
    have listed: "yields (\<lambda>h k. query (reading (scheduled_checks p m)) (h \<circ> Db) k :: (database, 'x, 'r) program) d'
        (\<lambda>rs d''. d'' = d' \<and> (\<forall>r\<in>set rs. of_monitor m d' r))" for p
      by (rule ends_stmt) (auto simp: reading_def intro: scheduled_checks_of_monitor)
    show ?thesis
      unfolding evaluation_results_def[abs_def] ListScheduledHealthChecksFrom_def ListScheduledHealthChecksAfter_def
        ListAllScheduledHealthChecks_def
      by (cases "is_correction accepted current"; cases accepted; cases "ss_lastObservedAt current";
          cases "ss_lastObservedJob current") (simp_all add: listed)
  qed
  show ?thesis
    unfolding evaluation_core_def
  proof (rule yields_bind[OF base], rule yields_bind[OF results], goal_cases)
    case (1 b d1 rs d2)
    then show ?case
      by (intro yields_weaken[OF evaluation_loop_kept]) (auto simp: evaluation_kept_def intro: same_inputs_trans)
  qed
qed

lemma evaluation_finish_kept:
  assumes wf: "results_wf d"
  shows "yields (evaluation_finish m accepted now current ob) d (\<lambda>_ d'. evaluation_kept d d')"
  unfolding evaluation_finish_def GetNewestExpectedMonitorSlot_def UpdateMonitorReliabilityState_def
proof (rule yields_reading, rule yields_bind[OF displayed_yields], rule yields_writing,
    rule yields_bind[OF record_position_yields], rule yields_weaken[OF record_correction_yields], goal_cases)
  case (1 shown d0 u d1 c d2)
  then show ?case
    using wf by (auto simp: evaluation_kept_def results_wf_def same_inputs_def)
qed

lemma evaluateTx_kept:
  assumes wf: "results_wf d" and mon: "\<exists>r\<in>set (monitors d). mon_id r = m"
  shows "yields (evaluateTx m accepted now) d (\<lambda>_ d'. evaluation_kept d d')"
proof -
  have en: "evaluation_kept d (ensured m d)"
    using wf by (simp add: evaluation_kept_def results_wf_def same_inputs_def)
  obtain row where row: "select_one (\<lambda>r. rs_monitor_id r = m) (monitor_reliability_states (ensured m d)) = Some row"
    using mon by (elim ensured_row[of d m]) auto
  show ?thesis
    unfolding evaluateTx_def LockMonitorReliabilityState_def GetMonitorAlertThresholds_def
  proof (rule yields_query, rule Ensure_ensured, rule yields_reading, simp only: row option.case,
      rule yields_reading, rule yields_bind[OF evaluation_core_kept], goal_cases)
    case 1
    then show ?case using en by (simp add: evaluation_kept_def)
  next
    case (2 ob d1)
    then have "evaluation_kept d d1"
      by (rule evaluation_kept_trans[OF en])
    then show ?case
      by (intro yields_weaken[OF evaluation_finish_kept]) (auto simp: evaluation_kept_def intro: same_inputs_trans)
  qed
qed

subsection \<open>Any sequence of results\<close>

text \<open>Accepting one result without faults: it is stored, then evaluated in the same transaction.\<close>

definition accept_result :: "uuid \<Rightarrow> time \<Rightarrow> database \<Rightarrow> health_check_row \<Rightarrow> database" where
  "accept_result m now db c =
     work (snd (evaluateTx m (Some (slot_of c)) now (\<lambda>e. ret ()) (\<lambda>_. ret ())
       \<lparr>faults = [], durable = db, work = add_check c db, broken = False, outside = ()\<rparr>))"

definition acceptable :: "uuid \<Rightarrow> health_check_row list \<Rightarrow> database \<Rightarrow> bool" where
  "acceptable m cs db \<longleftrightarrow> results_wf db \<and> distinct (map hc_job_id (health_checks db @ cs)) \<and>
     (\<forall>c\<in>set cs. hc_monitor_id c = m \<and> hc_job_type c = ''scheduled'' \<and> hc_job_id c \<noteq> [] \<and>
        databaseTimestamp (hc_scheduled_at c) = hc_scheduled_at c)"

lemma accept_result_step:
  fixes now :: time
  assumes "acceptable m (c # cs) db" "ordered_state m db" "\<exists>r\<in>set (monitors db). mon_id r = m"
  defines "db' \<equiv> accept_result m now db c"
  shows "ordered_state m db'" "acceptable m cs db'" "\<exists>r\<in>set (monitors db'). mon_id r = m"
    "health_checks db' = health_checks db @ [c]" "limits m db' = limits m db"
proof -
  have wf: "results_wf (add_check c db)" and c: "hc_monitor_id c = m" "hc_job_type c = ''scheduled''"
    using assms(1) by (auto simp: acceptable_def results_wf_def add_check_def)
  let ?w = "\<lparr>faults = [], durable = db, work = add_check c db, broken = False, outside = ()\<rparr> :: (database, unit) world"
  obtain b d where "evaluateTx m (Some (slot_of c)) now (\<lambda>e. ret ()) (\<lambda>_. ret ()) ?w = ret () (?w\<lparr>work := d\<rparr>)"
    and d: "ordered_state m d" "results_wf d" "same_inputs (add_check c db) d"
    using yieldsD[OF evaluateTx_yields[OF wf assms(2,3) c], where w = ?w and h = "\<lambda>e. ret ()" and k = "\<lambda>_. ret ()"]
    by (auto simp: calm_def)
  then have db': "db' = d"
    by (simp add: db'_def accept_result_def ret_def)
  show "ordered_state m db'" "acceptable m cs db'" "\<exists>r\<in>set (monitors db'). mon_id r = m"
    "health_checks db' = health_checks db @ [c]" "limits m db' = limits m db"
    using d assms(1,3) by (auto simp: db' same_inputs_def acceptable_def add_check_def limits_def)
qed

lemma accept_results:
  assumes "acceptable m cs db" "ordered_state m db" "\<exists>r\<in>set (monitors db). mon_id r = m"
  shows "ordered_state m (foldl (accept_result m now) db cs) \<and>
    results_wf (foldl (accept_result m now) db cs) \<and>
    health_checks (foldl (accept_result m now) db cs) = health_checks db @ cs \<and>
    limits m (foldl (accept_result m now) db cs) = limits m db"
  using assms
proof (induction cs arbitrary: db)
  case Nil
  then show ?case by (simp add: acceptable_def)
next
  case (Cons c cs)
  note step = accept_result_step[OF Cons.prems, of now]
  show ?case
    using Cons.IH[OF step(2,1,3)] step(4,5) by simp
qed

lemma all_checks_set:
  assumes "results_wf d" "results_wf d'" "set (health_checks d) = set (health_checks d')"
  shows "all_checks m d = all_checks m d'"
proof -
  have "sort_key hc_key (check_rows m d) = sort_key hc_key (check_rows m d')"
  proof (rule sort_key_unique[OF check_rows_keys[OF assms(1)]])
    show "distinct (map hc_key (sort_key hc_key (check_rows m d')))"
      by (rule distinct_sort_key[OF check_rows_keys[OF assms(2)]])
    show "set (check_rows m d) = set (sort_key hc_key (check_rows m d'))"
      using assms(3) by (auto simp: check_rows_def)
  qed simp
  then show ?thesis
    by (simp add: all_checks_rows)
qed

text \<open>A monitor with an every-minute schedule and a result for it, for concrete runs.\<close>

definition sample_monitor :: monitor_row where
  "sample_monitor =
     \<lparr>mon_id = ''m'', mon_organization_id = ''o'', mon_environment_id = ''e'', mon_target_url = ''https://example.com'',
      mon_method = ''GET'', mon_interval_seconds = 60, mon_timeout_seconds = 5, mon_expected_status_min = 200,
      mon_expected_status_max = 299, mon_version = 1, mon_paused_at = None, mon_deleted_at = None,
      mon_next_check_at = 0, mon_headers_ciphertext = [], mon_header_key_version = None, mon_worker_pool_id = ''hosted''\<rparr>"

definition sample_check :: "uuid \<Rightarrow> time \<Rightarrow> bool \<Rightarrow> health_check_row" where
  "sample_check job t succeeded =
     \<lparr>hc_job_id = job, hc_result_id = Some job, hc_organization_id = ''o'', hc_environment_id = ''e'', hc_monitor_id = ''m'',
      hc_job_type = ''scheduled'', hc_scheduled_at = t, hc_started_at = t, hc_completed_at = t,
      hc_succeeded = succeeded, hc_status_code = Some 200, hc_error_category = None,
      hc_total_duration_microseconds = 10, hc_snapshot_hash = [], hc_worker_pool_id = ''hosted'',
      hc_worker_id = ''w'', hc_execution_attempt_id = job\<rparr>"

definition sample_database :: database where
  "sample_database = (empty_database sample_uuid)\<lparr>monitors := [sample_monitor]\<rparr>"

text \<open>C3: evaluation does not depend on arrival order.  Whatever order the results of a monitor
  arrive in, each of them stored and evaluated in a transaction of its own, the evaluations table
  and the state row of the monitor come out the same, namely those of one pass over all results in
  \<open>(scheduled_at, job_id)\<close> order.\<close>

theorem arrival_order_irrelevant:
  assumes "acceptable m cs db" "acceptable m cs' db" "set cs = set cs'"
    and "ordered_state m db" "\<exists>r\<in>set (monitors db). mon_id r = m"
  shows "monitor_evaluations m (foldl (accept_result m now) db cs) =
      monitor_evaluations m (foldl (accept_result m now') db cs') \<and>
    state_observation m (foldl (accept_result m now) db cs) =
      state_observation m (foldl (accept_result m now') db cs') \<and>
    monitor_evaluations m (foldl (accept_result m now) db cs) =
      replay m (fst (limits m db)) (snd (limits m db)) unobserved
        (all_checks m (foldl (accept_result m now) db cs))"
proof -
  define final where "final = foldl (accept_result m now) db cs"
  define final' where "final' = foldl (accept_result m now') db cs'"
  have one: "ordered_state m final" "results_wf final" "health_checks final = health_checks db @ cs"
    "limits m final = limits m db"
    using accept_results[OF assms(1,4,5), of now] by (simp_all add: final_def)
  have two: "ordered_state m final'" "results_wf final'" "health_checks final' = health_checks db @ cs'"
    "limits m final' = limits m db"
    using accept_results[OF assms(2,4,5), of now'] by (simp_all add: final'_def)
  have "all_checks m final = all_checks m final'"
    by (rule all_checks_set[OF one(2) two(2)]) (simp add: one(3) two(3) assms(3))
  then show ?thesis
    using one(1,4) two(1,4)
    unfolding final_def[symmetric] final'_def[symmetric] ordered_state_def by (auto split: prod.splits)
qed

theorem arrival_order_irrelevant_witness:
  "monitor_evaluations ''m''
     (foldl (accept_result ''m'' hour) sample_database [sample_check ''a'' minute False, sample_check ''b'' (2 * minute) True])
   = monitor_evaluations ''m''
     (foldl (accept_result ''m'' hour) sample_database [sample_check ''b'' (2 * minute) True, sample_check ''a'' minute False])"
proof -
  have "acceptable ''m'' [sample_check ''a'' minute False, sample_check ''b'' (2 * minute) True] sample_database"
    "acceptable ''m'' [sample_check ''b'' (2 * minute) True, sample_check ''a'' minute False] sample_database"
    "ordered_state ''m'' sample_database" "\<exists>r\<in>set (monitors sample_database). mon_id r = ''m''"
    by code_simp+
  from arrival_order_irrelevant[OF this(1,2) _ this(3,4), of hour hour] show ?thesis
    by auto
qed

subsection \<open>The handler\<close>

lemma EvaluateAccepted_transaction:
  "EvaluateAccepted m jobID scheduled expires now =
     transaction Inl Inr (EvaluateAcceptedTx m jobID scheduled expires now)"
  by (simp add: EvaluateAccepted_def transaction_def)

lemma EvaluateAcceptedTx_slot:
  "now \<le> expires + correctionWindow \<Longrightarrow>
   EvaluateAcceptedTx m (hc_job_id c) (hc_scheduled_at c) expires now = evaluateTx m (Some (slot_of c)) now"
  by (simp add: EvaluateAcceptedTx_def slot_of_def fun_eq_iff)

text \<open>C4: accepting a result is all or nothing.  Whatever round trip to the database fails, after
  \<open>EvaluateAccepted\<close> for a result inside its correction window the committed state of the monitor is
  either untouched or that of a full ordered replay including the new result; a reported success
  means the replayed state is committed and tells whether a later result had been evaluated before;
  and without a fault it succeeds.\<close>

theorem EvaluateAccepted_all_or_nothing:
  assumes "durable w = add_check c db" "results_wf (add_check c db)" "ordered_state m db"
    and "\<exists>r\<in>set (monitors db). mon_id r = m" "hc_monitor_id c = m" "hc_job_type c = ''scheduled''"
    and "now \<le> expires + correctionWindow"
  shows "case EvaluateAccepted m (hc_job_id c) (hc_scheduled_at c) expires now w of (r, w') \<Rightarrow>
    (\<exists>corrected. r = Inr corrected \<and> ordered_state m (durable w') \<and>
       health_checks (durable w') = health_checks db @ [c] \<and>
       corrected = (\<exists>r\<in>set (all_checks m db). hc_key c < or_key r)) \<or>
    (faults w \<noteq> [] \<and> (\<exists>e. r = Inl e) \<and>
      (durable w' = durable w \<or>
       (ordered_state m (durable w') \<and> health_checks (durable w') = health_checks db @ [c])))"
proof -
  have "yields (EvaluateAcceptedTx m (hc_job_id c) (hc_scheduled_at c) expires now) (durable w)
    (\<lambda>corrected d'. ordered_state m d' \<and> results_wf d' \<and> same_inputs (add_check c db) d' \<and>
       corrected = (\<exists>r\<in>set (all_checks m db). hc_key c < or_key r))"
    unfolding EvaluateAcceptedTx_slot[OF assms(7)] assms(1)
    by (rule evaluateTx_yields[OF assms(2-6)])
  then show ?thesis
    unfolding EvaluateAccepted_transaction
    by (rule transactionI) (auto simp: same_inputs_def add_check_def)
qed

definition sample_world :: "database \<Rightarrow> fault list \<Rightarrow> (database, unit) world" where
  "sample_world db fs = \<lparr>faults = fs, durable = db, work = db, broken = False, outside = ()\<rparr>"

theorem EvaluateAccepted_all_or_nothing_witness:
  "case EvaluateAccepted ''m'' (hc_job_id (sample_check ''a'' minute False)) (hc_scheduled_at (sample_check ''a'' minute False))
      (3 * minute) (4 * minute)
      (sample_world (add_check (sample_check ''a'' minute False) sample_database) [Fine, Fine, Refused]) of (r, w') \<Rightarrow>
    (\<exists>e. r = Inl e) \<or> ordered_state ''m'' (durable w')"
proof -
  let ?c = "sample_check ''a'' minute False"
  have "durable (sample_world (add_check ?c sample_database) [Fine, Fine, Refused]) = add_check ?c sample_database"
    by (simp add: sample_world_def)
  moreover have "results_wf (add_check ?c sample_database)" "ordered_state ''m'' sample_database"
    "\<exists>r\<in>set (monitors sample_database). mon_id r = ''m''" "hc_monitor_id ?c = ''m''" "hc_job_type ?c = ''scheduled''"
    "4 * minute \<le> 3 * minute + correctionWindow"
    by code_simp+
  from EvaluateAccepted_all_or_nothing[OF calculation this] show ?thesis
    by (auto split: prod.splits)
qed


end
