(* ===== verification/Envelope.thy ===== *)
theory Envelope
  imports GoText "HOL-Library.Finite_Map"
begin

text \<open>
  The worker protocol of \<open>internal/envelope/envelope.go\<close>: jobs are signed by the platform and sealed
  for one worker pool, results and expiry acknowledgements are signed by the worker.  The primitives
  of the cryptographic packages and the CBOR codec are the fields of a record that every operation
  takes; what the protocol relies on of them are the predicates \<open>crypto_laws\<close> and \<open>codec_laws\<close>.  The
  ephemeral key and the nonce that sealing draws are arguments, \<open>None\<close> when the random source fails.
\<close>

definition PreviousSchemaVersion :: int where "PreviousSchemaVersion = 1"
definition SchemaVersion :: int where "SchemaVersion = 2"
definition MaxMessageBytes :: int where "MaxMessageBytes = 64 * 1024"

record RequestLimits =
  MaxResponseBytes :: int
  MaxHeaderBytes :: int
  MaxRedirects :: int

record Job =
  jb_SchemaVersion :: int
  jb_JobID :: string
  jb_JobType :: string
  jb_WorkerPoolID :: string
  jb_NetworkPolicyVersion :: int
  jb_ScheduledAt :: time
  jb_ExpiresAt :: time
  jb_TargetURL :: string
  jb_Method :: string
  jb_TimeoutSeconds :: int
  jb_ExpectedStatusMin :: int
  jb_ExpectedStatusMax :: int
  jb_Headers :: "(string, string) fmap"
  jb_Limits :: RequestLimits
  jb_PlatformKeyID :: string
  jb_WorkerEncryptionKeyID :: string

record Attributes =
  at_SchemaVersion :: int
  at_JobID :: string
  at_WorkerPoolID :: string
  at_SnapshotHash :: string
  at_ExpiresAt :: time
  at_ResultID :: string
  at_ResultKeyID :: string
  at_PlatformKeyID :: string
  at_WorkerEncryptionKeyID :: string

record signedJob =
  sj_Job :: Job
  sj_Signature :: string

record sealedJob =
  se_SchemaVersion :: int
  se_EphemeralPublicKey :: string
  se_Nonce :: string
  se_Ciphertext :: string

record Result =
  rt_SchemaVersion :: int
  rt_ResultID :: string
  rt_JobID :: string
  rt_SnapshotHash :: string
  rt_WorkerPoolID :: string
  rt_WorkerID :: string
  rt_AttemptID :: string
  rt_ScheduledAt :: time
  rt_StartedAt :: time
  rt_CompletedAt :: time
  rt_Succeeded :: bool
  rt_StatusCode :: "int option"
  rt_ErrorCategory :: "string option"
  rt_DNSMicros :: "int option"
  rt_ConnectMicros :: "int option"
  rt_TLSMicros :: "int option"
  rt_FirstByteMicros :: "int option"
  rt_TotalMicros :: int
  rt_ResultKeyID :: string

record SignedResult =
  sr_Result :: Result
  sr_Signature :: string

record ExpiredAcknowledgement =
  ea_SchemaVersion :: int
  ea_JobID :: string
  ea_SnapshotHash :: string
  ea_WorkerPoolID :: string
  ea_WorkerID :: string
  ea_ExpiredAt :: time
  ea_ResultKeyID :: string

record signedExpired =
  sx_Acknowledgement :: ExpiredAcknowledgement
  sx_Signature :: string

subsection \<open>Primitives\<close>

record primitives =
  sha256 :: "string \<Rightarrow> string"
  ed_generated :: "string \<Rightarrow> bool"
  ed_public :: "string \<Rightarrow> string"
  ed_sign :: "string \<Rightarrow> string \<Rightarrow> string"
  ed_verify :: "string \<Rightarrow> string \<Rightarrow> string \<Rightarrow> bool"
  x_public :: "string \<Rightarrow> string"
  x_ecdh :: "string \<Rightarrow> string \<Rightarrow> string option"
  hkdf :: "string \<Rightarrow> string \<Rightarrow> string"
  gcm_seal :: "string \<Rightarrow> string \<Rightarrow> string \<Rightarrow> string \<Rightarrow> string"
  gcm_open :: "string \<Rightarrow> string \<Rightarrow> string \<Rightarrow> string \<Rightarrow> string option"
  marshal_job :: "Job \<Rightarrow> string option"
  marshal_attributes :: "Attributes \<Rightarrow> string option"
  marshal_signed_job :: "signedJob \<Rightarrow> string option"
  unmarshal_signed_job :: "string \<Rightarrow> signedJob option"
  marshal_sealed :: "sealedJob \<Rightarrow> string option"
  unmarshal_sealed :: "string \<Rightarrow> sealedJob option"
  marshal_result :: "Result \<Rightarrow> string option"
  marshal_signed_result :: "SignedResult \<Rightarrow> string option"
  unmarshal_signed_result :: "string \<Rightarrow> SignedResult option"
  marshal_expired :: "ExpiredAcknowledgement \<Rightarrow> string option"
  marshal_signed_expired :: "signedExpired \<Rightarrow> string option"
  unmarshal_signed_expired :: "string \<Rightarrow> signedExpired option"
  marshal_headers :: "(string, string) fmap \<Rightarrow> string"
  unmarshal_headers :: "string \<Rightarrow> (string, string) fmap option"

text \<open>Signatures of a generated key verify under its public key, both sides of a key agreement compute
  the same secret, and an authenticated cipher opens what it sealed; keys and signatures have their
  documented sizes.\<close>

definition crypto_laws :: "primitives \<Rightarrow> bool" where
  "crypto_laws c \<longleftrightarrow>
     (\<forall>sk. ed_generated c sk \<longrightarrow> length sk = 64 \<and> length (ed_public c sk) = 32 \<and>
        (\<forall>m. length (ed_sign c sk m) = 64 \<and> ed_verify c (ed_public c sk) m (ed_sign c sk m))) \<and>
     (\<forall>a. length a = 32 \<longrightarrow> length (x_public c a) = 32) \<and>
     (\<forall>a b. length a = 32 \<longrightarrow> length b = 32 \<longrightarrow> x_ecdh c a (x_public c b) = x_ecdh c b (x_public c a)) \<and>
     (\<forall>s i. length (hkdf c s i) = 32) \<and>
     (\<forall>k n p a. length (gcm_seal c k n p a) = length p + 16) \<and>
     (\<forall>k n p a. length k = 32 \<longrightarrow> length n = 12 \<longrightarrow> gcm_open c k n (gcm_seal c k n p a) a = Some p)"

text \<open>The strict decoder reads what the canonical encoder wrote, for values that have a wire form: text
  is UTF-8, times are in the years 1 to 9999, integers fit 64 bits.\<close>

definition wire_text :: "string \<Rightarrow> bool" where
  "wire_text s \<longleftrightarrow> list_all (\<lambda>(r, b). r \<noteq> RuneError \<or> length b \<noteq> 1) (chunks s)"

definition wire_time :: "time \<Rightarrow> bool" where
  "wire_time t \<longleftrightarrow> 0 \<le> t \<and> t < 3652059 * 24 * hour"

definition wire_int :: "int \<Rightarrow> bool" where
  "wire_int n \<longleftrightarrow> - (2 ^ 63) \<le> n \<and> n < 2 ^ 63"

definition wire_job :: "Job \<Rightarrow> bool" where
  "wire_job j \<longleftrightarrow>
     list_all wire_int [jb_SchemaVersion j, jb_NetworkPolicyVersion j, jb_TimeoutSeconds j, jb_ExpectedStatusMin j,
       jb_ExpectedStatusMax j, MaxResponseBytes (jb_Limits j), MaxHeaderBytes (jb_Limits j), MaxRedirects (jb_Limits j)] \<and>
     list_all wire_text [jb_JobID j, jb_JobType j, jb_WorkerPoolID j, jb_TargetURL j, jb_Method j, jb_PlatformKeyID j,
       jb_WorkerEncryptionKeyID j] \<and>
     list_all wire_time [jb_ScheduledAt j, jb_ExpiresAt j] \<and>
     fBall (fmdom (jb_Headers j)) wire_text \<and> fBall (fmran (jb_Headers j)) wire_text"

definition wire_option :: "('a \<Rightarrow> bool) \<Rightarrow> 'a option \<Rightarrow> bool" where
  "wire_option p x = (case x of None \<Rightarrow> True | Some y \<Rightarrow> p y)"

definition wire_result :: "Result \<Rightarrow> bool" where
  "wire_result r \<longleftrightarrow>
     list_all wire_int [rt_SchemaVersion r, rt_TotalMicros r] \<and>
     list_all (wire_option wire_int) [rt_StatusCode r, rt_DNSMicros r, rt_ConnectMicros r, rt_TLSMicros r, rt_FirstByteMicros r] \<and>
     list_all wire_text [rt_ResultID r, rt_JobID r, rt_SnapshotHash r, rt_WorkerPoolID r, rt_WorkerID r, rt_AttemptID r,
       rt_ResultKeyID r] \<and>
     wire_option wire_text (rt_ErrorCategory r) \<and>
     list_all wire_time [rt_ScheduledAt r, rt_StartedAt r, rt_CompletedAt r]"

definition wire_expired :: "ExpiredAcknowledgement \<Rightarrow> bool" where
  "wire_expired a \<longleftrightarrow>
     wire_int (ea_SchemaVersion a) \<and> wire_time (ea_ExpiredAt a) \<and>
     list_all wire_text [ea_JobID a, ea_SnapshotHash a, ea_WorkerPoolID a, ea_WorkerID a, ea_ResultKeyID a]"

definition codec_laws :: "primitives \<Rightarrow> bool" where
  "codec_laws c \<longleftrightarrow>
     (\<forall>v b. wire_job (sj_Job v) \<longrightarrow> marshal_signed_job c v = Some b \<longrightarrow> unmarshal_signed_job c b = Some v) \<and>
     (\<forall>v b. wire_int (se_SchemaVersion v) \<longrightarrow> marshal_sealed c v = Some b \<longrightarrow> unmarshal_sealed c b = Some v) \<and>
     (\<forall>v b. wire_result (sr_Result v) \<longrightarrow> marshal_signed_result c v = Some b \<longrightarrow>
        unmarshal_signed_result c b = Some v \<and> b \<noteq> []) \<and>
     (\<forall>v b. wire_expired (sx_Acknowledgement v) \<longrightarrow> marshal_signed_expired c v = Some b \<longrightarrow>
        unmarshal_signed_expired c b = Some v \<and> b \<noteq> [])"

subsection \<open>Domain separation\<close>

text \<open>The four bytes of \<open>uint32(len(part))\<close>, most significant first.\<close>

definition length_prefix :: "string \<Rightarrow> string" where
  "length_prefix part =
     (let n = int (length part) mod 2 ^ 32 in
      [char_of ((n div 2 ^ 24) mod 256), char_of ((n div 2 ^ 16) mod 256), char_of ((n div 2 ^ 8) mod 256), char_of (n mod 256)])"

definition appendDomain :: "string \<Rightarrow> string list \<Rightarrow> string" where
  "appendDomain domain parts = domain @ [CHR 0x00] @ concat (map (\<lambda>part. length_prefix part @ part) parts)"

text \<open>Reading 32 bytes of an HKDF never fails, and AES accepts a key of 32 bytes.\<close>

definition deriveKey :: "primitives \<Rightarrow> string \<Rightarrow> string \<Rightarrow> string \<Rightarrow> int \<Rightarrow> string" where
  "deriveKey c secret ephemeralPublic workerPublic schema =
     hkdf c secret (appendDomain (''watchtrace-job-hkdf-v'' @ decimal schema) [ephemeralPublic, workerPublic])"

subsection \<open>Validation\<close>

definition SupportsSchema :: "int \<Rightarrow> bool" where
  "SupportsSchema version \<longleftrightarrow> version = PreviousSchemaVersion \<or> version = SchemaVersion"

text \<open>True when the job is valid; the comparison of the lifetime is not affected by the saturation
  of \<open>Time.Sub\<close>.\<close>

definition validateJob :: "Job \<Rightarrow> time \<Rightarrow> bool \<Rightarrow> bool" where
  "validateJob job now requireFuture \<longleftrightarrow>
     \<not> (\<not> SupportsSchema (jb_SchemaVersion job) \<or> jb_JobID job = [] \<or> jb_WorkerPoolID job = [] \<or>
        jb_NetworkPolicyVersion job < 1 \<or> jb_PlatformKeyID job = [] \<or> jb_WorkerEncryptionKeyID job = [] \<or>
        (jb_JobType job \<noteq> ''scheduled'' \<and> jb_JobType job \<noteq> ''manual_test'') \<or>
        (jb_Method job \<noteq> ''GET'' \<and> jb_Method job \<noteq> ''HEAD'') \<or>
        jb_TimeoutSeconds job < 1 \<or> jb_TimeoutSeconds job > 10 \<or>
        jb_ExpectedStatusMin job < 100 \<or> jb_ExpectedStatusMax job > 599 \<or>
        jb_ExpectedStatusMin job > jb_ExpectedStatusMax job \<or>
        length (jb_TargetURL job) = 0 \<or> length (jb_TargetURL job) > 2048 \<or>
        jb_ScheduledAt job = 0 \<or> jb_ExpiresAt job < jb_ScheduledAt job \<or>
        jb_ExpiresAt job - jb_ScheduledAt job > 2 * minute \<or>
        MaxResponseBytes (jb_Limits job) < 1 \<or> MaxResponseBytes (jb_Limits job) > 1024 * 1024 \<or>
        MaxHeaderBytes (jb_Limits job) < 1 \<or> MaxHeaderBytes (jb_Limits job) > 64 * 1024 \<or>
        MaxRedirects (jb_Limits job) < 0 \<or> MaxRedirects (jb_Limits job) > 5 \<or>
        fcard (fmdom (jb_Headers job)) > 32) \<and>
     \<not> (requireFuture \<and> jb_ExpiresAt job < now)"

definition validateResult :: "Result \<Rightarrow> bool" where
  "validateResult result \<longleftrightarrow>
     \<not> (\<not> SupportsSchema (rt_SchemaVersion result) \<or> rt_ResultID result = [] \<or> rt_JobID result = [] \<or>
        length (rt_SnapshotHash result) \<noteq> 64 \<or> rt_WorkerPoolID result = [] \<or> rt_WorkerID result = [] \<or>
        rt_AttemptID result = [] \<or> rt_ResultKeyID result = [] \<or> rt_ScheduledAt result = 0 \<or>
        rt_StartedAt result = 0 \<or> rt_CompletedAt result < rt_StartedAt result \<or> rt_TotalMicros result < 0 \<or>
        (case rt_StatusCode result of None \<Rightarrow> False | Some s \<Rightarrow> s < 100 \<or> s > 599) \<or>
        (\<not> rt_Succeeded result \<and> rt_ErrorCategory result = None) \<or>
        (rt_Succeeded result \<and> (rt_StatusCode result = None \<or> rt_ErrorCategory result \<noteq> None)))"

definition validateExpired :: "ExpiredAcknowledgement \<Rightarrow> bool" where
  "validateExpired value \<longleftrightarrow>
     \<not> (\<not> SupportsSchema (ea_SchemaVersion value) \<or> ea_JobID value = [] \<or> length (ea_SnapshotHash value) \<noteq> 64 \<or>
        ea_WorkerPoolID value = [] \<or> ea_WorkerID value = [] \<or> ea_ResultKeyID value = [] \<or> ea_ExpiredAt value = 0)"

subsection \<open>Jobs\<close>

datatype envelope_error = ErrInvalid | ErrRandom

definition SealJob ::
  "primitives \<Rightarrow> time \<Rightarrow> string option \<Rightarrow> string option \<Rightarrow> Job \<Rightarrow> string \<Rightarrow> string option \<Rightarrow> envelope_error + string \<times> Attributes"
where
  "SealJob c now drawn_eph drawn_nonce job signer workerPublic =
     (if length signer \<noteq> 64 \<or> workerPublic = None \<or> \<not> validateJob job now True then Inl ErrInvalid
      else case marshal_job c job of
        None \<Rightarrow> Inl ErrInvalid
      | Some plain \<Rightarrow>
          (let hash = sha256 c plain;
               attrs = \<lparr>at_SchemaVersion = jb_SchemaVersion job, at_JobID = jb_JobID job, at_WorkerPoolID = jb_WorkerPoolID job,
                 at_SnapshotHash = hex_encode hash, at_ExpiresAt = jb_ExpiresAt job, at_ResultID = [], at_ResultKeyID = [],
                 at_PlatformKeyID = jb_PlatformKeyID job, at_WorkerEncryptionKeyID = jb_WorkerEncryptionKeyID job\<rparr> in
           case marshal_attributes c attrs of
             None \<Rightarrow> Inl ErrInvalid
           | Some aad \<Rightarrow>
               (case marshal_signed_job c
                   \<lparr>sj_Job = job, sj_Signature = ed_sign c signer (appendDomain ''watchtrace-job-signature'' [aad, plain])\<rparr> of
                  None \<Rightarrow> Inl ErrInvalid
                | Some signedBytes \<Rightarrow>
                    (case drawn_eph of
                       None \<Rightarrow> Inl ErrRandom
                     | Some eph \<Rightarrow>
                         (case x_ecdh c eph (the workerPublic) of
                            None \<Rightarrow> Inl ErrInvalid
                          | Some secret \<Rightarrow>
                              (let key = deriveKey c secret (x_public c eph) (the workerPublic) (jb_SchemaVersion job) in
                               case drawn_nonce of
                                 None \<Rightarrow> Inl ErrRandom
                               | Some nonce \<Rightarrow>
                                   (case marshal_sealed c
                                       \<lparr>se_SchemaVersion = jb_SchemaVersion job, se_EphemeralPublicKey = x_public c eph,
                                        se_Nonce = nonce, se_Ciphertext = gcm_seal c key nonce signedBytes aad\<rparr> of
                                      None \<Rightarrow> Inl ErrInvalid
                                    | Some body \<Rightarrow>
                                        if length body = 0 \<or> int (length body) > MaxMessageBytes then Inl ErrInvalid
                                        else Inr (body, attrs))))))))"

definition OpenJob ::
  "primitives \<Rightarrow> string \<Rightarrow> Attributes \<Rightarrow> string option \<Rightarrow> string \<Rightarrow> time \<Rightarrow> int \<Rightarrow> envelope_error + Job"
where
  "OpenJob c data attrs workerPrivate platformPublic now tolerance =
     (if length data = 0 \<or> int (length data) > MaxMessageBytes \<or> \<not> SupportsSchema (at_SchemaVersion attrs) \<or>
         workerPrivate = None \<or> length platformPublic \<noteq> 32 \<or> tolerance < 0 \<or> tolerance > 30 * second
      then Inl ErrInvalid
      else case unmarshal_sealed c data of
        None \<Rightarrow> Inl ErrInvalid
      | Some sealed \<Rightarrow>
          if se_SchemaVersion sealed \<noteq> at_SchemaVersion attrs \<or> length (se_EphemeralPublicKey sealed) \<noteq> 32 \<or>
             length (se_Nonce sealed) \<noteq> 12
          then Inl ErrInvalid
          else case x_ecdh c (the workerPrivate) (se_EphemeralPublicKey sealed) of
            None \<Rightarrow> Inl ErrInvalid
          | Some secret \<Rightarrow>
              (let key = deriveKey c secret (se_EphemeralPublicKey sealed) (x_public c (the workerPrivate)) (se_SchemaVersion sealed) in
               case marshal_attributes c attrs of
                 None \<Rightarrow> Inl ErrInvalid
               | Some aad \<Rightarrow>
                   (case gcm_open c key (se_Nonce sealed) (se_Ciphertext sealed) aad of
                      None \<Rightarrow> Inl ErrInvalid
                    | Some plain \<Rightarrow>
                        (case unmarshal_signed_job c plain of
                           None \<Rightarrow> Inl ErrInvalid
                         | Some signed \<Rightarrow>
                             if length (sj_Signature signed) \<noteq> 64 then Inl ErrInvalid
                             else case marshal_job c (sj_Job signed) of
                               None \<Rightarrow> Inl ErrInvalid
                             | Some jobBytes \<Rightarrow>
                                 if \<not> ed_verify c platformPublic (appendDomain ''watchtrace-job-signature'' [aad, jobBytes]) (sj_Signature signed)
                                 then Inl ErrInvalid
                                 else if hex_encode (sha256 c jobBytes) \<noteq> at_SnapshotHash attrs \<or>
                                   jb_SchemaVersion (sj_Job signed) \<noteq> at_SchemaVersion attrs \<or>
                                   jb_JobID (sj_Job signed) \<noteq> at_JobID attrs \<or>
                                   jb_WorkerPoolID (sj_Job signed) \<noteq> at_WorkerPoolID attrs \<or>
                                   jb_PlatformKeyID (sj_Job signed) \<noteq> at_PlatformKeyID attrs \<or>
                                   jb_WorkerEncryptionKeyID (sj_Job signed) \<noteq> at_WorkerEncryptionKeyID attrs \<or>
                                   jb_ExpiresAt (sj_Job signed) \<noteq> at_ExpiresAt attrs \<or>
                                   \<not> validateJob (sj_Job signed) (now - tolerance) False
                                 then Inl ErrInvalid
                                 else Inr (sj_Job signed)))))"

subsection \<open>Results and expiry acknowledgements\<close>

definition SignResult :: "primitives \<Rightarrow> Result \<Rightarrow> string \<Rightarrow> envelope_error + string" where
  "SignResult c result key =
     (if length key \<noteq> 64 \<or> \<not> validateResult result then Inl ErrInvalid
      else case marshal_result c result of
        None \<Rightarrow> Inl ErrInvalid
      | Some raw \<Rightarrow>
          (case marshal_signed_result c
              \<lparr>sr_Result = result, sr_Signature = ed_sign c key (appendDomain ''watchtrace-result-signature'' [raw])\<rparr> of
             None \<Rightarrow> Inl ErrInvalid
           | Some out \<Rightarrow> if int (length out) > MaxMessageBytes then Inl ErrInvalid else Inr out))"

definition PeekResult :: "primitives \<Rightarrow> string \<Rightarrow> envelope_error + Result" where
  "PeekResult c data =
     (if length data = 0 \<or> int (length data) > MaxMessageBytes then Inl ErrInvalid
      else case unmarshal_signed_result c data of
        None \<Rightarrow> Inl ErrInvalid
      | Some signed \<Rightarrow> if \<not> validateResult (sr_Result signed) then Inl ErrInvalid else Inr (sr_Result signed))"

definition VerifyResult :: "primitives \<Rightarrow> string \<Rightarrow> string \<Rightarrow> envelope_error + Result" where
  "VerifyResult c data key =
     (case PeekResult c data of
        Inl _ \<Rightarrow> Inl ErrInvalid
      | Inr result \<Rightarrow>
          if length key \<noteq> 32 then Inl ErrInvalid
          else case unmarshal_signed_result c data of
            None \<Rightarrow> Inl ErrInvalid
          | Some signed \<Rightarrow>
              if length (sr_Signature signed) \<noteq> 64 then Inl ErrInvalid
              else let raw = (case marshal_result c (sr_Result signed) of None \<Rightarrow> [] | Some b \<Rightarrow> b) in
                if \<not> ed_verify c key (appendDomain ''watchtrace-result-signature'' [raw]) (sr_Signature signed)
                then Inl ErrInvalid else Inr result)"

definition ResultAttributes :: "Result \<Rightarrow> Attributes" where
  "ResultAttributes result =
     \<lparr>at_SchemaVersion = rt_SchemaVersion result, at_JobID = rt_JobID result, at_WorkerPoolID = rt_WorkerPoolID result,
      at_SnapshotHash = rt_SnapshotHash result, at_ExpiresAt = 0, at_ResultID = rt_ResultID result,
      at_ResultKeyID = rt_ResultKeyID result, at_PlatformKeyID = [], at_WorkerEncryptionKeyID = []\<rparr>"

definition SignExpired :: "primitives \<Rightarrow> ExpiredAcknowledgement \<Rightarrow> string \<Rightarrow> envelope_error + string" where
  "SignExpired c value key =
     (if length key \<noteq> 64 \<or> \<not> validateExpired value then Inl ErrInvalid
      else let raw = (case marshal_expired c value of None \<Rightarrow> [] | Some b \<Rightarrow> b) in
        case marshal_signed_expired c
            \<lparr>sx_Acknowledgement = value, sx_Signature = ed_sign c key (appendDomain ''watchtrace-expired-signature'' [raw])\<rparr> of
          None \<Rightarrow> Inl ErrInvalid
        | Some out \<Rightarrow> if int (length out) > MaxMessageBytes then Inl ErrInvalid else Inr out)"

definition VerifyExpired :: "primitives \<Rightarrow> string \<Rightarrow> string \<Rightarrow> envelope_error + ExpiredAcknowledgement" where
  "VerifyExpired c data key =
     (if length data = 0 \<or> int (length data) > MaxMessageBytes \<or> length key \<noteq> 32 then Inl ErrInvalid
      else case unmarshal_signed_expired c data of
        None \<Rightarrow> Inl ErrInvalid
      | Some signed \<Rightarrow>
          if \<not> validateExpired (sx_Acknowledgement signed) then Inl ErrInvalid
          else let raw = (case marshal_expired c (sx_Acknowledgement signed) of None \<Rightarrow> [] | Some b \<Rightarrow> b) in
            if \<not> ed_verify c key (appendDomain ''watchtrace-expired-signature'' [raw]) (sx_Signature signed)
            then Inl ErrInvalid else Inr (sx_Acknowledgement signed))"

subsection \<open>Domain separation\<close>

lemma length_prefix_length [simp]: "length (length_prefix part) = 4"
  by (simp add: length_prefix_def Let_def)

lemma horner_256: "256 * (256 * (256 * a + b) + c) + d = a * 2 ^ 24 + b * 2 ^ 16 + c * 2 ^ 8 + (d :: int)"
  by simp

lemma powers_256: "(2 :: int) ^ 8 = 256" "(2 :: int) ^ 16 = 256 * 256" "(2 :: int) ^ 24 = 256 * (256 * 256)"
  "(2 :: int) ^ 32 = 256 * (256 * (256 * 256))"
  by simp_all

lemma big_endian_32:
  fixes n :: int
  shows "n mod 2 ^ 32 = ((n div 2 ^ 24) mod 256) * 2 ^ 24 + ((n div 2 ^ 16) mod 256) * 2 ^ 16 +
    ((n div 2 ^ 8) mod 256) * 2 ^ 8 + n mod 256"
proof -
  have peel: "m mod (256 * c) = 256 * (m div 256 mod c) + m mod 256" if "0 \<le> c" for m c :: int
    by (rule zmod_zmult2_eq[OF that])
  have shift: "m div (256 * c) = m div 256 div c" if "0 \<le> c" for m c :: int
    by (rule zdiv_zmult2_eq[OF that])
  have "n mod (256 * (256 * (256 * 256))) =
      256 * (256 * (256 * (n div 256 div 256 div 256 mod 256) + n div 256 div 256 mod 256) + n div 256 mod 256) + n mod 256"
    by (simp only: peel zero_le_mult_iff zero_le_numeral simp_thms)
  then show ?thesis
    unfolding horner_256[symmetric] unfolding powers_256
    by (simp only: shift zero_le_mult_iff zero_le_numeral simp_thms)
qed

lemma length_prefix_inject:
  assumes "length p < 2 ^ 32" "length q < 2 ^ 32" "length_prefix p = length_prefix q"
  shows "length p = length q"
proof -
  have bytes: "char_of x = (char_of y :: char) \<Longrightarrow> 0 \<le> x \<Longrightarrow> x < 256 \<Longrightarrow> 0 \<le> y \<Longrightarrow> y < 256 \<Longrightarrow> x = y" for x y :: int
    by (metis byte_char_of)
  define m n where "m = int (length p) mod 2 ^ 32" and "n = int (length q) mod 2 ^ 32"
  have same: "(m div 2 ^ 24) mod 256 = (n div 2 ^ 24) mod 256" "(m div 2 ^ 16) mod 256 = (n div 2 ^ 16) mod 256"
    "(m div 2 ^ 8) mod 256 = (n div 2 ^ 8) mod 256" "m mod 256 = n mod 256"
    using assms(3) unfolding length_prefix_def Let_def m_def[symmetric] n_def[symmetric]
    by (auto intro!: bytes)
  have "m mod 2 ^ 32 = n mod 2 ^ 32"
    unfolding big_endian_32[of m] big_endian_32[of n] same ..
  then have "m = n"
    unfolding m_def n_def by simp
  moreover have "m = int (length p)" "n = int (length q)"
    unfolding m_def n_def using assms(1,2) by simp_all
  ultimately show ?thesis by simp
qed

definition framed :: "string list \<Rightarrow> string" where
  "framed parts = concat (map (\<lambda>part. length_prefix part @ part) parts)"

lemma framed_Cons [simp]: "framed (p # ps) = length_prefix p @ p @ framed ps" "framed [] = []"
  by (simp_all add: framed_def)

lemma framed_inject:
  assumes "list_all (\<lambda>p. length p < 2 ^ 32) ps" "list_all (\<lambda>p. length p < 2 ^ 32) qs" "framed ps = framed qs"
  shows "ps = qs"
  using assms
proof (induction ps arbitrary: qs)
  case Nil
  then show ?case by (cases qs) (auto simp flip: length_0_conv)
next
  case (Cons p ps)
  show ?case
  proof (cases qs)
    case Nil
    then show ?thesis using Cons.prems(3) by (auto simp flip: length_0_conv)
  next
    case (Cons q qs')
    have split: "length_prefix p = length_prefix q" "p @ framed ps = q @ framed qs'"
      using Cons.prems(3) unfolding Cons by simp_all
    have "length p = length q"
      using split(1) Cons.prems(1,2) Cons by (auto intro: length_prefix_inject)
    then have "p = q" "framed ps = framed qs'"
      using split(2) by simp_all
    then show ?thesis
      using Cons.IH[of qs'] Cons.prems(1,2) Cons by simp
  qed
qed

lemma appendDomain_framed: "appendDomain domain parts = domain @ CHR 0x00 # framed parts"
  by (simp add: appendDomain_def framed_def)

lemma split_at_nul:
  assumes "CHR 0x00 \<notin> set a" "CHR 0x00 \<notin> set b" "a @ CHR 0x00 # x = b @ CHR 0x00 # y"
  shows "a = b \<and> x = y"
  using assms
proof (induction a arbitrary: b)
  case Nil
  then show ?case by (cases b) auto
next
  case (Cons c a)
  then show ?case by (cases b) auto
qed

text \<open>C16: the byte strings that are signed, and the info string of the key derivation, determine the
  domain and every part: no two calls of \<open>appendDomain\<close> on different domains or different parts give the
  same bytes, provided that the domains have no NUL byte and the parts are shorter than 4 GiB.\<close>

theorem appendDomain_injective:
  assumes "CHR 0x00 \<notin> set d" "CHR 0x00 \<notin> set d'"
    and "list_all (\<lambda>p. length p < 2 ^ 32) ps" "list_all (\<lambda>p. length p < 2 ^ 32) qs"
  shows "appendDomain d ps = appendDomain d' qs \<longleftrightarrow> d = d' \<and> ps = qs"
proof
  assume "appendDomain d ps = appendDomain d' qs"
  then have "d = d' \<and> framed ps = framed qs"
    unfolding appendDomain_framed by (rule split_at_nul[OF assms(1,2)])
  then show "d = d' \<and> ps = qs"
    using framed_inject[OF assms(3,4)] by simp
qed simp

theorem appendDomain_injective_witness:
  "appendDomain ''watchtrace-result-signature'' [''ab''] \<noteq> appendDomain ''watchtrace-expired-signature'' [''ab''] \<and>
   appendDomain ''watchtrace-job-signature'' [''ab'', ''c''] \<noteq> appendDomain ''watchtrace-job-signature'' [''a'', ''bc'']"
  using appendDomain_injective[of "''watchtrace-result-signature''" "''watchtrace-expired-signature''" "[''ab'']" "[''ab'']"]
    appendDomain_injective[of "''watchtrace-job-signature''" "''watchtrace-job-signature''" "[''ab'', ''c'']" "[''a'', ''bc'']"]
  by simp

subsection \<open>Round trips\<close>

lemma validateJob_opened: "validateJob job now requireFuture \<Longrightarrow> validateJob job now' False"
  by (simp add: validateJob_def)

lemma validateJob_schema: "validateJob job now requireFuture \<Longrightarrow> SupportsSchema (jb_SchemaVersion job)"
  by (simp add: validateJob_def)

lemma crypto_sign:
  assumes "crypto_laws c" "ed_generated c sk"
  shows "length sk = 64" "length (ed_public c sk) = 32" "length (ed_sign c sk m) = 64"
    "ed_verify c (ed_public c sk) m (ed_sign c sk m)"
  using assms unfolding crypto_laws_def by blast+

lemma crypto_agree:
  assumes "crypto_laws c" "length a = 32" "length b = 32"
  shows "x_ecdh c a (x_public c b) = x_ecdh c b (x_public c a)" "length (x_public c a) = 32"
  using assms unfolding crypto_laws_def by blast+

lemma crypto_open:
  assumes "crypto_laws c" "length n = 12"
  shows "gcm_open c (deriveKey c s e w v) n (gcm_seal c (deriveKey c s e w v) n p a) a = Some p"
  using assms unfolding crypto_laws_def deriveKey_def by blast

lemma codec_result:
  assumes "codec_laws c" "wire_result (sr_Result v)" "marshal_signed_result c v = Some b"
  shows "unmarshal_signed_result c b = Some v" "b \<noteq> []"
  using assms unfolding codec_laws_def by blast+

lemma codec_expired:
  assumes "codec_laws c" "wire_expired (sx_Acknowledgement v)" "marshal_signed_expired c v = Some b"
  shows "unmarshal_signed_expired c b = Some v" "b \<noteq> []"
  using assms unfolding codec_laws_def by blast+

text \<open>What a successful \<open>SealJob\<close> did, one intermediate value each.\<close>

lemma SealJob_success:
  assumes "SealJob c now (Some eph) (Some nonce) job signer (Some pub) = Inr (body, attrs)"
  obtains plain aad signedBytes secret where
    "validateJob job now True" "marshal_job c job = Some plain" "marshal_attributes c attrs = Some aad"
    "attrs = \<lparr>at_SchemaVersion = jb_SchemaVersion job, at_JobID = jb_JobID job, at_WorkerPoolID = jb_WorkerPoolID job,
       at_SnapshotHash = hex_encode (sha256 c plain), at_ExpiresAt = jb_ExpiresAt job, at_ResultID = [], at_ResultKeyID = [],
       at_PlatformKeyID = jb_PlatformKeyID job, at_WorkerEncryptionKeyID = jb_WorkerEncryptionKeyID job\<rparr>"
    "marshal_signed_job c
       \<lparr>sj_Job = job, sj_Signature = ed_sign c signer (appendDomain ''watchtrace-job-signature'' [aad, plain])\<rparr> = Some signedBytes"
    "x_ecdh c eph pub = Some secret"
    "marshal_sealed c
       \<lparr>se_SchemaVersion = jb_SchemaVersion job, se_EphemeralPublicKey = x_public c eph, se_Nonce = nonce,
        se_Ciphertext = gcm_seal c (deriveKey c secret (x_public c eph) pub (jb_SchemaVersion job)) nonce signedBytes aad\<rparr> = Some body"
    "length body \<noteq> 0" "int (length body) \<le> MaxMessageBytes"
  using assms unfolding SealJob_def Let_def
  by (auto split: if_splits option.splits)

lemma sealed_opens:
  assumes laws: "crypto_laws c" "codec_laws c"
    and keys: "ed_generated c signer" "length eph = 32" "length priv = 32" "length nonce = 12"
    and wire: "wire_job job"
    and sealed: "SealJob c sealedAt (Some eph) (Some nonce) job signer (Some (x_public c priv)) = Inr (body, attrs)"
    and tolerance: "0 \<le> tolerance" "tolerance \<le> 30 * second"
  shows "OpenJob c body attrs (Some priv) (ed_public c signer) now tolerance = Inr job"
  using sealed
proof (rule SealJob_success)
  fix plain aad signedBytes secret
  assume valid: "validateJob job sealedAt True" and plain: "marshal_job c job = Some plain"
    and aad: "marshal_attributes c attrs = Some aad"
    and attrs: "attrs = \<lparr>at_SchemaVersion = jb_SchemaVersion job, at_JobID = jb_JobID job, at_WorkerPoolID = jb_WorkerPoolID job,
       at_SnapshotHash = hex_encode (sha256 c plain), at_ExpiresAt = jb_ExpiresAt job, at_ResultID = [], at_ResultKeyID = [],
       at_PlatformKeyID = jb_PlatformKeyID job, at_WorkerEncryptionKeyID = jb_WorkerEncryptionKeyID job\<rparr>"
    and signed: "marshal_signed_job c
       \<lparr>sj_Job = job, sj_Signature = ed_sign c signer (appendDomain ''watchtrace-job-signature'' [aad, plain])\<rparr> = Some signedBytes"
    and secret: "x_ecdh c eph (x_public c priv) = Some secret"
    and body: "marshal_sealed c
       \<lparr>se_SchemaVersion = jb_SchemaVersion job, se_EphemeralPublicKey = x_public c eph, se_Nonce = nonce,
        se_Ciphertext = gcm_seal c (deriveKey c secret (x_public c eph) (x_public c priv) (jb_SchemaVersion job)) nonce signedBytes aad\<rparr> = Some body"
    and size: "length body \<noteq> 0" "int (length body) \<le> MaxMessageBytes"
  have unsigned: "unmarshal_signed_job c signedBytes = Some
      \<lparr>sj_Job = job, sj_Signature = ed_sign c signer (appendDomain ''watchtrace-job-signature'' [aad, plain])\<rparr>"
    using laws(2) signed wire unfolding codec_laws_def by simp
  have unsealed: "unmarshal_sealed c body = Some
      \<lparr>se_SchemaVersion = jb_SchemaVersion job, se_EphemeralPublicKey = x_public c eph, se_Nonce = nonce,
        se_Ciphertext = gcm_seal c (deriveKey c secret (x_public c eph) (x_public c priv) (jb_SchemaVersion job)) nonce signedBytes aad\<rparr>"
    using laws(2) body wire unfolding codec_laws_def by (simp add: wire_job_def)
  show ?thesis
    using valid size tolerance keys secret crypto_agree[OF laws(1) keys(2,3)]
    unfolding OpenJob_def Let_def unsealed option.case
    by (simp add: attrs aad[unfolded attrs] plain unsigned crypto_open[OF laws(1)] crypto_sign[OF laws(1) keys(1)]
        validateJob_opened[OF valid] validateJob_schema[OF valid])
qed

text \<open>C13: a worker opens what the platform sealed for it.  Every job that \<open>SealJob\<close> accepts is
  recovered unchanged by \<open>OpenJob\<close>, from the body and the attributes that \<open>SealJob\<close> returned, with the
  private key of the pool and the public key of the signer.\<close>

theorem OpenJob_SealJob:
  assumes laws: "crypto_laws c" "codec_laws c"
    and keys: "ed_generated c signer" "length eph = 32" "length priv = 32" "length nonce = 12"
    and wire: "wire_job job"
    and sealed: "SealJob c sealedAt (Some eph) (Some nonce) job signer (Some (x_public c priv)) = Inr (body, attrs)"
    and tolerance: "0 \<le> tolerance" "tolerance \<le> 30 * second"
  shows "OpenJob c body attrs (Some priv) (ed_public c signer) now tolerance = Inr job"
  using assms by (rule sealed_opens)

subsection \<open>A concrete instance of the primitives\<close>

definition sample_job :: Job where
  "sample_job = \<lparr>jb_SchemaVersion = 2, jb_JobID = ''j'', jb_JobType = ''scheduled'', jb_WorkerPoolID = ''p'',
     jb_NetworkPolicyVersion = 1, jb_ScheduledAt = minute, jb_ExpiresAt = 2 * minute, jb_TargetURL = ''https://x'',
     jb_Method = ''GET'', jb_TimeoutSeconds = 5, jb_ExpectedStatusMin = 200, jb_ExpectedStatusMax = 299, jb_Headers = fmempty,
     jb_Limits = \<lparr>MaxResponseBytes = 1024, MaxHeaderBytes = 1024, MaxRedirects = 3\<rparr>, jb_PlatformKeyID = ''k'',
     jb_WorkerEncryptionKeyID = ''e''\<rparr>"

definition sample_result :: Result where
  "sample_result = \<lparr>rt_SchemaVersion = 2, rt_ResultID = ''r'', rt_JobID = ''j'', rt_SnapshotHash = replicate 64 CHR ''0'',
     rt_WorkerPoolID = ''p'', rt_WorkerID = ''w'', rt_AttemptID = ''a'', rt_ScheduledAt = minute, rt_StartedAt = minute,
     rt_CompletedAt = minute + second, rt_Succeeded = True, rt_StatusCode = Some 200, rt_ErrorCategory = None,
     rt_DNSMicros = None, rt_ConnectMicros = None, rt_TLSMicros = None, rt_FirstByteMicros = None, rt_TotalMicros = 1000000,
     rt_ResultKeyID = ''q''\<rparr>"

definition sample_sealed :: sealedJob where
  "sample_sealed = \<lparr>se_SchemaVersion = 2, se_EphemeralPublicKey = replicate 32 CHR ''x'', se_Nonce = replicate 12 CHR ''n'',
     se_Ciphertext = ''signed'' @ replicate 16 CHR ''g''\<rparr>"

text \<open>A codec that knows one value of each kind, and transparent primitives of the right sizes.\<close>

definition sample_primitives :: primitives where
  "sample_primitives = \<lparr>sha256 = (\<lambda>_. replicate 32 CHR ''h''),
     ed_generated = (\<lambda>sk. sk = replicate 64 CHR ''k''), ed_public = (\<lambda>_. replicate 32 CHR ''k''),
     ed_sign = (\<lambda>_ _. replicate 64 CHR ''s''), ed_verify = (\<lambda>_ _ s. s = replicate 64 CHR ''s''),
     x_public = (\<lambda>_. replicate 32 CHR ''x''), x_ecdh = (\<lambda>_ _. Some ''z''), hkdf = (\<lambda>_ _. replicate 32 CHR ''d''),
     gcm_seal = (\<lambda>_ _ p _. p @ replicate 16 CHR ''g''), gcm_open = (\<lambda>_ _ x _. Some (take (length x - 16) x)),
     marshal_job = (\<lambda>_. Some ''job''), marshal_attributes = (\<lambda>_. Some ''attributes''),
     marshal_signed_job = (\<lambda>v. if v = \<lparr>sj_Job = sample_job, sj_Signature = replicate 64 CHR ''s''\<rparr> then Some ''signed'' else None),
     unmarshal_signed_job = (\<lambda>_. Some \<lparr>sj_Job = sample_job, sj_Signature = replicate 64 CHR ''s''\<rparr>),
     marshal_sealed = (\<lambda>v. if v = sample_sealed then Some ''sealed'' else None),
     unmarshal_sealed = (\<lambda>_. Some sample_sealed),
     marshal_result = (\<lambda>_. Some ''result''),
     marshal_signed_result = (\<lambda>v. if v = \<lparr>sr_Result = sample_result, sr_Signature = replicate 64 CHR ''s''\<rparr> then Some ''signed'' else None),
     unmarshal_signed_result = (\<lambda>_. Some \<lparr>sr_Result = sample_result, sr_Signature = replicate 64 CHR ''s''\<rparr>),
     marshal_expired = (\<lambda>_. Some ''expired''), marshal_signed_expired = (\<lambda>_. None), unmarshal_signed_expired = (\<lambda>_. None),
     marshal_headers = (\<lambda>_. ''{}''), unmarshal_headers = (\<lambda>_. Some fmempty)\<rparr>"

lemma sample_crypto: "crypto_laws sample_primitives"
  by (simp add: crypto_laws_def sample_primitives_def)

lemma sample_codec: "codec_laws sample_primitives"
  by (simp add: codec_laws_def sample_primitives_def)

lemma sample_job_wire: "wire_job sample_job"
  by (simp add: wire_job_def wire_int_def wire_time_def wire_text_def sample_job_def Let_def rune_width_def byte_def
      eval_nat_numeral RuneError_def)

lemma sample_job_valid: "validateJob sample_job minute True"
  by (simp add: validateJob_def SupportsSchema_def SchemaVersion_def sample_job_def fcard_fempty)

lemma sample_job_sealed:
  "\<exists>attrs. SealJob sample_primitives minute (Some (replicate 32 CHR ''e'')) (Some (replicate 12 CHR ''n'')) sample_job
     (replicate 64 CHR ''k'') (Some (x_public sample_primitives (replicate 32 CHR ''w''))) = Inr (''sealed'', attrs)"
  using sample_job_valid
  by (simp add: SealJob_def Let_def sample_primitives_def sample_sealed_def MaxMessageBytes_def)
    (simp add: sample_job_def)

theorem OpenJob_SealJob_witness:
  "\<exists>attrs. SealJob sample_primitives minute (Some (replicate 32 CHR ''e'')) (Some (replicate 12 CHR ''n'')) sample_job
       (replicate 64 CHR ''k'') (Some (x_public sample_primitives (replicate 32 CHR ''w''))) = Inr (''sealed'', attrs) \<and>
     OpenJob sample_primitives ''sealed'' attrs (Some (replicate 32 CHR ''w''))
       (ed_public sample_primitives (replicate 64 CHR ''k'')) (5 * minute) (5 * second) = Inr sample_job"
proof -
  obtain attrs where sealed: "SealJob sample_primitives minute (Some (replicate 32 CHR ''e'')) (Some (replicate 12 CHR ''n''))
      sample_job (replicate 64 CHR ''k'') (Some (x_public sample_primitives (replicate 32 CHR ''w''))) = Inr (''sealed'', attrs)"
    using sample_job_sealed by blast
  have "ed_generated sample_primitives (replicate 64 CHR ''k'')"
    by (simp add: sample_primitives_def)
  from OpenJob_SealJob[OF sample_crypto sample_codec this _ _ _ sample_job_wire sealed, where now = "5 * minute" and tolerance = "5 * second"]
  show ?thesis using sealed by auto
qed

text \<open>C15: the platform accepts what a worker signed.  A result that \<open>SignResult\<close> accepts is recovered
  unchanged by \<open>VerifyResult\<close> with the public key of the signer, and by \<open>PeekResult\<close> without a key.\<close>

theorem VerifyResult_SignResult:
  assumes laws: "crypto_laws c" "codec_laws c" and key: "ed_generated c key" and wire: "wire_result result"
    and signed: "SignResult c result key = Inr data"
  shows "VerifyResult c data (ed_public c key) = Inr result \<and> PeekResult c data = Inr result"
proof -
  from signed obtain raw where valid: "validateResult result" and raw: "marshal_result c result = Some raw"
    and data: "marshal_signed_result c
       \<lparr>sr_Result = result, sr_Signature = ed_sign c key (appendDomain ''watchtrace-result-signature'' [raw])\<rparr> = Some data"
    and size: "int (length data) \<le> MaxMessageBytes"
    unfolding SignResult_def by (auto split: if_splits option.splits)
  have read: "data \<noteq> []" "unmarshal_signed_result c data = Some
      \<lparr>sr_Result = result, sr_Signature = ed_sign c key (appendDomain ''watchtrace-result-signature'' [raw])\<rparr>"
    using codec_result[OF laws(2) _ data] wire by simp_all
  have peek: "PeekResult c data = Inr result"
    unfolding PeekResult_def using read size valid by simp
  then show ?thesis
    unfolding VerifyResult_def by (simp add: read raw crypto_sign[OF laws(1) key])
qed

lemma sample_result_wire: "wire_result sample_result"
  by (simp add: wire_result_def wire_option_def wire_int_def wire_time_def wire_text_def sample_result_def Let_def rune_width_def byte_def
      eval_nat_numeral RuneError_def)

theorem VerifyResult_SignResult_witness:
  "SignResult sample_primitives sample_result (replicate 64 CHR ''k'') = Inr ''signed'' \<and>
   VerifyResult sample_primitives ''signed'' (ed_public sample_primitives (replicate 64 CHR ''k'')) = Inr sample_result"
proof -
  have "validateResult sample_result"
    by (simp add: validateResult_def SupportsSchema_def SchemaVersion_def sample_result_def)
  then have signed: "SignResult sample_primitives sample_result (replicate 64 CHR ''k'') = Inr ''signed''"
    by (simp add: SignResult_def sample_primitives_def MaxMessageBytes_def)
  have "ed_generated sample_primitives (replicate 64 CHR ''k'')"
    by (simp add: sample_primitives_def)
  from VerifyResult_SignResult[OF sample_crypto sample_codec this sample_result_wire signed] signed
  show ?thesis by simp
qed

lemma VerifyExpired_SignExpired:
  assumes laws: "crypto_laws c" "codec_laws c" and key: "ed_generated c key" and wire: "wire_expired value"
    and signed: "SignExpired c value key = Inr data"
  shows "VerifyExpired c data (ed_public c key) = Inr value"
proof -
  define raw where "raw = (case marshal_expired c value of None \<Rightarrow> [] | Some b \<Rightarrow> b)"
  from signed have valid: "validateExpired value"
    and data: "marshal_signed_expired c
       \<lparr>sx_Acknowledgement = value, sx_Signature = ed_sign c key (appendDomain ''watchtrace-expired-signature'' [raw])\<rparr> = Some data"
    and size: "int (length data) \<le> MaxMessageBytes"
    unfolding SignExpired_def Let_def raw_def by (auto split: if_splits option.splits)
  have read: "data \<noteq> []" "unmarshal_signed_expired c data = Some
      \<lparr>sx_Acknowledgement = value, sx_Signature = ed_sign c key (appendDomain ''watchtrace-expired-signature'' [raw])\<rparr>"
    using codec_expired[OF laws(2) _ data] wire by simp_all
  show ?thesis
    unfolding VerifyExpired_def Let_def using read size valid
    by (simp add: crypto_sign[OF laws(1) key] flip: raw_def)
qed

subsection \<open>What opening guarantees\<close>

text \<open>C14: a worker runs only what the platform signed.  When \<open>OpenJob\<close> returns a job, the platform's key
  verifies a signature over exactly that job and exactly the attributes it was delivered with, the
  attributes name the job, its pool, its keys, its expiry and the hash of its bytes, and the job is
  valid; whether it has expired is left to the caller.\<close>

theorem OpenJob_authentic:
  assumes "OpenJob c data attrs workerPrivate platformPublic now tolerance = Inr job"
  shows "\<exists>aad bytes signature.
    marshal_attributes c attrs = Some aad \<and> marshal_job c job = Some bytes \<and>
    ed_verify c platformPublic (appendDomain ''watchtrace-job-signature'' [aad, bytes]) signature \<and>
    at_SnapshotHash attrs = hex_encode (sha256 c bytes) \<and> at_JobID attrs = jb_JobID job \<and>
    at_WorkerPoolID attrs = jb_WorkerPoolID job \<and> at_PlatformKeyID attrs = jb_PlatformKeyID job \<and>
    at_WorkerEncryptionKeyID attrs = jb_WorkerEncryptionKeyID job \<and> at_ExpiresAt attrs = jb_ExpiresAt job \<and>
    at_SchemaVersion attrs = jb_SchemaVersion job \<and> (\<forall>at. validateJob job at False)"
  using assms unfolding OpenJob_def Let_def
  by (auto split: if_splits option.splits dest: validateJob_opened)

theorem OpenJob_authentic_witness:
  "\<exists>attrs aad bytes signature.
    marshal_attributes sample_primitives attrs = Some aad \<and> marshal_job sample_primitives sample_job = Some bytes \<and>
    ed_verify sample_primitives (replicate 32 CHR ''k'') (appendDomain ''watchtrace-job-signature'' [aad, bytes]) signature \<and>
    at_JobID attrs = ''j''"
proof -
  define attrs where "attrs = \<lparr>at_SchemaVersion = 2, at_JobID = ''j'', at_WorkerPoolID = ''p'',
    at_SnapshotHash = hex_encode (replicate 32 CHR ''h''), at_ExpiresAt = 2 * minute, at_ResultID = [], at_ResultKeyID = [],
    at_PlatformKeyID = ''k'', at_WorkerEncryptionKeyID = ''e''\<rparr>"
  have "OpenJob sample_primitives ''sealed'' attrs (Some (replicate 32 CHR ''w'')) (replicate 32 CHR ''k'') minute 0 = Inr sample_job"
    using validateJob_opened[OF sample_job_valid, of minute]
    by (simp add: OpenJob_def Let_def sample_primitives_def sample_sealed_def attrs_def SupportsSchema_def SchemaVersion_def
        MaxMessageBytes_def) (simp add: sample_job_def)
  from OpenJob_authentic[OF this] obtain aad bytes signature where
    "marshal_attributes sample_primitives attrs = Some aad" "marshal_job sample_primitives sample_job = Some bytes"
    "ed_verify sample_primitives (replicate 32 CHR ''k'') (appendDomain ''watchtrace-job-signature'' [aad, bytes]) signature"
    by blast
  moreover have "at_JobID attrs = ''j''"
    by (simp add: attrs_def)
  ultimately show ?thesis by blast
qed

end
