(* ===== verification/Dispatch.thy ===== *)
theory Dispatch
  imports LeaseQueue Envelope
begin

text \<open>
  The dispatch outbox: \<open>internal/fifo/publisher.go\<close> with its statements of \<open>fifo.sql\<close>, and the
  reclaiming of publisher leases in \<open>internal/fifo/maintenance.go\<close>.  \<open>PublishNext\<close> is two transactions
  with the call of the queue between them; the two are the definitions \<open>claim_dispatch\<close> and
  \<open>settle_dispatch\<close>.  The queue is a function on the state of the remote services that returns a
  message identifier or an error.  \<open>now\<close> is the publisher's clock, \<open>ts\<close> is \<open>CURRENT_TIMESTAMP\<close> of a
  transaction.
\<close>

record SendInput =
  si_QueueURL :: string
  si_Body :: bytes
  si_DeduplicationID :: string
  si_GroupID :: string
  si_Attributes :: Attributes

record outbox_item =
  ob_JobID :: uuid
  ob_Pool :: string
  ob_Queue :: string
  ob_Dedup :: string
  ob_Group :: string
  ob_PlatformKeyID :: string
  ob_WorkerKeyID :: string
  ob_Body :: bytes
  ob_Hash :: bytes
  ob_Expiry :: time
  ob_Attempts :: int
  ob_Schema :: int
  ob_Token :: uuid

subsection \<open>Statements\<close>

definition dispatch_ready :: "time \<Rightarrow> dispatch_row \<Rightarrow> bool" where
  "dispatch_ready ts r \<longleftrightarrow>
     do_publish_state r = ''pending'' \<and> do_publish_attempts r < 3 \<and> do_next_attempt_at r \<le> ts"

definition lease_dispatch :: "time \<Rightarrow> uuid \<Rightarrow> dispatch_row \<Rightarrow> dispatch_row" where
  "lease_dispatch ts token r =
     r\<lparr>do_publish_state := ''publishing'', do_publish_attempts := do_publish_attempts r + 1,
       do_publish_lease_token := Some token, do_publish_lease_expires_at := Some (ts + 45 * second)\<rparr>"

definition item_of :: "uuid \<Rightarrow> dispatch_row \<Rightarrow> outbox_item" where
  "item_of token r =
     \<lparr>ob_JobID = do_job_id r, ob_Pool = do_worker_pool_id r, ob_Queue = do_queue_url r,
      ob_Dedup = do_message_deduplication_id r, ob_Group = do_message_group_id r,
      ob_PlatformKeyID = do_platform_key_id r, ob_WorkerKeyID = do_worker_encryption_key_id r,
      ob_Body = do_message_body r, ob_Hash = do_snapshot_hash r, ob_Expiry = do_expires_at r,
      ob_Attempts = do_publish_attempts r + 1, ob_Schema = do_schema_version r, ob_Token = token\<rparr>"

definition ClaimDispatchOutbox :: "time \<Rightarrow> outbox_item option sql" where
  "ClaimDispatchOutbox ts db =
     (case first_by do_created_at (dispatch_ready ts) (check_dispatch_outbox db) of
        None \<Rightarrow> Inr (None, db)
      | Some r \<Rightarrow>
          Inr (Some (item_of (fresh_uuid db) r),
               (drawn_uuid db)\<lparr>check_dispatch_outbox :=
                  update_where (\<lambda>x. do_job_id x = do_job_id r) (lease_dispatch ts (fresh_uuid db))
                    (check_dispatch_outbox db)\<rparr>))"

text \<open>What the holder of a lease may write: the row was published, the send failed, or the message
  expired before it could be sent.\<close>

datatype dispatch_settlement =
  Settle_Published time string
| Settle_Send_Failed time string int
| Settle_Expired

definition settle_row :: "dispatch_settlement \<Rightarrow> dispatch_row \<Rightarrow> dispatch_row" where
  "settle_row s r =
     (case s of
        Settle_Published ts messageID \<Rightarrow>
          r\<lparr>do_publish_state := ''published'', do_sqs_message_id := Some messageID, do_published_at := Some ts,
            do_publish_lease_token := None, do_publish_lease_expires_at := None, do_last_safe_error := None\<rparr>
      | Settle_Send_Failed ts state delay \<Rightarrow>
          r\<lparr>do_publish_state := state, do_next_attempt_at := ts + delay * second, do_publish_lease_token := None,
            do_publish_lease_expires_at := None, do_last_safe_error := Some ''sqs_send_failed''\<rparr>
      | Settle_Expired \<Rightarrow>
          r\<lparr>do_publish_state := ''expired'', do_publish_lease_token := None, do_publish_lease_expires_at := None\<rparr>)"

abbreviation published_under :: "uuid \<Rightarrow> uuid \<Rightarrow> dispatch_row \<Rightarrow> bool" where
  "published_under jobID token r \<equiv>
     do_job_id r = jobID \<and> do_publish_lease_token r \<noteq> None \<and> do_publish_lease_token r = Some token"

definition settle_under :: "dispatch_settlement \<Rightarrow> uuid \<Rightarrow> uuid \<Rightarrow> database \<Rightarrow> database" where
  "settle_under s jobID token db =
     db\<lparr>check_dispatch_outbox := update_where (published_under jobID token) (settle_row s) (check_dispatch_outbox db)\<rparr>"

definition ExpireClaimedDispatch :: "uuid \<Rightarrow> uuid \<Rightarrow> unit sql" where
  "ExpireClaimedDispatch jobID token = writing (settle_under Settle_Expired jobID token)"

definition MarkDispatchPublishFailure :: "time \<Rightarrow> string \<Rightarrow> int \<Rightarrow> uuid \<Rightarrow> uuid \<Rightarrow> unit sql" where
  "MarkDispatchPublishFailure ts state delaySeconds jobID token =
     writing (settle_under (Settle_Send_Failed ts state delaySeconds) jobID token)"

definition MarkDispatchPublished :: "time \<Rightarrow> string \<Rightarrow> uuid \<Rightarrow> uuid \<Rightarrow> unit sql" where
  "MarkDispatchPublished ts messageID jobID token db =
     (if length messageID > 128 \<and> exists_where (published_under jobID token) (check_dispatch_outbox db)
      then Inl ''check_dispatch_outbox_sqs_message_id_check''
      else Inr ((), settle_under (Settle_Published ts messageID) jobID token db))"

definition unpublished_state :: "string \<Rightarrow> bool" where
  "unpublished_state s \<longleftrightarrow> s = ''pending'' \<or> s = ''pending_publish''"

definition MarkCheckJobPublished :: "string \<Rightarrow> uuid \<Rightarrow> unit sql" where
  "MarkCheckJobPublished messageID jobID db =
     (if length messageID > 128 \<and> exists_where (\<lambda>j. cj_id j = jobID \<and> unpublished_state (cj_state j)) (check_jobs db)
      then Inl ''check_jobs_sqs_message_id_check''
      else Inr ((), db\<lparr>check_jobs :=
        update_where (\<lambda>j. cj_id j = jobID \<and> unpublished_state (cj_state j))
          (\<lambda>j. j\<lparr>cj_state := ''published'', cj_sqs_message_id := Some messageID\<rparr>) (check_jobs db)\<rparr>))"

definition ExpireUnpublishedCheckJob :: "time \<Rightarrow> uuid \<Rightarrow> unit sql" where
  "ExpireUnpublishedCheckJob ts jobID = writing (\<lambda>db. db\<lparr>check_jobs :=
     update_where (\<lambda>j. cj_id j = jobID \<and> unpublished_state (cj_state j))
       (\<lambda>j. j\<lparr>cj_state := ''expired'', cj_completed_at := Some ts, cj_last_safe_error := Some ''dispatch_expired''\<rparr>)
       (check_jobs db)\<rparr>)"

text \<open>\<open>INSERT INTO monitoring_coverage_gaps ... ON CONFLICT DO NOTHING\<close>, whose only conflicts are those
  of the unique key of monitor, slot and reason.\<close>

definition same_gap :: "coverage_gap_row \<Rightarrow> coverage_gap_row \<Rightarrow> bool" where
  "same_gap g x \<longleftrightarrow>
     cg_monitor_id x = cg_monitor_id g \<and> cg_scheduled_at x = cg_scheduled_at g \<and> cg_reason x = cg_reason g"

definition add_gap :: "coverage_gap_row \<Rightarrow> coverage_gap_row list \<Rightarrow> coverage_gap_row list" where
  "add_gap g gaps = (if exists_where (same_gap g) gaps then gaps else gaps @ [g])"

definition gap_of_job :: "string \<Rightarrow> check_job_row \<Rightarrow> coverage_gap_row" where
  "gap_of_job reason j =
     \<lparr>cg_organization_id = cj_organization_id j, cg_environment_id = cj_environment_id j,
      cg_monitor_id = cj_monitor_id j, cg_scheduled_at = cj_scheduled_at j, cg_reason = reason\<rparr>"

definition InsertExpiredCoverageGapFromJob :: "uuid \<Rightarrow> unit sql" where
  "InsertExpiredCoverageGapFromJob jobID = writing (\<lambda>db. db\<lparr>monitoring_coverage_gaps :=
     fold (add_gap \<circ> gap_of_job ''expired'') (filter (\<lambda>j. cj_id j = jobID) (check_jobs db))
       (monitoring_coverage_gaps db)\<rparr>)"

definition MarkDispatchRepaired :: "uuid \<Rightarrow> unit sql" where
  "MarkDispatchRepaired jobID = writing (\<lambda>db. db\<lparr>check_dispatch_outbox :=
     update_where (\<lambda>r. do_job_id r = jobID \<and> do_publish_state r \<noteq> ''published'')
       (\<lambda>r. r\<lparr>do_publish_state := ''repaired''\<rparr>) (check_dispatch_outbox db)\<rparr>)"

definition publisher_lease_expired :: "time \<Rightarrow> dispatch_row \<Rightarrow> bool" where
  "publisher_lease_expired ts r \<longleftrightarrow>
     do_publish_state r = ''publishing'' \<and>
     (case do_publish_lease_expires_at r of None \<Rightarrow> False | Some e \<Rightarrow> e < ts)"

definition reclaim_row :: "unit \<Rightarrow> dispatch_row \<Rightarrow> dispatch_row" where
  "reclaim_row _ r =
     r\<lparr>do_publish_state := (if do_publish_attempts r \<ge> 3 then ''ambiguous'' else ''pending''),
       do_publish_lease_token := None, do_publish_lease_expires_at := None,
       do_last_safe_error := Some ''publisher_interrupted''\<rparr>"

definition ReclaimDispatchPublisherLeases :: "time \<Rightarrow> nat sql" where
  "ReclaimDispatchPublisherLeases ts db =
     Inr (count_where (publisher_lease_expired ts) (check_dispatch_outbox db),
          db\<lparr>check_dispatch_outbox :=
               update_where (publisher_lease_expired ts) (reclaim_row ()) (check_dispatch_outbox db)\<rparr>)"

subsection \<open>The publisher\<close>

text \<open>The first transaction: the result of \<open>PublishNext\<close> where it ends there, or the claimed row.  An
  error before a row was claimed is returned with \<open>False\<close>, a later one with \<open>True\<close>.\<close>

abbreviation untouched :: "db_error \<Rightarrow> bool \<times> go_error" where
  "untouched e \<equiv> (False, Db e)"

abbreviation touched :: "db_error \<Rightarrow> bool \<times> go_error" where
  "touched e \<equiv> (True, Db e)"

type_synonym publish_result = "bool \<times> go_error option"

definition claim_fragment_of ::
  "time \<Rightarrow> time \<Rightarrow> (bool \<times> go_error \<Rightarrow> ('x, 'r) handler)
   \<Rightarrow> ((publish_result + outbox_item) + outbox_item \<times> bool \<Rightarrow> ('x, 'r) handler) \<Rightarrow> ('x, 'r) handler" where
  "claim_fragment_of now ts h k =
     query (ClaimDispatchOutbox ts) (h \<circ> untouched) (\<lambda>claimed.
       case claimed of
         None \<Rightarrow> k (Inl (Inl (False, None)))
       | Some row \<Rightarrow>
           if now > ob_Expiry row
           then query (ExpireClaimedDispatch (ob_JobID row) (ob_Token row)) (h \<circ> touched) (\<lambda>_.
                query (ExpireUnpublishedCheckJob ts (ob_JobID row)) (h \<circ> touched) (\<lambda>_.
                query (InsertExpiredCoverageGapFromJob (ob_JobID row)) (h \<circ> touched) (\<lambda>_.
                k (Inr (row, True)))))
           else k (Inr (row, False)))"

definition claim_dispatch :: "time \<Rightarrow> time \<Rightarrow> ('x, publish_result + outbox_item) handler" where
  "claim_dispatch now ts =
     unit_of_work (\<lambda>e. Inl (False, Some (Db e))) (\<lambda>(found, e). Inl (found, Some e)) (\<lambda>e. Inl (True, Some (Db e)))
       (\<lambda>(row, expired). if expired then Inl (True, None) else Inr row) (claim_fragment_of now ts)"

definition send_input :: "outbox_item \<Rightarrow> SendInput" where
  "send_input row =
     \<lparr>si_QueueURL = ob_Queue row, si_Body = ob_Body row, si_DeduplicationID = ob_Dedup row, si_GroupID = ob_Group row,
      si_Attributes = \<lparr>at_SchemaVersion = ob_Schema row, at_JobID = ob_JobID row, at_WorkerPoolID = ob_Pool row,
        at_SnapshotHash = hex_encode (ob_Hash row), at_ExpiresAt = ob_Expiry row, at_ResultID = [], at_ResultKeyID = [],
        at_PlatformKeyID = ob_PlatformKeyID row, at_WorkerEncryptionKeyID = ob_WorkerKeyID row\<rparr>\<rparr>"

definition failure_state :: "outbox_item \<Rightarrow> string" where
  "failure_state row = (if ob_Attempts row \<ge> 3 then ''ambiguous'' else ''pending'')"

definition failure_delay :: "outbox_item \<Rightarrow> int" where
  "failure_delay row = (if ob_Attempts row \<ge> 3 then 120 else if ob_Attempts row = 2 then 20 else 10)"

definition settle_fragment ::
  "time \<Rightarrow> outbox_item \<Rightarrow> go_error + string \<Rightarrow> (go_error \<Rightarrow> ('x, 'r) handler) \<Rightarrow> (unit \<Rightarrow> ('x, 'r) handler) \<Rightarrow> ('x, 'r) handler" where
  "settle_fragment ts row reply h k =
     (case reply of
        Inr messageID \<Rightarrow>
          query (MarkDispatchPublished ts messageID (ob_JobID row) (ob_Token row)) (h \<circ> Db) (\<lambda>_.
          query (MarkCheckJobPublished messageID (ob_JobID row)) (h \<circ> Db) k)
      | Inl _ \<Rightarrow>
          query (MarkDispatchPublishFailure ts (failure_state row) (failure_delay row) (ob_JobID row) (ob_Token row)) (h \<circ> Db) k)"

definition settle_dispatch :: "time \<Rightarrow> outbox_item \<Rightarrow> go_error + string \<Rightarrow> ('x, publish_result) handler" where
  "settle_dispatch ts row reply =
     transaction (\<lambda>e. (True, Some e)) (\<lambda>_. (True, case reply of Inl e \<Rightarrow> Some e | Inr _ \<Rightarrow> None)) (settle_fragment ts row reply)"

definition PublishNext ::
  "(SendInput \<Rightarrow> 'x \<Rightarrow> (go_error + string) \<times> 'x) \<Rightarrow> time \<Rightarrow> time \<Rightarrow> time \<Rightarrow> ('x, publish_result) handler" where
  "PublishNext send now ts ts' =
     and_then (claim_dispatch now ts) (\<lambda>claimed.
       case claimed of
         Inl r \<Rightarrow> ret r
       | Inr row \<Rightarrow> remote (send (send_input row)) (settle_dispatch ts' row (Inl (Err ''send failed'')))
                     (settle_dispatch ts' row))"

definition ReclaimPublisherLeases :: "time \<Rightarrow> ('x, go_error + int) handler" where
  "ReclaimPublisherLeases ts =
     transaction Inl Inr (\<lambda>h k. query (ReclaimDispatchPublisherLeases ts) (h \<circ> Db) (\<lambda>n. k (int n)))"

subsection \<open>The outbox as a lease queue\<close>

text \<open>What holds of a row at every moment: the columns' check constraints, and that exactly the rows
  being published carry a lease, except that a row whose result arrived early keeps the lease of the
  publisher that was sending it.\<close>

definition dispatch_ok :: "dispatch_row \<Rightarrow> bool" where
  "dispatch_ok r \<longleftrightarrow>
     do_publish_state r \<in> set [''pending'', ''publishing'', ''published'', ''ambiguous'', ''expired'', ''repaired''] \<and>
     0 \<le> do_publish_attempts r \<and> do_publish_attempts r \<le> 3 \<and>
     (do_publish_state r = ''pending'' \<longrightarrow> do_publish_attempts r < 3) \<and>
     (do_publish_state r = ''publishing'' \<longrightarrow> do_publish_lease_token r \<noteq> None) \<and>
     (do_publish_lease_token r \<noteq> None \<longrightarrow>
        do_publish_state r \<in> set [''publishing'', ''repaired''] \<and> 1 \<le> do_publish_attempts r) \<and>
     (do_publish_lease_token r \<noteq> None \<longleftrightarrow> do_publish_lease_expires_at r \<noteq> None) \<and>
     do_message_deduplication_id r = do_job_id r \<and> do_message_group_id r = do_job_id r"

definition dispatch_settlement_ok :: "dispatch_settlement \<Rightarrow> dispatch_row \<Rightarrow> bool" where
  "dispatch_settlement_ok s r =
     (case s of Settle_Send_Failed _ state _ \<Rightarrow> state = (if do_publish_attempts r \<ge> 3 then ''ambiguous'' else ''pending'')
      | _ \<Rightarrow> True)"

lemma dispatch_settle_ok:
  "dispatch_ok r \<Longrightarrow> dispatch_settlement_ok s r \<Longrightarrow> dispatch_ok (settle_row s r)"
  by (cases s) (simp_all add: dispatch_ok_def settle_row_def dispatch_settlement_ok_def)

interpretation dispatch: lease_queue do_job_id do_publish_lease_token dispatch_ready "\<lambda>r. do_publish_lease_token r \<noteq> None"
  dispatch_ok lease_dispatch settle_row dispatch_settlement_ok reclaim_row
proof (unfold_locales, goal_cases)
  case (1 r) then show ?case by simp
next
  case (2 r c) then show ?case by (auto simp: dispatch_ready_def dispatch_ok_def)
next
  case (3 c t r) then show ?case by (simp add: lease_dispatch_def)
next
  case (4 r c t) then show ?case by (simp add: lease_dispatch_def)
next
  case (5 r c t) then show ?case by (simp add: lease_dispatch_def dispatch_ok_def dispatch_ready_def)
next
  case (6 s r) then show ?case by (cases s) (simp_all add: settle_row_def)
next
  case (7 s r) then show ?case by (cases s) (simp_all add: settle_row_def)
next
  case (8 r s) then show ?case by (intro dispatch_settle_ok)
next
  case (9 f r) then show ?case by (simp add: reclaim_row_def)
next
  case (10 f r) then show ?case by (simp add: reclaim_row_def)
next
  case (11 r f) then show ?case by (auto simp: reclaim_row_def dispatch_ok_def)
qed

definition dispatch_inv :: "database \<Rightarrow> bool" where
  "dispatch_inv db \<longleftrightarrow>
     distinct (map do_job_id (check_dispatch_outbox db)) \<and> (\<forall>r\<in>set (check_dispatch_outbox db). dispatch_ok r)"

subsection \<open>Steps that move no attempt\<close>

text \<open>The message that a row stands for; the lease, the counters and the state are not part of it.\<close>

definition row_message :: "dispatch_row \<Rightarrow> SendInput" where
  "row_message r = send_input (item_of [] r)"

lemma send_input_item [simp]: "send_input (item_of t r) = row_message r"
  by (simp add: row_message_def send_input_def item_of_def)

lemma row_message_dedup: "dispatch_ok r \<Longrightarrow> si_DeduplicationID (row_message r) = do_job_id r"
  by (simp add: row_message_def send_input_def item_of_def dispatch_ok_def)

definition row_step :: "dispatch_row \<Rightarrow> dispatch_row \<Rightarrow> bool" where
  "row_step r r' \<longleftrightarrow>
     do_job_id r' = do_job_id r \<and> row_message r' = row_message r \<and> do_publish_attempts r' = do_publish_attempts r \<and>
     (do_publish_lease_token r' = None \<or> do_publish_lease_token r' = do_publish_lease_token r)"

definition quiet_step :: "database \<Rightarrow> database \<Rightarrow> bool" where
  "quiet_step db db' \<longleftrightarrow>
     dispatch_inv db' \<and> list_all2 row_step (check_dispatch_outbox db) (check_dispatch_outbox db') \<and>
     db_rand db' = db_rand db \<and> db_drawn db \<le> db_drawn db'"

lemma row_step_refl [simp]: "row_step r r"
  by (simp add: row_step_def)

lemma row_step_trans: "row_step r s \<Longrightarrow> row_step s t \<Longrightarrow> row_step r t"
  by (auto simp: row_step_def)

lemma quiet_step_refl: "dispatch_inv db \<Longrightarrow> quiet_step db db"
  by (simp add: quiet_step_def list_all2_refl)

lemma quiet_step_trans: "quiet_step a b \<Longrightarrow> quiet_step b c \<Longrightarrow> quiet_step a c"
  using list_all2_trans[of row_step row_step row_step, OF row_step_trans]
  by (auto simp: quiet_step_def)

lemma quiet_stepI:
  assumes "dispatch_inv db" "check_dispatch_outbox db' = update_where p f (check_dispatch_outbox db)"
    and "\<And>r. r \<in> set (check_dispatch_outbox db) \<Longrightarrow> p r \<Longrightarrow> dispatch_ok r \<Longrightarrow> row_step r (f r) \<and> dispatch_ok (f r)"
    and "db_rand db' = db_rand db" "db_drawn db' = db_drawn db"
  shows "quiet_step db db'"
proof -
  have ok: "\<forall>r\<in>set (check_dispatch_outbox db). dispatch_ok r" and dist: "distinct (map do_job_id (check_dispatch_outbox db))"
    using assms(1) by (simp_all add: dispatch_inv_def)
  have rows: "list_all2 row_step (check_dispatch_outbox db) (check_dispatch_outbox db')"
    unfolding assms(2) using assms(3) ok by (intro update_where_list_all2) auto
  have "map do_job_id (check_dispatch_outbox db') = map do_job_id (check_dispatch_outbox db)"
    using rows by (auto simp: list_all2_conv_all_nth row_step_def intro!: nth_equalityI)
  moreover have "\<forall>r\<in>set (check_dispatch_outbox db'). dispatch_ok r"
    unfolding assms(2) using assms(3) ok by (auto simp: set_update_where)
  ultimately show ?thesis
    using rows dist assms(4,5) by (simp add: quiet_step_def dispatch_inv_def)
qed

lemma settle_row_step: "row_step r (settle_row s r)"
  by (cases s) (simp_all add: row_step_def settle_row_def row_message_def send_input_def item_of_def)

lemma settle_under_quiet:
  assumes "dispatch_inv db"
    and "\<And>r. r \<in> set (check_dispatch_outbox db) \<Longrightarrow> published_under jobID token r \<Longrightarrow> dispatch_settlement_ok s r"
  shows "quiet_step db (settle_under s jobID token db)"
  by (rule quiet_stepI[OF assms(1), where p = "published_under jobID token" and f = "settle_row s"])
    (simp_all add: settle_under_def settle_row_step dispatch_settle_ok assms(2))

lemma other_tables_quiet:
  assumes "dispatch_inv db" "check_dispatch_outbox db' = check_dispatch_outbox db"
    "db_rand db' = db_rand db" "db_drawn db' = db_drawn db"
  shows "quiet_step db db'"
  by (rule quiet_stepI[OF assms(1), where p = "\<lambda>_. False" and f = id]) (simp_all add: update_where_none assms)

lemma reclaim_quiet:
  assumes "dispatch_inv db" "ReclaimDispatchPublisherLeases ts db = Inr (n, db')"
  shows "quiet_step db db'"
  by (rule quiet_stepI[OF assms(1), where p = "publisher_lease_expired ts" and f = "reclaim_row ()"])
    (use assms(2) in \<open>auto simp: ReclaimDispatchPublisherLeases_def reclaim_row_def row_step_def row_message_def
      send_input_def item_of_def dispatch_ok_def\<close>)

lemma repaired_quiet:
  assumes "dispatch_inv db" "MarkDispatchRepaired jobID db = Inr (u, db')"
  shows "quiet_step db db'"
  by (rule quiet_stepI[OF assms(1), where p = "\<lambda>r. do_job_id r = jobID \<and> do_publish_state r \<noteq> ''published''"
        and f = "\<lambda>r. r\<lparr>do_publish_state := ''repaired''\<rparr>"])
    (use assms(2) in \<open>auto simp: MarkDispatchRepaired_def writing_def row_step_def row_message_def send_input_def item_of_def
      dispatch_ok_def\<close>)

text \<open>A claim is current as long as the row under its token has the number of attempts that the claim
  was made with.\<close>

definition item_current :: "outbox_item \<Rightarrow> database \<Rightarrow> bool" where
  "item_current row db \<longleftrightarrow>
     (\<forall>r\<in>set (check_dispatch_outbox db). published_under (ob_JobID row) (ob_Token row) r \<longrightarrow>
        do_publish_attempts r = ob_Attempts row)"

lemma item_current_quiet: "quiet_step db db' \<Longrightarrow> item_current row db \<Longrightarrow> item_current row db'"
  unfolding quiet_step_def item_current_def
  by (metis list_all2_source row_step_def option.distinct(1))

lemma settle_fragment_ends:
  assumes "dispatch_inv db" "item_current row db"
  shows "ends_in (settle_fragment ts row reply) db (\<lambda>_. True) (\<lambda>_ db'. quiet_step db db')"
proof (cases reply)
  case (Inl e)
  have "quiet_step db (settle_under (Settle_Send_Failed ts (failure_state row) (failure_delay row)) (ob_JobID row) (ob_Token row) db)"
    using assms(2) by (intro settle_under_quiet[OF assms(1)])
      (auto simp: dispatch_settlement_ok_def failure_state_def item_current_def)
  then show ?thesis
    using Inl unfolding settle_fragment_def MarkDispatchPublishFailure_def
    by (auto intro!: ends_writing[where q = "\<lambda>a h k. k a"] ends_done)
next
  case (Inr m)
  have first: "quiet_step db db1" if "MarkDispatchPublished ts m (ob_JobID row) (ob_Token row) db = Inr (a, db1)" for a db1
    using that by (auto simp: MarkDispatchPublished_def dispatch_settlement_ok_def intro!: settle_under_quiet[OF assms(1)] split: if_splits)
  have second: "quiet_step db db2" if "quiet_step db db1" "MarkCheckJobPublished m (ob_JobID row) db1 = Inr (a, db2)" for a db1 db2
    using that by (intro quiet_step_trans[OF that(1)] other_tables_quiet)
      (auto simp: MarkCheckJobPublished_def quiet_step_def split: if_splits)
  have "ends_in (\<lambda>h k. query (MarkDispatchPublished ts m (ob_JobID row) (ob_Token row)) (h \<circ> Db)
      (\<lambda>_. query (MarkCheckJobPublished m (ob_JobID row)) (h \<circ> Db) k)) db (\<lambda>_. True) (\<lambda>_ db'. quiet_step db db')"
    by (rule ends_bind[OF ends_stmt[where Q = "\<lambda>_ d. quiet_step db d"], where q = "\<lambda>_ h k. query (MarkCheckJobPublished m (ob_JobID row)) (h \<circ> Db) k"])
      (auto intro!: ends_stmt intro: first second)
  then show ?thesis
    unfolding settle_fragment_def Inr sum.case .
qed

lemma settle_dispatch_quiet:
  assumes "dispatch_inv (durable w)" "item_current row (durable w)" "settle_dispatch ts row reply w = (r, w')"
  shows "quiet_step (durable w) (durable w')" "outside w' = outside w"
proof -
  have "case settle_dispatch ts row reply w of (r, w') \<Rightarrow> quiet_step (durable w) (durable w') \<and> outside w' = outside w"
    unfolding settle_dispatch_def
    by (rule transactionI[OF settle_fragment_ends[OF assms(1,2)]]) (auto intro: quiet_step_refl[OF assms(1)])
  then show "quiet_step (durable w) (durable w')" "outside w' = outside w"
    using assms(3) by simp_all
qed

lemma ReclaimPublisherLeases_quiet:
  assumes "dispatch_inv (durable w)" "ReclaimPublisherLeases ts w = (r, w')"
  shows "quiet_step (durable w) (durable w')"
proof -
  have "ends_in (\<lambda>h k. query (ReclaimDispatchPublisherLeases ts) (h \<circ> Db) (\<lambda>n. k (int n))) (durable w) (\<lambda>_. True)
      (\<lambda>_ db'. quiet_step (durable w) db')"
    by (rule ends_bind[OF ends_stmt[where Q = "\<lambda>_ d. quiet_step (durable w) d"], where q = "\<lambda>n h k. k (int n)"])
      (auto intro: reclaim_quiet[OF assms(1)] ends_done)
  then have "case ReclaimPublisherLeases ts w of (r, w') \<Rightarrow> quiet_step (durable w) (durable w')"
    unfolding ReclaimPublisherLeases_def
    by (rule transactionI) (auto intro: quiet_step_refl[OF assms(1)])
  then show ?thesis
    using assms(2) by simp
qed

subsection \<open>Claiming\<close>

text \<open>A claim leases one ready row under a fresh token and counts the attempt.\<close>

definition claimed_from :: "time \<Rightarrow> outbox_item \<Rightarrow> database \<Rightarrow> database \<Rightarrow> bool" where
  "claimed_from ts row db db' \<longleftrightarrow>
     (\<exists>r\<in>set (check_dispatch_outbox db). dispatch_ready ts r \<and> row = item_of (fresh_uuid db) r \<and>
        check_dispatch_outbox db' =
          update_where (\<lambda>x. do_job_id x = do_job_id r) (lease_dispatch ts (fresh_uuid db)) (check_dispatch_outbox db)) \<and>
     db_rand db' = db_rand db \<and> db_drawn db' = Suc (db_drawn db)"

lemma claimed_from_inv:
  assumes "dispatch_inv db" "claimed_from ts row db db'"
  shows "dispatch_inv db'"
  using assms dispatch.taken_ok[of "check_dispatch_outbox db"]
  by (auto simp: claimed_from_def dispatch_inv_def dispatch.taken_keys)

lemma ClaimDispatchOutbox_Some:
  assumes "ClaimDispatchOutbox ts db = Inr (Some row, db')"
  shows "claimed_from ts row db db'"
proof -
  obtain r where r: "first_by do_created_at (dispatch_ready ts) (check_dispatch_outbox db) = Some r"
    using assms by (auto simp: ClaimDispatchOutbox_def split: option.splits)
  then have "r \<in> set (check_dispatch_outbox db)" "dispatch_ready ts r"
    using first_by_Some[OF r] by auto
  then show ?thesis
    using assms r by (auto simp: ClaimDispatchOutbox_def claimed_from_def drawn_uuid_def split: option.splits)
qed

lemma ClaimDispatchOutbox_None: "ClaimDispatchOutbox ts db = Inr (None, db') \<Longrightarrow> db' = db"
  by (auto simp: ClaimDispatchOutbox_def split: option.splits)

lemma ClaimDispatchOutbox_Inl: "ClaimDispatchOutbox ts db \<noteq> Inl c"
  by (auto simp: ClaimDispatchOutbox_def split: option.splits)

lemma expire_fragment_ends:
  assumes "dispatch_inv db" "E = (\<lambda>_. False)"
  shows "ends_in (\<lambda>h k.
      query (ExpireClaimedDispatch (ob_JobID row) (ob_Token row)) (h \<circ> touched) (\<lambda>_.
      query (ExpireUnpublishedCheckJob ts (ob_JobID row)) (h \<circ> touched) (\<lambda>_.
      query (InsertExpiredCoverageGapFromJob (ob_JobID row)) (h \<circ> touched) (\<lambda>_. k (Inr (row, True)))))) db E
    (\<lambda>v db'. v = Inr (row, True) \<and> quiet_step db db' \<and>
       check_dispatch_outbox db' = check_dispatch_outbox (settle_under Settle_Expired (ob_JobID row) (ob_Token row) db))"
proof -
  have "quiet_step db (settle_under Settle_Expired (ob_JobID row) (ob_Token row) db)" (is "quiet_step _ ?db1")
    by (rule settle_under_quiet[OF assms(1)]) (simp add: dispatch_settlement_ok_def)
  moreover have "quiet_step ?db1 (?db1\<lparr>check_jobs := js, monitoring_coverage_gaps := gs\<rparr>)" for js gs
    using calculation by (intro other_tables_quiet) (simp_all add: quiet_step_def)
  ultimately have "quiet_step db (?db1\<lparr>check_jobs := js, monitoring_coverage_gaps := gs\<rparr>)" for js gs
    by (rule quiet_step_trans)
  then show ?thesis
    unfolding ExpireClaimedDispatch_def ExpireUnpublishedCheckJob_def InsertExpiredCoverageGapFromJob_def assms(2)
    by (intro ends_writing ends_done) simp
qed

lemma claim_fragment_ends:
  assumes "dispatch_inv db"
  shows "ends_in (claim_fragment_of now ts) db (\<lambda>_. False)
    (\<lambda>v db'. case v of
        Inl r \<Rightarrow> r = Inl (False, None) \<and> db' = db \<and> (\<forall>r\<in>set (check_dispatch_outbox db). \<not> dispatch_ready ts r)
      | Inr (row, expired) \<Rightarrow>
          (\<exists>db1. claimed_from ts row db db1 \<and> expired = (now > ob_Expiry row) \<and>
             (if expired
              then quiet_step db1 db' \<and>
                check_dispatch_outbox db' = check_dispatch_outbox (settle_under Settle_Expired (ob_JobID row) (ob_Token row) db1)
              else db' = db1)))"
    (is "ends_in _ _ _ ?Q")
  unfolding claim_fragment_of_def
proof (rule ends_bind[OF ends_stmt[where Q = "\<lambda>a d'. ClaimDispatchOutbox ts db = Inr (a, d')"]], goal_cases)
  case (3 claimed db1)
  show ?case
  proof (cases claimed)
    case None
    then have "first_by do_created_at (dispatch_ready ts) (check_dispatch_outbox db) = None"
      using 3 by (auto simp: ClaimDispatchOutbox_def split: option.splits)
    then have none: "\<forall>r\<in>set (check_dispatch_outbox db). \<not> dispatch_ready ts r"
      by (simp add: first_by_None)
    have "ends_in (\<lambda>h k. k (Inl (Inl (False, None)))) db1 (\<lambda>_. False) ?Q"
      using ClaimDispatchOutbox_None[of ts db db1] 3 None none by (intro ends_done) simp
    then show ?thesis
      unfolding None option.case .
  next
    case (Some row)
    have claimed1: "claimed_from ts row db db1"
      using 3 Some by (intro ClaimDispatchOutbox_Some) simp
    note inv = claimed_from_inv[OF assms claimed1]
    show ?thesis
    proof (cases "now > ob_Expiry row")
      case True
      have "ends_in (\<lambda>h k.
          query (ExpireClaimedDispatch (ob_JobID row) (ob_Token row)) (h \<circ> touched) (\<lambda>_.
          query (ExpireUnpublishedCheckJob ts (ob_JobID row)) (h \<circ> touched) (\<lambda>_.
          query (InsertExpiredCoverageGapFromJob (ob_JobID row)) (h \<circ> touched) (\<lambda>_. k (Inr (row, True)))))) db1 (\<lambda>_. False) ?Q"
        by (rule ends_weaken[OF expire_fragment_ends[OF inv refl]]) (use claimed1 True in auto)
      then show ?thesis
        unfolding Some option.case if_P[OF True] .
    next
      case False
      have "ends_in (\<lambda>h k. k (Inr (row, False))) db1 (\<lambda>_. False) ?Q"
        by (intro ends_done) (use claimed1 False in auto)
      then show ?thesis
        unfolding Some option.case if_not_P[OF False] .
    qed
  qed
qed (simp_all add: ClaimDispatchOutbox_Inl)

lemma claim_dispatch_outcome:
  assumes "dispatch_inv (durable w)" "claim_dispatch now ts w = (v, w')"
  shows "outside w' = outside w"
    and "case v of
        Inr row \<Rightarrow> claimed_from ts row (durable w) (durable w')
      | Inl r \<Rightarrow> durable w' = durable w \<or>
          (\<exists>row db1. claimed_from ts row (durable w) db1 \<and> quiet_step db1 (durable w'))"
proof -
  let ?P = "\<lambda>v w'. outside w' = outside w \<and> (case v of
        Inr row \<Rightarrow> claimed_from ts row (durable w) (durable w')
      | Inl r \<Rightarrow> durable w' = durable w \<or>
          (\<exists>row db1. claimed_from ts row (durable w) db1 \<and> quiet_step db1 (durable w')))"
  have lost: "\<exists>row db1. claimed_from ts row (durable w) db1 \<and> quiet_step db1 d"
    if p: "case p of (row, expired) \<Rightarrow> \<exists>db1. claimed_from ts row (durable w) db1 \<and> expired = (now > ob_Expiry row) \<and>
        (if expired
         then quiet_step db1 d \<and>
           check_dispatch_outbox d = check_dispatch_outbox (settle_under Settle_Expired (ob_JobID row) (ob_Token row) db1)
         else d = db1)" for p d
  proof -
    obtain row expired db1 where "p = (row, expired)" "claimed_from ts row (durable w) db1"
      "if expired then quiet_step db1 d else d = db1"
      using p by (cases p) (auto split: if_splits)
    then show ?thesis
      using quiet_step_refl[OF claimed_from_inv[OF assms(1)], of ts row db1] by (cases expired) auto
  qed
  have "case claim_dispatch now ts w of (v, w') \<Rightarrow> ?P v w'"
    unfolding claim_dispatch_def
    by (rule unit_of_workI[OF claim_fragment_ends[OF assms(1)]]) (use lost in \<open>auto split: prod.splits if_splits\<close>)
  then show "outside w' = outside w"
    and "case v of
        Inr row \<Rightarrow> claimed_from ts row (durable w) (durable w')
      | Inl r \<Rightarrow> durable w' = durable w \<or>
          (\<exists>row db1. claimed_from ts row (durable w) db1 \<and> quiet_step db1 (durable w'))"
    using assms(2) by simp_all
qed

subsection \<open>Several publishers\<close>

text \<open>
  Any number of publishers, the result consumer and the maintenance loop, interleaved.  A state is the
  database, the messages that reached the queue, the claims that are not sent yet and the claims that
  are sent but not settled.  Between the transactions and the call of \<open>PublishNext\<close> every other step
  may happen, a transaction may run into any faults, a call may or may not reach the queue, and a
  publisher may stop for good.
\<close>

type_synonym publishing = "database \<times> SendInput list \<times> outbox_item list \<times> outbox_item list"

inductive publishing_step :: "publishing \<Rightarrow> publishing \<Rightarrow> bool" where
  idle: "claim_dispatch now ts (w :: (database, SendInput list) world) = (Inl r, w') \<Longrightarrow>
    publishing_step (durable w, log, U, S) (durable w', log, U, S)"
| claim: "claim_dispatch now ts (w :: (database, SendInput list) world) = (Inr row, w') \<Longrightarrow>
    publishing_step (durable w, log, U, S) (durable w', log, row # U, S)"
| send: "publishing_step (db, log, U @ row # U', S) (db, send_input row # log, U @ U', row # S)"
| unsent: "publishing_step (db, log, U @ row # U', S) (db, log, U @ U', row # S)"
| settle: "settle_dispatch ts row reply (w :: (database, SendInput list) world) = (r, w') \<Longrightarrow>
    publishing_step (durable w, log, U, S @ row # S') (durable w', log, U, S @ S')"
| stop_unsent: "publishing_step (db, log, U @ row # U', S) (db, log, U @ U', S)"
| stop_sent: "publishing_step (db, log, U, S @ row # S') (db, log, U, S @ S')"
| reclaim: "ReclaimPublisherLeases ts (w :: (database, SendInput list) world) = (r, w') \<Longrightarrow>
    publishing_step (durable w, log, U, S) (durable w', log, U, S)"
| repaired: "MarkDispatchRepaired jobID db = Inr (u, db') \<Longrightarrow> publishing_step (db, log, U, S) (db', log, U, S)"

text \<open>The invariant of the interleaving: every message on the queue and every claim in flight is that of a
  row, the sends and the unsent claims of a row together do not exceed its attempts, and claims are
  current under tokens that were drawn.\<close>

definition publishing_inv :: "publishing \<Rightarrow> bool" where
  "publishing_inv = (\<lambda>(db, log, U, S).
     dispatch_inv db \<and> inj (db_rand db) \<and>
     set log \<subseteq> row_message ` set (check_dispatch_outbox db) \<and>
     send_input ` set (U @ S) \<subseteq> row_message ` set (check_dispatch_outbox db) \<and>
     (\<forall>r\<in>set (check_dispatch_outbox db).
        int (count_where (\<lambda>m. m = row_message r) log) + int (count_where (\<lambda>i. send_input i = row_message r) U)
          \<le> do_publish_attempts r) \<and>
     (\<forall>i\<in>set (U @ S). item_current i db \<and> was_drawn db (ob_Token i)))"

lemma row_step_messages: "list_all2 row_step xs ys \<Longrightarrow> map row_message ys = map row_message xs"
  by (induction rule: list_all2_induct) (simp_all add: row_step_def)

lemma quiet_messages:
  "quiet_step db db' \<Longrightarrow> row_message ` set (check_dispatch_outbox db') = row_message ` set (check_dispatch_outbox db)"
  using row_step_messages[of "check_dispatch_outbox db" "check_dispatch_outbox db'"]
  by (metis quiet_step_def list.set_map)

lemma was_drawn_quiet: "quiet_step db db' \<Longrightarrow> was_drawn db t \<Longrightarrow> was_drawn db' t"
  by (auto simp: quiet_step_def intro: was_drawn_mono)

lemma publishing_inv_quiet:
  assumes "publishing_inv (db, log, U, S)" "quiet_step db db'"
  shows "publishing_inv (db', log, U, S)"
proof -
  have rows: "list_all2 row_step (check_dispatch_outbox db) (check_dispatch_outbox db')"
    and db': "dispatch_inv db'" "db_rand db' = db_rand db"
    using assms(2) by (simp_all add: quiet_step_def)
  have "int (count_where (\<lambda>m. m = row_message r') log) + int (count_where (\<lambda>i. send_input i = row_message r') U)
      \<le> do_publish_attempts r'" if r': "r' \<in> set (check_dispatch_outbox db')" for r'
  proof -
    obtain r where r: "r \<in> set (check_dispatch_outbox db)" "row_step r r'"
      using list_all2_source[OF rows r'] by blast
    with assms(1) show ?thesis
      by (simp add: publishing_inv_def row_step_def)
  qed
  then show ?thesis
    using assms(1) db' quiet_messages[OF assms(2)] item_current_quiet[OF assms(2)] was_drawn_quiet[OF assms(2)]
    by (simp add: publishing_inv_def)
qed

lemma item_of_sel [simp]:
  "ob_Token (item_of t r) = t" "ob_JobID (item_of t r) = do_job_id r" "ob_Attempts (item_of t r) = do_publish_attempts r + 1"
  by (simp_all add: item_of_def)

lemma lease_dispatch_sel [simp]:
  "do_job_id (lease_dispatch ts t r) = do_job_id r" "row_message (lease_dispatch ts t r) = row_message r"
  "do_publish_attempts (lease_dispatch ts t r) = do_publish_attempts r + 1"
  "do_publish_lease_token (lease_dispatch ts t r) = Some t"
  by (simp_all add: lease_dispatch_def row_message_def send_input_def item_of_def)

lemma row_message_inject:
  assumes "dispatch_inv db" "r \<in> set (check_dispatch_outbox db)" "x \<in> set (check_dispatch_outbox db)"
    "row_message x = row_message r"
  shows "x = r"
proof -
  have "dispatch_ok x" "dispatch_ok r"
    using assms(1-3) by (simp_all add: dispatch_inv_def)
  then have "do_job_id x = do_job_id r"
    using row_message_dedup[of x] row_message_dedup[of r] assms(4) by simp
  then show ?thesis
    using assms(1-3) dispatch.distinct_key_unique by (auto simp: dispatch_inv_def)
qed

lemma publishing_inv_claim:
  assumes inv: "publishing_inv (db, log, U, S)" and "claimed_from ts row db db'"
  shows "publishing_inv (db', log, row # U, S)"
proof -
  let ?t = "fresh_uuid db"
  from assms(2) obtain r where r: "r \<in> set (check_dispatch_outbox db)" "dispatch_ready ts r" "row = item_of ?t r"
    and rows: "check_dispatch_outbox db' = update_where (\<lambda>x. do_job_id x = do_job_id r) (lease_dispatch ts ?t) (check_dispatch_outbox db)"
    and rand: "db_rand db' = db_rand db" "db_drawn db' = Suc (db_drawn db)"
    by (auto simp: claimed_from_def)
  have db: "dispatch_inv db" "inj (db_rand db)"
    using inv by (simp_all add: publishing_inv_def)
  have dist: "distinct (map do_job_id (check_dispatch_outbox db))"
    using db(1) by (simp add: dispatch_inv_def)
  have row: "send_input row = row_message r" "ob_Token row = ?t" "ob_JobID row = do_job_id r"
    "ob_Attempts row = do_publish_attempts r + 1"
    using r(3) by simp_all
  have source: "\<exists>y\<in>set (check_dispatch_outbox db). if y = r then x = lease_dispatch ts ?t r else x = y \<and> do_job_id y \<noteq> do_job_id r"
    if x: "x \<in> set (check_dispatch_outbox db')" for x
  proof -
    obtain y where "y \<in> set (check_dispatch_outbox db)" "x = (if do_job_id y = do_job_id r then lease_dispatch ts ?t y else y)"
      using x unfolding rows by (rule in_update_whereE)
    then show ?thesis
      using dispatch.distinct_key_unique[OF dist r(1), of y] by (intro bexI[of _ y]) auto
  qed
  have messages: "row_message ` set (check_dispatch_outbox db') = row_message ` set (check_dispatch_outbox db)"
  proof -
    have "row_message (if do_job_id x = do_job_id r then lease_dispatch ts ?t x else x) = row_message x" for x
      by simp
    then have "map row_message (check_dispatch_outbox db') = map row_message (check_dispatch_outbox db)"
      unfolding rows update_where_def by simp
    then show ?thesis
      by (metis list.set_map)
  qed
  have drawn: "was_drawn db' t" if "was_drawn db t" for t
    using that rand by (auto intro: was_drawn_mono)
  have old: "item_current i db'" if "item_current i db" "was_drawn db (ob_Token i)" for i
    unfolding item_current_def
  proof (intro ballI impI)
    fix x assume x: "x \<in> set (check_dispatch_outbox db')" "published_under (ob_JobID i) (ob_Token i) x"
    obtain y where y: "y \<in> set (check_dispatch_outbox db)" "if y = r then x = lease_dispatch ts ?t r else x = y \<and> do_job_id y \<noteq> do_job_id r"
      using source[OF x(1)] by blast
    have "ob_Token i \<noteq> ?t"
      using that(2) fresh_not_drawn[OF db(2)] by metis
    with y x(2) have "x = y"
      by (auto split: if_splits)
    with that(1) x(2) y(1) show "do_publish_attempts x = ob_Attempts i"
      by (simp add: item_current_def)
  qed
  have new: "item_current row db'"
    unfolding item_current_def row
  proof (intro ballI impI)
    fix x assume x: "x \<in> set (check_dispatch_outbox db')" "published_under (do_job_id r) ?t x"
    obtain y where "y \<in> set (check_dispatch_outbox db)" "if y = r then x = lease_dispatch ts ?t r else x = y \<and> do_job_id y \<noteq> do_job_id r"
      using source[OF x(1)] by blast
    with x(2) show "do_publish_attempts x = do_publish_attempts r + 1"
      by (auto split: if_splits)
  qed
  have fresh: "was_drawn db' ?t"
    using rand by (auto simp: was_drawn_def fresh_uuid_def)
  have count: "int (count_where (\<lambda>m. m = row_message x) log) + int (count_where (\<lambda>i. send_input i = row_message x) (row # U))
      \<le> do_publish_attempts x" if x: "x \<in> set (check_dispatch_outbox db')" for x
  proof -
    obtain y where y: "y \<in> set (check_dispatch_outbox db)" "if y = r then x = lease_dispatch ts ?t r else x = y \<and> do_job_id y \<noteq> do_job_id r"
      using source[OF x] by blast
    have "int (count_where (\<lambda>m. m = row_message y) log) + int (count_where (\<lambda>i. send_input i = row_message y) U)
        \<le> do_publish_attempts y"
      using inv y(1) by (simp add: publishing_inv_def)
    then show ?thesis
      using y row row_message_inject[OF db(1) y(1) r(1)] by (auto split: if_splits)
  qed
  show ?thesis
    using inv claimed_from_inv[OF db(1) assms(2)] rand(1) messages count old new fresh drawn row r(1)
    by (auto simp: publishing_inv_def)
qed

lemma publishing_inv_parts:
  assumes "publishing_inv (db, log, U, S)"
  shows "dispatch_inv db" and "i \<in> set (U @ S) \<Longrightarrow> item_current i db"
  using assms by (auto simp: publishing_inv_def)

lemma count_where_mono_split:
  "count_where p (U @ U') \<le> count_where p (U @ x # U')"
  by simp

lemma publishing_inv_drop:
  assumes "publishing_inv (db, log, U, S)" "set U' \<subseteq> set U" "set S' \<subseteq> set (U @ S)"
    and "\<And>p. count_where p U' \<le> count_where p U"
  shows "publishing_inv (db, log, U', S')"
proof -
  have "int (count_where (\<lambda>m. m = row_message r) log) + int (count_where (\<lambda>i. send_input i = row_message r) U')
      \<le> do_publish_attempts r" if "r \<in> set (check_dispatch_outbox db)" for r
  proof -
    have "int (count_where (\<lambda>m. m = row_message r) log) + int (count_where (\<lambda>i. send_input i = row_message r) U)
      \<le> do_publish_attempts r"
      using assms(1) that by (simp add: publishing_inv_def)
    then show ?thesis
      using assms(4)[of "\<lambda>i. send_input i = row_message r"] by linarith
  qed
  moreover have "set (U' @ S') \<subseteq> set (U @ S)"
    using assms(2,3) by auto
  ultimately show ?thesis
    using assms(1) unfolding publishing_inv_def by blast
qed

lemma publishing_inv_send:
  assumes "publishing_inv (db, log, U @ row # U', S)"
  shows "publishing_inv (db, send_input row # log, U @ U', row # S)"
proof -
  have "publishing_inv (db, log, U @ U', row # S)"
    by (rule publishing_inv_drop[OF assms]) auto
  moreover have "int (count_where (\<lambda>m. m = row_message r) (send_input row # log)) +
      int (count_where (\<lambda>i. send_input i = row_message r) (U @ U')) \<le> do_publish_attempts r"
    if "r \<in> set (check_dispatch_outbox db)" for r
  proof -
    have "int (count_where (\<lambda>m. m = row_message r) log) + int (count_where (\<lambda>i. send_input i = row_message r) (U @ row # U'))
      \<le> do_publish_attempts r"
      using assms that by (simp only: publishing_inv_def prod.case)
    then show ?thesis
      by (simp split: if_splits)
  qed
  ultimately show ?thesis
    using assms by (auto simp: publishing_inv_def)
qed

lemma publishing_inv_step:
  assumes "publishing_step s s'" "publishing_inv s"
  shows "publishing_inv s'"
  using assms
proof (induction rule: publishing_step.induct)
  case (idle now ts w r w' log U S)
  note inv = publishing_inv_parts(1)[OF idle.prems]
  consider "durable w' = durable w" | row db1 where "claimed_from ts row (durable w) db1" "quiet_step db1 (durable w')"
    using claim_dispatch_outcome(2)[OF inv idle.hyps] by auto
  then show ?case
  proof cases
    case 1
    then show ?thesis using idle.prems by simp
  next
    case (2 row db1)
    have "publishing_inv (db1, log, row # U, S)"
      by (rule publishing_inv_claim[OF idle.prems 2(1)])
    then have "publishing_inv (db1, log, U, S)"
      by (rule publishing_inv_drop) auto
    then show ?thesis
      using 2(2) by (rule publishing_inv_quiet)
  qed
next
  case (claim now ts w row w' log U S)
  then show ?case
    using claim_dispatch_outcome(2)[OF publishing_inv_parts(1)[OF claim.prems] claim.hyps]
    by (auto intro: publishing_inv_claim)
next
  case (send db log U row U' S)
  then show ?case by (rule publishing_inv_send)
next
  case (unsent db log U row U' S)
  then show ?case by (rule publishing_inv_drop) auto
next
  case (settle ts row reply w r w' log U S S')
  have "publishing_inv (durable w', log, U, S @ row # S')"
    by (rule publishing_inv_quiet[OF settle.prems settle_dispatch_quiet(1)[OF publishing_inv_parts[OF settle.prems] settle.hyps]]) simp
  then show ?case by (rule publishing_inv_drop) auto
next
  case (stop_unsent db log U row U' S)
  then show ?case by (rule publishing_inv_drop) auto
next
  case (stop_sent db log U S row S')
  then show ?case by (rule publishing_inv_drop) auto
next
  case (reclaim ts w r w' log U S)
  then show ?case
    using ReclaimPublisherLeases_quiet[OF publishing_inv_parts(1)[OF reclaim.prems] reclaim.hyps] by (auto intro: publishing_inv_quiet)
next
  case (repaired jobID db u db' log U S)
  then show ?case
    using repaired_quiet[OF publishing_inv_parts(1)[OF repaired.prems] repaired.hyps] by (auto intro: publishing_inv_quiet)
qed

lemma publishing_inv_steps: "publishing_step\<^sup>*\<^sup>* s s' \<Longrightarrow> publishing_inv s \<Longrightarrow> publishing_inv s'"
  by (induction rule: rtranclp_induct) (auto intro: publishing_inv_step)

subsection \<open>Progress\<close>

text \<open>The loop of the publisher in \<open>cmd/monitor-engine\<close>: one \<open>PublishNext\<close> per iteration until the process
  is told to stop, each iteration with the times its clock and its two transactions read; waiting and
  logging between iterations are left out.\<close>

fun runPublisher ::
  "(SendInput \<Rightarrow> 'x \<Rightarrow> (go_error + string) \<times> 'x) \<Rightarrow> (time \<times> time \<times> time) list \<Rightarrow> ('x, publish_result list) handler" where
  "runPublisher send [] = ret []"
| "runPublisher send ((now, ts, ts') # clock) =
     and_then (PublishNext send now ts ts') (\<lambda>r. and_then (runPublisher send clock) (\<lambda>rs. ret (r # rs)))"

definition accepting :: "(SendInput \<Rightarrow> 'x \<Rightarrow> (go_error + string) \<times> 'x) \<Rightarrow> bool" where
  "accepting send \<longleftrightarrow> (\<forall>m x. \<exists>messageID x'. send m x = (Inr messageID, x') \<and> length messageID \<le> 128)"

text \<open>A claimed row that is settled under its new token.\<close>

lemma settle_claimed:
  "update_where (published_under (do_job_id r) t) f (update_where (\<lambda>x. do_job_id x = do_job_id r) (lease_dispatch ts t) rows) =
     update_where (\<lambda>x. do_job_id x = do_job_id r) (f \<circ> lease_dispatch ts t) rows"
  by (induction rows) simp_all

definition finished_by :: "dispatch_settlement \<Rightarrow> time \<Rightarrow> database \<Rightarrow> database \<Rightarrow> bool" where
  "finished_by s ts db db' \<longleftrightarrow>
     (\<exists>r\<in>set (check_dispatch_outbox db). dispatch_ready ts r \<and> check_dispatch_outbox db' =
        update_where (\<lambda>x. do_job_id x = do_job_id r) (settle_row s \<circ> lease_dispatch ts (fresh_uuid db)) (check_dispatch_outbox db))"

lemma finished_by_claimed:
  assumes "claimed_from ts row db db1"
    and "check_dispatch_outbox db' = check_dispatch_outbox (settle_under s (ob_JobID row) (ob_Token row) db1)"
  shows "finished_by s ts db db'"
proof -
  from assms(1) obtain r where r: "r \<in> set (check_dispatch_outbox db)" "dispatch_ready ts r" "row = item_of (fresh_uuid db) r"
    "check_dispatch_outbox db1 = update_where (\<lambda>x. do_job_id x = do_job_id r) (lease_dispatch ts (fresh_uuid db)) (check_dispatch_outbox db)"
    unfolding claimed_from_def by blast
  have "check_dispatch_outbox db' =
      update_where (\<lambda>x. do_job_id x = do_job_id r) (settle_row s \<circ> lease_dispatch ts (fresh_uuid db)) (check_dispatch_outbox db)"
    unfolding assms(2) settle_under_def by (simp only: r(3,4) item_of_sel settle_claimed) simp
  with r(1,2) show ?thesis
    unfolding finished_by_def by blast
qed

lemma claim_dispatch_calm:
  assumes "dispatch_inv (durable w)" "faults w = []" "claim_dispatch now ts w = (v, w')"
  shows "faults w' = []" and "case v of
      Inr row \<Rightarrow> claimed_from ts row (durable w) (durable w')
    | Inl r \<Rightarrow> r = (False, None) \<and> durable w' = durable w \<and> (\<forall>r\<in>set (check_dispatch_outbox (durable w)). \<not> dispatch_ready ts r) \<or>
        r = (True, None) \<and> dispatch_inv (durable w') \<and> finished_by Settle_Expired ts (durable w) (durable w')"
proof -
  let ?P = "\<lambda>v w'. faults w' = [] \<and> (case v of
      Inr row \<Rightarrow> claimed_from ts row (durable w) (durable w')
    | Inl r \<Rightarrow> r = (False, None) \<and> durable w' = durable w \<and> (\<forall>r\<in>set (check_dispatch_outbox (durable w)). \<not> dispatch_ready ts r) \<or>
        r = (True, None) \<and> dispatch_inv (durable w') \<and> finished_by Settle_Expired ts (durable w) (durable w'))"
  have "case claim_dispatch now ts w of (v, w') \<Rightarrow> ?P v w'"
    unfolding claim_dispatch_def
    by (rule unit_of_workI[OF claim_fragment_ends[OF assms(1)]])
      (use assms(2) finished_by_claimed in \<open>auto split: prod.splits if_splits simp: quiet_step_def\<close>)
  then show "faults w' = []" and "case v of
      Inr row \<Rightarrow> claimed_from ts row (durable w) (durable w')
    | Inl r \<Rightarrow> r = (False, None) \<and> durable w' = durable w \<and> (\<forall>r\<in>set (check_dispatch_outbox (durable w)). \<not> dispatch_ready ts r) \<or>
        r = (True, None) \<and> dispatch_inv (durable w') \<and> finished_by Settle_Expired ts (durable w) (durable w')"
    using assms(3) by simp_all
qed

lemma settle_dispatch_calm:
  assumes "faults w = []" "length m \<le> 128" "settle_dispatch ts row (Inr m) w = (r, w')"
  shows "r = (True, None)" "faults w' = []"
    "check_dispatch_outbox (durable w') = check_dispatch_outbox (settle_under (Settle_Published ts m) (ob_JobID row) (ob_Token row) (durable w))"
proof -
  let ?d = "settle_under (Settle_Published ts m) (ob_JobID row) (ob_Token row) (durable w)"
  have "ends_in (\<lambda>h k. query (MarkDispatchPublished ts m (ob_JobID row) (ob_Token row)) (h \<circ> Db)
      (\<lambda>_. query (MarkCheckJobPublished m (ob_JobID row)) (h \<circ> Db) k)) (durable w) (\<lambda>_. False)
      (\<lambda>_ db'. check_dispatch_outbox db' = check_dispatch_outbox ?d)"
    by (rule ends_bind[OF ends_stmt[where Q = "\<lambda>_ d. d = ?d"], where q = "\<lambda>_ h k. query (MarkCheckJobPublished m (ob_JobID row)) (h \<circ> Db) k"])
      (use assms(2) in \<open>auto intro!: ends_stmt simp: MarkDispatchPublished_def MarkCheckJobPublished_def\<close>)
  then have "ends_in (settle_fragment ts row (Inr m)) (durable w) (\<lambda>_. False) (\<lambda>_ db'. check_dispatch_outbox db' = check_dispatch_outbox ?d)"
    unfolding settle_fragment_def sum.case .
  then have "case settle_dispatch ts row (Inr m) w of (r, w') \<Rightarrow>
      r = (True, None) \<and> faults w' = [] \<and> check_dispatch_outbox (durable w') = check_dispatch_outbox ?d"
    unfolding settle_dispatch_def by (rule transactionI) (use assms(1) in simp_all)
  then show "r = (True, None)" "faults w' = []"
    "check_dispatch_outbox (durable w') = check_dispatch_outbox (settle_under (Settle_Published ts m) (ob_JobID row) (ob_Token row) (durable w))"
    using assms(3) by simp_all
qed

text \<open>One fault-free round with an accepting queue: nothing is ready and nothing changes, or the oldest
  ready row is finished.\<close>

definition round_done :: "time \<Rightarrow> database \<Rightarrow> database \<Rightarrow> bool" where
  "round_done ts db db' \<longleftrightarrow>
     db' = db \<and> (\<forall>r\<in>set (check_dispatch_outbox db). \<not> dispatch_ready ts r) \<or>
     dispatch_inv db' \<and> (\<exists>s. (case s of Settle_Send_Failed _ _ _ \<Rightarrow> False | _ \<Rightarrow> True) \<and> finished_by s ts db db')"

lemma PublishNext_calm:
  assumes "dispatch_inv (durable w)" "faults w = []" "accepting send" "PublishNext send now ts ts' w = (r, w')"
  shows "faults w' = []" "snd r = None" "round_done ts (durable w) (durable w')"
proof -
  obtain v w1 where v: "claim_dispatch now ts w = (v, w1)"
    by (cases "claim_dispatch now ts w")
  note claim = claim_dispatch_calm[OF assms(1,2) v]
  have "faults w' = [] \<and> snd r = None \<and> round_done ts (durable w) (durable w')"
  proof (cases v)
    case (Inl r1)
    then have "r = r1" "w' = w1"
      using assms(4) v by (simp_all add: PublishNext_def and_then_def ret_def)
    with claim Inl show ?thesis
      by (auto simp: round_done_def intro: exI[of _ Settle_Expired])
  next
    case (Inr row)
    obtain m x' where m: "send (send_input row) (outside w1) = (Inr m, x')" "length m \<le> 128"
      using assms(3) unfolding accepting_def by blast
    have run: "settle_dispatch ts' row (Inr m) (w1\<lparr>outside := x'\<rparr>) = (r, w')"
      using assms(4) v Inr m claim(1) by (simp add: PublishNext_def and_then_def remote_def)
    note settle = settle_dispatch_calm[OF _ m(2) run]
    have claimed: "claimed_from ts row (durable w) (durable w1)"
      using claim(2) Inr by simp
    have "quiet_step (durable w1) (settle_under (Settle_Published ts' m) (ob_JobID row) (ob_Token row) (durable w1))"
      using claimed_from_inv[OF assms(1) claimed] by (rule settle_under_quiet) (simp add: dispatch_settlement_ok_def)
    then have "dispatch_inv (durable w')"
      using settle(3) claim(1) by (simp add: quiet_step_def dispatch_inv_def)
    moreover have "finished_by (Settle_Published ts' m) ts (durable w) (durable w')"
      using settle(3) claim(1) by (intro finished_by_claimed[OF claimed]) simp
    ultimately show ?thesis
      using settle(1,2) claim(1) by (auto simp: round_done_def intro: exI[of _ "Settle_Published ts' m"])
  qed
  then show "faults w' = []" "snd r = None" "round_done ts (durable w) (durable w')"
    by simp_all
qed

definition drained :: "dispatch_row \<Rightarrow> dispatch_row \<Rightarrow> bool" where
  "drained r r' \<longleftrightarrow>
     r' = r \<or> do_publish_state r = ''pending'' \<and> do_publish_state r' \<in> set [''published'', ''expired''] \<and> do_job_id r' = do_job_id r \<and>
       row_message r' = row_message r"

abbreviation pending_row :: "dispatch_row \<Rightarrow> bool" where
  "pending_row r \<equiv> do_publish_state r = ''pending''"

lemma drained_trans: "drained r s \<Longrightarrow> drained s t \<Longrightarrow> drained r t"
  by (auto simp: drained_def)

lemma finished_row:
  assumes "case s of Settle_Send_Failed _ _ _ \<Rightarrow> False | _ \<Rightarrow> True" "pending_row r"
  shows "drained r ((settle_row s \<circ> lease_dispatch ts t) r)" "\<not> pending_row ((settle_row s \<circ> lease_dispatch ts t) r)"
proof -
  let ?r' = "(settle_row s \<circ> lease_dispatch ts t) r"
  have state: "do_publish_state ?r' \<in> set [''published'', ''expired'']"
    using assms(1) by (cases s) (simp_all add: settle_row_def)
  moreover have "row_step (lease_dispatch ts t r) ?r'"
    by (simp add: settle_row_step)
  ultimately show "drained r ?r'"
    unfolding drained_def using assms(2) by (intro disjI2) (simp add: row_step_def)
  show "\<not> pending_row ?r'"
    using state by auto
qed

lemma count_where_update_less:
  assumes "r \<in> set rows" "p r" "q r" "\<And>x. x \<in> set rows \<Longrightarrow> p x \<Longrightarrow> \<not> q (f x)"
  shows "count_where q (update_where p f rows) < count_where q rows"
proof -
  have le: "count_where q (update_where p f xs) \<le> count_where q xs" if "\<And>x. x \<in> set xs \<Longrightarrow> p x \<Longrightarrow> \<not> q (f x)" for xs
    using that by (induction xs) (auto simp: le_SucI)
  show ?thesis
    using assms
  proof (induction rows)
    case (Cons x xs)
    then show ?case
      using le[of xs] by (cases "x = r") (auto simp: less_Suc_eq_le)
  qed simp
qed

lemma round_done_rows:
  assumes "dispatch_inv db" "round_done ts db db'"
  shows "list_all2 drained (check_dispatch_outbox db) (check_dispatch_outbox db')" "dispatch_inv db'"
    and "(\<forall>r\<in>set (check_dispatch_outbox db). \<not> dispatch_ready ts r) \<or>
      count_where pending_row (check_dispatch_outbox db') < count_where pending_row (check_dispatch_outbox db)"
proof -
  have "list_all2 drained (check_dispatch_outbox db) (check_dispatch_outbox db') \<and> dispatch_inv db' \<and>
    ((\<forall>r\<in>set (check_dispatch_outbox db). \<not> dispatch_ready ts r) \<or>
      count_where pending_row (check_dispatch_outbox db') < count_where pending_row (check_dispatch_outbox db))"
  proof (cases "db' = db \<and> (\<forall>r\<in>set (check_dispatch_outbox db). \<not> dispatch_ready ts r)")
    case True
    then show ?thesis using assms(1) by (auto simp: drained_def list_all2_refl)
  next
    case False
    then obtain s r where inv: "dispatch_inv db'" and s: "case s of Settle_Send_Failed _ _ _ \<Rightarrow> False | _ \<Rightarrow> True"
      and r: "r \<in> set (check_dispatch_outbox db)" "dispatch_ready ts r"
      and rows: "check_dispatch_outbox db' = update_where (\<lambda>x. do_job_id x = do_job_id r)
         (settle_row s \<circ> lease_dispatch ts (fresh_uuid db)) (check_dispatch_outbox db)"
      using assms(2) unfolding round_done_def finished_by_def by blast
    have only: "pending_row x" if "x \<in> set (check_dispatch_outbox db)" "do_job_id x = do_job_id r" for x
      using dispatch.distinct_key_unique[of "check_dispatch_outbox db" r x] assms(1) r that
      by (auto simp: dispatch_inv_def dispatch_ready_def)
    have "list_all2 drained (check_dispatch_outbox db) (check_dispatch_outbox db')"
      unfolding rows using finished_row(1)[OF s only] by (intro update_where_list_all2) (auto simp: drained_def)
    moreover have "count_where pending_row (check_dispatch_outbox db') < count_where pending_row (check_dispatch_outbox db)"
      unfolding rows using r only finished_row(2)[OF s only]
      by (intro count_where_update_less[of r]) (auto simp: dispatch_ready_def)
    ultimately show ?thesis using inv by blast
  qed
  then show "list_all2 drained (check_dispatch_outbox db) (check_dispatch_outbox db')" "dispatch_inv db'"
    "(\<forall>r\<in>set (check_dispatch_outbox db). \<not> dispatch_ready ts r) \<or>
      count_where pending_row (check_dispatch_outbox db') < count_where pending_row (check_dispatch_outbox db)"
    by blast+
qed

lemma drained_not_ready:
  assumes "list_all2 drained rows rows'" "\<forall>r\<in>set rows. \<not> dispatch_ready t r"
  shows "\<forall>r\<in>set rows'. \<not> dispatch_ready t r"
proof
  fix r' assume "r' \<in> set rows'"
  then obtain r where "r \<in> set rows" "drained r r'"
    using list_all2_source[OF assms(1)] by blast
  then show "\<not> dispatch_ready t r'"
    using assms(2) by (auto simp: drained_def dispatch_ready_def)
qed

lemma runPublisher_rounds:
  assumes "dispatch_inv (durable w)" "faults w = []" "accepting send" "list_all (\<lambda>(now, ts, ts'). t \<le> ts) clock"
    and "runPublisher send clock w = (rs, w')"
  shows "list_all2 drained (check_dispatch_outbox (durable w)) (check_dispatch_outbox (durable w')) \<and>
    list_all (\<lambda>r. snd r = None) rs \<and>
    (count_where pending_row (check_dispatch_outbox (durable w)) \<le> length clock \<longrightarrow>
       (\<forall>r\<in>set (check_dispatch_outbox (durable w')). \<not> dispatch_ready t r))"
  using assms
proof (induction clock arbitrary: w rs)
  case Nil
  then show ?case
    by (auto simp: ret_def drained_def list_all2_refl count_where_0_iff dispatch_ready_def)
next
  case (Cons c clock)
  obtain now ts ts' where c: "c = (now, ts, ts')"
    by (cases c)
  obtain r w1 where r: "PublishNext send now ts ts' w = (r, w1)"
    by (cases "PublishNext send now ts ts' w")
  obtain rs1 where rs: "runPublisher send clock w1 = (rs1, w')" "rs = r # rs1"
    using Cons.prems(5) c r by (auto simp: and_then_def ret_def split: prod.splits)
  note step = PublishNext_calm[OF Cons.prems(1,2,3) r]
  note rows = round_done_rows[OF Cons.prems(1) step(3)]
  have t: "t \<le> ts" "list_all (\<lambda>(now, ts, ts'). t \<le> ts) clock"
    using Cons.prems(4) c by simp_all
  from Cons.IH[OF rows(2) step(1) Cons.prems(3) t(2) rs(1)]
  have IH: "list_all2 drained (check_dispatch_outbox (durable w1)) (check_dispatch_outbox (durable w'))"
    "list_all (\<lambda>r. snd r = None) rs1"
    "count_where pending_row (check_dispatch_outbox (durable w1)) \<le> length clock \<Longrightarrow>
       \<forall>r\<in>set (check_dispatch_outbox (durable w')). \<not> dispatch_ready t r"
    by simp_all
  have all: "list_all2 drained (check_dispatch_outbox (durable w)) (check_dispatch_outbox (durable w'))"
    by (rule list_all2_trans[OF drained_trans rows(1) IH(1)])
  have "\<forall>r\<in>set (check_dispatch_outbox (durable w')). \<not> dispatch_ready t r"
    if "count_where pending_row (check_dispatch_outbox (durable w)) \<le> length (c # clock)"
  proof (cases "\<forall>r\<in>set (check_dispatch_outbox (durable w)). \<not> dispatch_ready ts r")
    case True
    then have "\<forall>r\<in>set (check_dispatch_outbox (durable w)). \<not> dispatch_ready t r"
      using t(1) by (auto simp: dispatch_ready_def)
    with all show ?thesis by (rule drained_not_ready)
  next
    case False
    then have "count_where pending_row (check_dispatch_outbox (durable w1)) < count_where pending_row (check_dispatch_outbox (durable w))"
      using rows(3) by blast
    then show ?thesis using that by (intro IH(3)) simp
  qed
  with all IH(2) step(2) rs(2) show ?case by simp
qed

subsection \<open>Properties\<close>

lemma PublishNext_run:
  assumes "dispatch_inv (durable w)" "inj (db_rand (durable w))"
  shows "case PublishNext (\<lambda>m log. (reply m log, m # log)) now ts ts' w of (r, w') \<Rightarrow>
    publishing_step\<^sup>*\<^sup>* (durable w, outside w, [], []) (durable w', outside w', [], [])"
proof -
  obtain v w1 where v: "claim_dispatch now ts w = (v, w1)"
    by (cases "claim_dispatch now ts w")
  have out: "outside w1 = outside w"
    by (rule claim_dispatch_outcome(1)[OF assms(1) v])
  show ?thesis
  proof (cases v)
    case (Inl r)
    have "publishing_step (durable w, outside w, [], []) (durable w1, outside w, [], [])"
      using v Inl by (intro publishing_step.idle) simp
    then show ?thesis
      using v Inl out by (simp add: PublishNext_def and_then_def ret_def)
  next
    case (Inr row)
    let ?sent = "\<lambda>log. (durable w1, log, [], [row])"
    have start: "publishing_step (durable w, outside w, [], []) (durable w1, outside w, [row], [])"
      using v Inr by (intro publishing_step.claim) simp
    have current: "dispatch_inv (durable w1)" "item_current row (durable w1)"
    proof -
      have "claimed_from ts row (durable w) (durable w1)"
        using claim_dispatch_outcome(2)[OF assms(1) v] Inr by simp
      moreover have "publishing_inv (durable w, [], [], [])"
        using assms by (simp add: publishing_inv_def dispatch_inv_def dispatch_ok_def)
      ultimately have "publishing_inv (durable w1, [], [row], [])"
        by (intro publishing_inv_claim)
      then show "dispatch_inv (durable w1)" "item_current row (durable w1)"
        using publishing_inv_parts by fastforce+
    qed
    have finish: "case settle_dispatch ts' row a u of (r, w') \<Rightarrow>
        publishing_step\<^sup>*\<^sup>* (durable w, outside w, [], []) (durable w', outside w', [], [])"
      if "durable u = durable w1" "publishing_step (durable w1, outside w, [row], []) (?sent (outside u))" for a u
    proof -
      obtain r w' where r: "settle_dispatch ts' row a u = (r, w')"
        by (cases "settle_dispatch ts' row a u")
      have "publishing_step (?sent (outside u)) (durable w', outside u, [], [])"
        using publishing_step.settle[OF r, of "outside u" "[]" "[]" "[]"] that(1) by simp
      moreover have "outside w' = outside u"
        using settle_dispatch_quiet(2)[OF _ _ r] current that(1) by simp
      ultimately show ?thesis
        using start that(2) r by (auto intro: converse_rtranclp_into_rtranclp)
    qed
    have sent: "publishing_step (durable w1, outside w, [row], []) (?sent (send_input row # outside w))"
      using publishing_step.send[of "durable w1" "outside w" "[]" row "[]" "[]"] by simp
    have unsent: "publishing_step (durable w1, outside w, [row], []) (?sent (outside w))"
      using publishing_step.unsent[of "durable w1" "outside w" "[]" row "[]" "[]"] by simp
    show ?thesis
      using v Inr out finish sent unsent
      by (cases "next_fault w1") (simp_all add: PublishNext_def and_then_def remote_def)
  qed
qed

text \<open>C17: a job reaches its queue at most three times, and every time as the same message.  Whatever
  publishers, the result consumer and the maintenance loop do in whatever order, with lost replies,
  crashes between the transactions of a publisher and leases that run out, no deduplication identifier
  is sent more than three times and all messages sent under it are equal.\<close>

theorem dispatch_sends_bounded:
  assumes "dispatch_inv db" "inj (db_rand db)" "publishing_step\<^sup>*\<^sup>* (db, [], [], []) (db', log, U, S)"
  shows "count_where (\<lambda>m. si_DeduplicationID m = jobID) log \<le> 3 \<and>
    (\<forall>m\<in>set log. \<forall>m'\<in>set log. si_DeduplicationID m = si_DeduplicationID m' \<longrightarrow> m = m')"
proof -
  have "publishing_inv (db, [], [], [])"
    using assms(1,2) by (simp add: publishing_inv_def dispatch_inv_def dispatch_ok_def)
  from publishing_inv_steps[OF assms(3) this] have inv: "publishing_inv (db', log, U, S)" .
  have row: "\<exists>r\<in>set (check_dispatch_outbox db'). m = row_message r \<and> si_DeduplicationID m = do_job_id r \<and> dispatch_ok r"
    if "m \<in> set log" for m
  proof -
    have "m \<in> row_message ` set (check_dispatch_outbox db')"
      using that inv by (auto simp: publishing_inv_def)
    then obtain r where r: "r \<in> set (check_dispatch_outbox db')" "m = row_message r"
      by blast
    moreover have "dispatch_ok r"
      using publishing_inv_parts(1)[OF inv] r(1) by (simp add: dispatch_inv_def)
    ultimately show ?thesis
      using row_message_dedup by blast
  qed
  have same: "m = m'" if eq: "m \<in> set log" "m' \<in> set log" "si_DeduplicationID m = si_DeduplicationID m'" for m m'
  proof -
    obtain r r' where r: "r \<in> set (check_dispatch_outbox db')" "m = row_message r" "si_DeduplicationID m = do_job_id r"
      and r': "r' \<in> set (check_dispatch_outbox db')" "m' = row_message r'" "si_DeduplicationID m' = do_job_id r'"
      using row[OF eq(1)] row[OF eq(2)] by blast
    have "r' = r"
      using dispatch.distinct_key_unique[OF _ r(1) r'(1)] publishing_inv_parts(1)[OF inv] r(3) r'(3) eq(3)
      by (simp add: dispatch_inv_def)
    with r(2) r'(2) show ?thesis by simp
  qed
  have "count_where (\<lambda>m. si_DeduplicationID m = jobID) log \<le> 3"
  proof (cases "\<exists>m\<in>set log. si_DeduplicationID m = jobID")
    case True
    then obtain m r where m: "m \<in> set log" "si_DeduplicationID m = jobID"
      and r: "r \<in> set (check_dispatch_outbox db')" "m = row_message r" "dispatch_ok r"
      using row by blast
    have "filter (\<lambda>x. si_DeduplicationID x = jobID) log = filter (\<lambda>x. x = row_message r) log"
      using same m r(2) by (intro filter_cong) auto
    then have "int (count_where (\<lambda>m. si_DeduplicationID m = jobID) log) \<le> do_publish_attempts r"
      using inv r(1) by (simp add: publishing_inv_def count_where_def) fastforce
    with r(3) show ?thesis by (simp add: dispatch_ok_def)
  qed (auto simp: count_where_0_iff[THEN iffD2])
  with same show ?thesis by blast
qed

text \<open>C18: a run of \<open>PublishNext\<close>, under any fault schedule and with any answers of the queue, is a
  sequence of these steps, so that what is shown of the interleaving holds of the code.\<close>

theorem PublishNext_steps:
  assumes "dispatch_inv (durable w)" "inj (db_rand (durable w))"
  shows "case PublishNext (\<lambda>m log. (reply m log, m # log)) now ts ts' w of (r, w') \<Rightarrow>
    publishing_step\<^sup>*\<^sup>* (durable w, outside w, [], []) (durable w', outside w', [], [])"
  using assms by (rule PublishNext_run)

text \<open>C19: the publisher makes progress.  Without faults and with a queue that accepts messages, the
  loop publishes or expires every dispatch that was ready at time \<open>t\<close> once it has made as many
  iterations as there were pending dispatches; no iteration reports an error, and no other dispatch
  changes except from pending to published or expired.\<close>

theorem runPublisher_drains:
  assumes "dispatch_inv (durable w)" "faults w = []" "accepting send"
    and "list_all (\<lambda>(now, ts, ts'). t \<le> ts) clock"
    and "count_where pending_row (check_dispatch_outbox (durable w)) \<le> length clock"
  shows "case runPublisher send clock w of (rs, w') \<Rightarrow>
    list_all (\<lambda>r. snd r = None) rs \<and>
    list_all2 drained (check_dispatch_outbox (durable w)) (check_dispatch_outbox (durable w')) \<and>
    (\<forall>r\<in>set (check_dispatch_outbox (durable w')). \<not> dispatch_ready t r)"
  using runPublisher_rounds[OF assms(1-4)] assms(5) by (auto split: prod.splits)

definition sample_dispatch :: "uuid \<Rightarrow> dispatch_row" where
  "sample_dispatch j = \<lparr>do_job_id = j, do_worker_pool_id = ''p'', do_queue_url = ''q'', do_message_body = ''b'', do_schema_version = 2,
     do_platform_key_id = ''k'', do_worker_encryption_key_id = ''e'', do_snapshot_hash = replicate 32 CHR ''h'',
     do_message_deduplication_id = j, do_message_group_id = j, do_expires_at = minute, do_publish_state = ''pending'',
     do_publish_attempts = 0, do_next_attempt_at = 0, do_publish_lease_token = None, do_publish_lease_expires_at = None,
     do_sqs_message_id = None, do_last_safe_error = None, do_published_at = None, do_created_at = 0\<rparr>"

definition sample_dispatches :: database where
  "sample_dispatches = (empty_database sample_uuid)\<lparr>check_dispatch_outbox := [sample_dispatch ''i'', sample_dispatch ''j'']\<rparr>"

lemma sample_dispatches_inv: "dispatch_inv sample_dispatches" "inj (db_rand sample_dispatches)"
  by (simp_all add: dispatch_inv_def sample_dispatches_def sample_dispatch_def dispatch_ok_def empty_database_def inj_def sample_uuid_def)

theorem PublishNext_steps_witness:
  "case PublishNext (\<lambda>m log. (Inl (Err ''throttled''), m # log)) 0 second second (world_with sample_dispatches [] []) of (r, w') \<Rightarrow>
     publishing_step\<^sup>*\<^sup>* (sample_dispatches, [], [], []) (durable w', outside w', [], []) \<and> length (outside w') = 1"
proof -
  let ?run = "PublishNext (\<lambda>m log. (Inl (Err ''throttled''), m # log)) 0 second second (world_with sample_dispatches [] [])"
  have "length (outside (snd ?run)) = 1"
    by code_simp
  then show ?thesis
    using PublishNext_steps[where w = "world_with sample_dispatches [] []" and reply = "\<lambda>_ _. Inl (Err ''throttled'')"
        and now = 0 and ts = second and ts' = second] sample_dispatches_inv
    by (simp add: case_prod_beta)
qed

theorem dispatch_sends_bounded_witness:
  "\<exists>db log. publishing_step\<^sup>*\<^sup>* (sample_dispatches, [], [], []) (db, log, [], []) \<and> log \<noteq> [] \<and>
     count_where (\<lambda>m. si_DeduplicationID m = ''i'') log \<le> 3"
proof -
  let ?run = "PublishNext (\<lambda>m log. (Inl (Err ''throttled''), m # log)) 0 second second (world_with sample_dispatches [] [])"
  have "outside (snd ?run) \<noteq> []"
    by code_simp
  moreover have "publishing_step\<^sup>*\<^sup>* (sample_dispatches, [], [], []) (durable (snd ?run), outside (snd ?run), [], [])"
    using PublishNext_run[where w = "world_with sample_dispatches [] []" and reply = "\<lambda>_ _. Inl (Err ''throttled'')"
        and now = 0 and ts = second and ts' = second] sample_dispatches_inv
    by (simp add: case_prod_beta)
  ultimately show ?thesis
    using dispatch_sends_bounded[OF sample_dispatches_inv, of "durable (snd ?run)" "outside (snd ?run)" "[]" "[]" "''i''"] by blast
qed

theorem runPublisher_drains_witness:
  "case runPublisher (\<lambda>m x. (Inr ''id'', x)) [(0, second, second), (0, second, second)] (world_with sample_dispatches [] ()) of (rs, w') \<Rightarrow>
     (\<forall>r\<in>set (check_dispatch_outbox (durable w')). \<not> dispatch_ready second r) \<and>
     map do_publish_state (check_dispatch_outbox (durable w')) = [''published'', ''published'']"
proof -
  let ?clock = "[(0, second, second), (0, second, second)]"
  let ?run = "runPublisher (\<lambda>m x. (Inr ''id'', x)) ?clock (world_with sample_dispatches [] ())"
  have "map do_publish_state (check_dispatch_outbox (durable (snd ?run))) = [''published'', ''published'']"
    by code_simp
  then show ?thesis
    using runPublisher_drains[where w = "world_with sample_dispatches [] ()" and send = "\<lambda>m x. (Inr ''id'', x)"
        and clock = ?clock and t = second] sample_dispatches_inv(1)
    by (simp add: case_prod_beta accepting_def sample_dispatches_def)
qed

text \<open>The repair of a dispatch whose result arrived while it was being sent leaves the publisher's lease
  in place, and the failure statement asks for the lease only, so a send that is reported as failed
  afterwards reopens the dispatch of a completed job.\<close>

lemma repaired_dispatch_reopened:
  "case claim_dispatch 0 second (world_with sample_dispatches [] ()) of (Inr row, w) \<Rightarrow>
     (case MarkDispatchRepaired (ob_JobID row) (durable w) of Inr (_, db) \<Rightarrow>
        map do_publish_state (check_dispatch_outbox db) = [''repaired'', ''pending''] \<and>
        map do_publish_state (check_dispatch_outbox
          (durable (snd (settle_dispatch second row (Inl (Err ''throttled'')) (world_with db [] ()))))) = [''pending'', ''pending'']
      | _ \<Rightarrow> False)
   | _ \<Rightarrow> False"
  by code_simp

end
