(* ===== verification/Secrets.thy ===== *)
theory Secrets
  imports Envelope
begin

text \<open>
  Payloads that are stored encrypted: the request headers of monitors
  (\<open>internal/secureheaders/keyring.go\<close>) and quarantined queue messages
  (\<open>internal/quarantine/crypto.go\<close>).  Both put a random nonce in front of an AES-GCM ciphertext; the
  drawn nonce is an argument.  A Go map is a finite map; the order in which a \<open>range\<close> loop visits it is
  an argument, since Go leaves it open.
\<close>

subsection \<open>Header names\<close>

text \<open>\<open>http.CanonicalHeaderKey\<close>: names with a byte outside the token characters are left alone, in others
  the first letter and every letter after a hyphen become capitals and the rest small.\<close>

definition token_byte :: "char \<Rightarrow> bool" where
  "token_byte c \<longleftrightarrow>
     (let b = byte c in
      48 \<le> b \<and> b \<le> 57 \<or> 65 \<le> b \<and> b \<le> 90 \<or> 97 \<le> b \<and> b \<le> 122 \<or> c \<in> set ''!#$%&*+-.^_`|~'' \<or> b = 39)"

definition upper_char :: "char \<Rightarrow> char" where
  "upper_char c = (if 97 \<le> byte c \<and> byte c \<le> 122 then char_of (byte c - 32) else c)"

definition small_char :: "char \<Rightarrow> char" where
  "small_char c = (if 65 \<le> byte c \<and> byte c \<le> 90 then char_of (byte c + 32) else c)"

fun canonical_bytes :: "bool \<Rightarrow> string \<Rightarrow> string" where
  "canonical_bytes first [] = []"
| "canonical_bytes first (c # cs) =
     (if first then upper_char c else small_char c) # canonical_bytes (c = CHR ''-'') cs"

definition CanonicalHeaderKey :: "string \<Rightarrow> string" where
  "CanonicalHeaderKey s = (if list_all token_byte s then canonical_bytes True s else s)"

subsection \<open>The header keyring\<close>

definition header_MaxPlaintextBytes :: nat where "header_MaxPlaintextBytes = 8192"

datatype header_error = Header_Invalid | Header_KeyUnavailable | Header_DecryptionFailed | Header_Random | Header_Config

record Keyring =
  kr_Current :: int
  kr_Keys :: "(int, string) fmap"

definition New_Keyring :: "int \<Rightarrow> (int, string) fmap \<Rightarrow> header_error + Keyring" where
  "New_Keyring current keys =
     (if current < 1 \<or> (case fmlookup keys current of None \<Rightarrow> True | Some k \<Rightarrow> length k \<noteq> 32) then Inl Header_Config
      else if \<not> fBall (fmdom keys) (\<lambda>version. 1 \<le> version \<and> (case fmlookup keys version of None \<Rightarrow> True | Some k \<Rightarrow> length k = 32))
      then Inl Header_Config
      else Inr \<lparr>kr_Current = current, kr_Keys = keys\<rparr>)"

definition header_ok :: "string \<Rightarrow> string \<Rightarrow> bool" where
  "header_ok name value \<longleftrightarrow>
     \<not> (name = [] \<or> length name > 128 \<or> length value > 2048 \<or>
        CHR 0x0D \<in> set (name @ value) \<or> CHR 0x0A \<in> set (name @ value) \<or>
        name \<in> set [''Host'', ''Content-Length'', ''Connection'', ''Transfer-Encoding''])"

abbreviation header_name :: "string \<Rightarrow> string" where
  "header_name name \<equiv> CanonicalHeaderKey (TrimSpace name)"

fun normalize_loop :: "(string \<times> string) list \<Rightarrow> (string, string) fmap \<Rightarrow> (string, string) fmap option" where
  "normalize_loop [] out = Some out"
| "normalize_loop ((name, value) # rest) out =
     (if header_ok (header_name name) value then normalize_loop rest (fmupd (header_name name) value out) else None)"

definition Normalize :: "(string \<times> string) list \<Rightarrow> header_error + (string, string) fmap" where
  "Normalize headers =
     (if length headers > 32 then Inl Header_Invalid
      else case normalize_loop headers fmempty of None \<Rightarrow> Inl Header_Invalid | Some out \<Rightarrow> Inr out)"

definition keyring_aead :: "Keyring \<Rightarrow> int \<Rightarrow> header_error + string" where
  "keyring_aead k version =
     (case fmlookup (kr_Keys k) version of None \<Rightarrow> Inl Header_KeyUnavailable | Some key \<Rightarrow> Inr key)"

definition Encrypt ::
  "primitives \<Rightarrow> string option \<Rightarrow> Keyring \<Rightarrow> (string \<times> string) list \<Rightarrow> header_error + string \<times> int" where
  "Encrypt c drawn_nonce k headers =
     (case Normalize headers of
        Inl e \<Rightarrow> Inl e
      | Inr normalized \<Rightarrow>
          if fcard (fmdom normalized) = 0 then Inr ([], 0)
          else let plain = marshal_headers c normalized in
            if length plain > header_MaxPlaintextBytes then Inl Header_Invalid
            else case keyring_aead k (kr_Current k) of
              Inl e \<Rightarrow> Inl e
            | Inr key \<Rightarrow>
                (case drawn_nonce of
                   None \<Rightarrow> Inl Header_Random
                 | Some nonce \<Rightarrow> Inr (nonce @ gcm_seal c key nonce plain [], kr_Current k)))"

definition Decrypt ::
  "primitives \<Rightarrow> ((string, string) fmap \<Rightarrow> (string \<times> string) list) \<Rightarrow> Keyring \<Rightarrow> string \<Rightarrow> int
   \<Rightarrow> header_error + (string, string) fmap" where
  "Decrypt c range_order k data version =
     (if length data = 0 then Inr fmempty
      else case keyring_aead k version of
        Inl _ \<Rightarrow> Inl Header_DecryptionFailed
      | Inr key \<Rightarrow>
          if length data < 12 then Inl Header_DecryptionFailed
          else case gcm_open c key (take 12 data) (drop 12 data) [] of
            None \<Rightarrow> Inl Header_DecryptionFailed
          | Some plain \<Rightarrow>
              if length plain > header_MaxPlaintextBytes then Inl Header_DecryptionFailed
              else case unmarshal_headers c plain of
                None \<Rightarrow> Inl Header_DecryptionFailed
              | Some headers \<Rightarrow> Normalize (range_order headers))"

subsection \<open>The quarantine sealer\<close>

definition quarantine_MaxPlaintextBytes :: nat where "quarantine_MaxPlaintextBytes = 64 * 1024"

datatype quarantine_error = Quarantine_Invalid | Quarantine_Random | Quarantine_Failed

definition New_Sealer :: "string \<Rightarrow> quarantine_error + string" where
  "New_Sealer key = (if length key \<noteq> 32 then Inl Quarantine_Invalid else Inr key)"

definition Seal :: "primitives \<Rightarrow> string option \<Rightarrow> string option \<Rightarrow> string \<Rightarrow> string \<Rightarrow> quarantine_error + string" where
  "Seal c drawn_nonce s plain associated =
     (case s of
        None \<Rightarrow> Inl Quarantine_Invalid
      | Some key \<Rightarrow>
          if length plain = 0 \<or> length plain > quarantine_MaxPlaintextBytes \<or> length associated > 1024 then Inl Quarantine_Invalid
          else case drawn_nonce of
            None \<Rightarrow> Inl Quarantine_Random
          | Some nonce \<Rightarrow> Inr (nonce @ gcm_seal c key nonce plain associated))"

definition Open :: "primitives \<Rightarrow> string option \<Rightarrow> string \<Rightarrow> string \<Rightarrow> quarantine_error + string" where
  "Open c s value associated =
     (case s of
        None \<Rightarrow> Inl Quarantine_Invalid
      | Some key \<Rightarrow>
          if length value \<le> 12 \<or> length value > quarantine_MaxPlaintextBytes + 12 + 16 \<or> length associated > 1024
          then Inl Quarantine_Invalid
          else case gcm_open c key (take 12 value) (drop 12 value) associated of
            None \<Rightarrow> Inl Quarantine_Failed
          | Some plain \<Rightarrow> Inr plain)"

subsection \<open>Normal forms of header names\<close>

lemma chunks_ascii: "list_all (\<lambda>c. byte c < 128) s \<Longrightarrow> chunks s = map (\<lambda>c. (byte c, [c])) s"
  by (induction s) (simp_all add: rune_width_def)

lemma trim_both_none: "list_all (\<lambda>x. \<not> p x) xs \<Longrightarrow> trim_both p xs = xs"
proof -
  assume "list_all (\<lambda>x. \<not> p x) xs"
  then have "dropWhile p ys = ys" if "set ys \<subseteq> set xs" for ys
    using that by (cases ys) (auto simp: list_all_iff)
  then show ?thesis
    by (simp add: trim_both_def)
qed

lemma TrimSpace_ascii:
  assumes "list_all (\<lambda>c. byte c < 128 \<and> \<not> IsSpace (byte c)) s"
  shows "TrimSpace s = s"
proof -
  have ascii: "list_all (\<lambda>c. byte c < 128) s"
    using assms by (simp add: list_all_iff)
  have "trim_both (IsSpace \<circ> fst) (chunks s) = chunks s"
    using assms by (intro trim_both_none) (auto simp: chunks_ascii[OF ascii] list_all_iff)
  then show ?thesis
    by (simp add: TrimSpace_def chunks_concat)
qed

lemma token_byte_ascii: "token_byte c \<Longrightarrow> byte c < 128 \<and> \<not> IsSpace (byte c)"
  by (auto simp: token_byte_def Let_def IsSpace_def byte_def)

lemma upper_char_byte: "byte (upper_char c) = (if 97 \<le> byte c \<and> byte c \<le> 122 then byte c - 32 else byte c)"
  using byte_bounds[of c] by (simp add: upper_char_def byte_char_of)

lemma small_char_byte: "byte (small_char c) = (if 65 \<le> byte c \<and> byte c \<le> 90 then byte c + 32 else byte c)"
  using byte_bounds[of c] by (simp add: small_char_def byte_char_of)

lemma byte_eq_iff: "c = d \<longleftrightarrow> byte c = byte d"
  by (metis char_of_byte)

lemma hyphen_fixed [simp]:
  "upper_char c = CHR ''-'' \<longleftrightarrow> c = CHR ''-''" "small_char c = CHR ''-'' \<longleftrightarrow> c = CHR ''-''"
  unfolding byte_eq_iff[of _ "CHR ''-''"] upper_char_byte small_char_byte by (auto simp: byte_def[of "CHR ''-''"])

lemma case_idem [simp]: "upper_char (upper_char c) = upper_char c" "small_char (small_char c) = small_char c"
  unfolding byte_eq_iff[of _ "upper_char c"] byte_eq_iff[of _ "small_char c"] upper_char_byte small_char_byte by auto

lemma token_byte_letter: "65 \<le> byte c \<and> byte c \<le> 90 \<or> 97 \<le> byte c \<and> byte c \<le> 122 \<Longrightarrow> token_byte c"
  by (auto simp: token_byte_def Let_def)

lemma token_byte_case:
  assumes "token_byte c"
  shows "token_byte (upper_char c)" "token_byte (small_char c)"
proof -
  show "token_byte (upper_char c)"
  proof (cases "97 \<le> byte c \<and> byte c \<le> 122")
    case True
    then show ?thesis by (intro token_byte_letter) (simp add: upper_char_byte)
  qed (use assms in \<open>auto simp: upper_char_def\<close>)
  show "token_byte (small_char c)"
  proof (cases "65 \<le> byte c \<and> byte c \<le> 90")
    case True
    then show ?thesis by (intro token_byte_letter) (simp add: small_char_byte)
  qed (use assms in \<open>auto simp: small_char_def\<close>)
qed

lemma canonical_bytes_idem [simp]: "canonical_bytes first (canonical_bytes first s) = canonical_bytes first s"
  by (induction s arbitrary: first) auto

lemma canonical_bytes_token: "list_all token_byte s \<Longrightarrow> list_all token_byte (canonical_bytes first s)"
  by (induction s arbitrary: first) (auto simp: token_byte_case)

lemma header_name_idem [simp]: "header_name (header_name name) = header_name name"
proof (cases "list_all token_byte (TrimSpace name)")
  case True
  let ?s = "canonical_bytes True (TrimSpace name)"
  have token: "list_all token_byte ?s"
    by (rule canonical_bytes_token[OF True])
  then have "TrimSpace ?s = ?s"
    by (intro TrimSpace_ascii) (auto simp: list_all_iff token_byte_ascii)
  with True token show ?thesis
    by (simp add: CanonicalHeaderKey_def)
qed (simp add: CanonicalHeaderKey_def)

subsection \<open>Normalization\<close>

definition normal_header :: "string \<Rightarrow> string \<Rightarrow> bool" where
  "normal_header name v \<longleftrightarrow> header_name name = name \<and> header_ok name v"

definition normal_headers :: "(string, string) fmap \<Rightarrow> bool" where
  "normal_headers m \<longleftrightarrow> (\<forall>name v. fmlookup m name = Some v \<longrightarrow> normal_header name v)"

lemma normal_headers_upd: "normal_headers m \<Longrightarrow> normal_header name v \<Longrightarrow> normal_headers (fmupd name v m)"
  by (simp add: normal_headers_def)

lemma normal_header_name: "header_ok (header_name name) v \<Longrightarrow> normal_header (header_name name) v"
  by (simp add: normal_header_def)

lemma normalize_loop_normal:
  "normalize_loop entries out = Some m \<Longrightarrow> normal_headers out \<Longrightarrow> normal_headers m"
  by (induction entries out rule: normalize_loop.induct)
    (auto simp: normal_headers_upd normal_header_name split: if_splits)

lemma normalize_loop_size:
  "normalize_loop entries out = Some m \<Longrightarrow> fcard (fmdom m) \<le> fcard (fmdom out) + length entries"
  by (induction entries out rule: normalize_loop.induct)
    (auto simp: fcard_finsert_if split: if_splits)

lemma fmupd_add_swap: "fmlookup n k = None \<Longrightarrow> fmupd k v m ++\<^sub>f n = m ++\<^sub>f fmupd k v n"
  by (intro fmap_ext) (auto simp: fmdom_notI)

lemma normalize_loop_fixed:
  assumes "distinct (map fst entries)" "\<And>name v. (name, v) \<in> set entries \<Longrightarrow> normal_header name v"
  shows "normalize_loop entries out = Some (out ++\<^sub>f fmap_of_list entries)"
  using assms
proof (induction entries arbitrary: out)
  case (Cons e entries)
  obtain name v where e: "e = (name, v)"
    by (cases e)
  have fresh: "fmlookup (fmap_of_list entries) name = None"
    using Cons.prems(1) e by (auto simp: fmlookup_of_list map_of_eq_None_iff)
  have "normal_header name v"
    using Cons.prems(2)[of name v] e by simp
  then have "normalize_loop (e # entries) out = normalize_loop entries (fmupd name v out)"
    using e by (simp add: normal_header_def)
  also have "\<dots> = Some (fmupd name v out ++\<^sub>f fmap_of_list entries)"
    using Cons.prems by (intro Cons.IH) auto
  also have "fmupd name v out ++\<^sub>f fmap_of_list entries = out ++\<^sub>f fmap_of_list (e # entries)"
    unfolding e fmap_of_list_simps by (rule fmupd_add_swap[OF fresh])
  finally show ?case .
qed simp

text \<open>The order of a \<open>range\<close> loop lists every entry of the map once.\<close>

definition lists_map :: "((string, string) fmap \<Rightarrow> (string \<times> string) list) \<Rightarrow> bool" where
  "lists_map range_order \<longleftrightarrow>
     (\<forall>m. distinct (map fst (range_order m)) \<and> fmap_of_list (range_order m) = m)"

lemma lists_map_length:
  assumes "lists_map range_order"
  shows "length (range_order m) = fcard (fmdom m)"
proof -
  have "distinct (map fst (range_order m))" "fmap_of_list (range_order m) = m"
    using assms by (simp_all add: lists_map_def)
  then have "fmdom m = fset_of_list (map fst (range_order m))"
    by (metis fmdom_of_list fset_of_list_map)
  then have "fcard (fmdom m) = card (set (map fst (range_order m)))"
    by (metis fcard.rep_eq fset_of_list.rep_eq)
  also have "\<dots> = length (range_order m)"
    using \<open>distinct (map fst (range_order m))\<close> distinct_card by fastforce
  finally show ?thesis by simp
qed

lemma Normalize_normal:
  assumes "Normalize headers = Inr m"
  shows "normal_headers m" "fcard (fmdom m) \<le> 32"
  using assms normalize_loop_normal[of headers fmempty m] normalize_loop_size[of headers fmempty m]
  by (auto simp: Normalize_def normal_headers_def fcard_fempty split: if_splits option.splits)

lemma Normalize_again:
  assumes "normal_headers m" "fcard (fmdom m) \<le> 32" "lists_map range_order"
  shows "Normalize (range_order m) = Inr m"
proof -
  have order: "distinct (map fst (range_order m))" "fmap_of_list (range_order m) = m"
    using assms(3) by (simp_all add: lists_map_def)
  have "fmlookup m name = Some v" if "(name, v) \<in> set (range_order m)" for name v
    using order that by (metis fmlookup_of_list map_of_is_SomeI)
  then have "normalize_loop (range_order m) fmempty = Some (fmempty ++\<^sub>f fmap_of_list (range_order m))"
    using assms(1) order(1) by (intro normalize_loop_fixed) (auto simp: normal_headers_def)
  then show ?thesis
    using assms(2) lists_map_length[OF assms(3)] order(2) by (simp add: Normalize_def)
qed

subsection \<open>Properties\<close>

text \<open>The JSON decoder reads the encoding of a string map whose text is UTF-8.\<close>

definition json_reads :: "primitives \<Rightarrow> (string, string) fmap \<Rightarrow> bool" where
  "json_reads c m \<longleftrightarrow>
     (fBall (fmdom m) wire_text \<and> fBall (fmran m) wire_text \<longrightarrow> unmarshal_headers c (marshal_headers c m) = Some m)"

text \<open>C20: stored request headers come back normalized.  What \<open>Encrypt\<close> stores under the current key is
  what \<open>Decrypt\<close> returns under the key version it reports, in whatever order maps are visited: the
  normalized headers, in which every name is canonical, no name or value carries a line break and no
  hop-by-hop or host header is left.\<close>

theorem Decrypt_Encrypt:
  assumes "crypto_laws c" "json_reads c m" "lists_map range_order" "length nonce = 12"
    and ring: "New_Keyring current keys = Inr k"
    and norm: "Normalize headers = Inr m" "fBall (fmdom m) wire_text" "fBall (fmran m) wire_text"
    and enc: "Encrypt c (Some nonce) k headers = Inr (data, version)"
  shows "Decrypt c range_order k data version = Inr m \<and>
    (\<forall>name v. fmlookup m name = Some v \<longrightarrow>
       header_name name = name \<and> CHR 0x0A \<notin> set (name @ v) \<and> CHR 0x0D \<notin> set (name @ v) \<and>
       name \<notin> set [''Host'', ''Content-Length'', ''Connection'', ''Transfer-Encoding''])"
proof -
  have normal: "normal_headers m" "fcard (fmdom m) \<le> 32"
    using Normalize_normal[OF norm(1)] by simp_all
  have "Decrypt c range_order k data version = Inr m"
  proof (cases "fcard (fmdom m) = 0")
    case True
    then have "fmlookup m x = None" for x
      by (intro fmdom_notD) simp
    then have "m = fmempty"
      by (intro fmap_ext) simp
    moreover have "data = []"
      using enc norm(1) True by (simp add: Encrypt_def)
    ultimately show ?thesis by (simp add: Decrypt_def)
  next
    case False
    let ?plain = "marshal_headers c m"
    from ring have cur: "kr_Current k = current" "kr_Keys k = keys"
      and key: "\<exists>key. fmlookup keys current = Some key \<and> length key = 32"
      by (auto simp: New_Keyring_def split: if_splits option.splits)
    then obtain key where key: "fmlookup keys current = Some key" "length key = 32"
      by blast
    have enc': "data = nonce @ gcm_seal c key nonce ?plain []" "version = current" "length ?plain \<le> header_MaxPlaintextBytes"
      using enc norm(1) False key cur by (auto simp: Encrypt_def keyring_aead_def Let_def split: if_splits)
    have "gcm_open c key nonce (gcm_seal c key nonce ?plain []) [] = Some ?plain"
      using assms(1,4) key(2) unfolding crypto_laws_def by blast
    moreover have "unmarshal_headers c ?plain = Some m"
      using assms(2) norm(2,3) unfolding json_reads_def by blast
    ultimately show ?thesis
      using enc' key cur assms(4) Normalize_again[OF normal assms(3)]
      by (simp add: Decrypt_def keyring_aead_def)
  qed
  then show ?thesis
    using normal(1) unfolding normal_headers_def normal_header_def header_ok_def by blast
qed

lemma sorted_lists_map: "lists_map sorted_list_of_fmap"
  unfolding lists_map_def
proof (intro allI conjI)
  fix m :: "(string, string) fmap"
  show "distinct (map fst (sorted_list_of_fmap m))"
    by (simp add: sorted_list_of_fmap_def comp_def sorted_list_of_fset.rep_eq)
  show "fmap_of_list (sorted_list_of_fmap m) = m"
    by (intro fmap_ext) (simp add: fmlookup_of_list)
qed

definition sample_headers :: "(string, string) fmap" where
  "sample_headers = fmupd ''X-Probe'' ''yes'' fmempty"

definition sample_json :: primitives where
  "sample_json = sample_primitives\<lparr>marshal_headers := \<lambda>_. ''{}'', unmarshal_headers := \<lambda>_. Some sample_headers\<rparr>"

lemma sample_header_name: "header_name ''x-PROBE '' = ''X-Probe''"
  by code_simp

theorem Decrypt_Encrypt_witness:
  "\<exists>k data. New_Keyring 1 (fmupd 1 (replicate 32 CHR ''k'') fmempty) = Inr k \<and>
     Encrypt sample_json (Some (replicate 12 CHR ''n'')) k [(''x-PROBE '', ''yes'')] = Inr (data, 1) \<and>
     Decrypt sample_json sorted_list_of_fmap k data 1 = Inr sample_headers"
proof -
  let ?k = "\<lparr>kr_Current = 1, kr_Keys = fmupd 1 (replicate 32 CHR ''k'') fmempty\<rparr>"
  let ?data = "replicate 12 CHR ''n'' @ gcm_seal sample_json (replicate 32 CHR ''k'') (replicate 12 CHR ''n'') ''{}'' []"
  have ring: "New_Keyring 1 (fmupd 1 (replicate 32 CHR ''k'') fmempty) = Inr ?k"
    by (simp add: New_Keyring_def)
  have norm: "Normalize [(''x-PROBE '', ''yes'')] = Inr sample_headers"
    unfolding Normalize_def normalize_loop.simps sample_header_name by (simp add: header_ok_def sample_headers_def)
  have enc: "Encrypt sample_json (Some (replicate 12 CHR ''n'')) ?k [(''x-PROBE '', ''yes'')] = Inr (?data, 1)"
    unfolding Encrypt_def norm by (simp add: sample_headers_def keyring_aead_def sample_json_def header_MaxPlaintextBytes_def)
  have laws: "crypto_laws sample_json" "json_reads sample_json sample_headers"
    using sample_crypto by (simp_all add: crypto_laws_def json_reads_def sample_json_def)
  have ascii: "wire_text ''X-Probe''" "wire_text ''yes''"
    by (simp_all add: wire_text_def Let_def rune_width_def byte_def RuneError_def eval_nat_numeral)
  have wire: "fBall (fmdom sample_headers) wire_text" "fBall (fmran sample_headers) wire_text"
    using ascii by (auto simp: sample_headers_def elim!: fmranE split: if_splits)
  show ?thesis
    using Decrypt_Encrypt[OF laws sorted_lists_map _ ring norm wire enc] ring enc by auto
qed

lemma opened_seal:
  assumes "crypto_laws c" "length s = 32" "length nonce = 12" "Seal c (Some nonce) (Some s) plain associated = Inr stored"
  shows "Open c (Some s) stored associated = Inr plain" "1 \<le> length stored" "length stored \<le> 65600"
proof -
  have sealed: "stored = nonce @ gcm_seal c s nonce plain associated" "plain \<noteq> []" "length plain \<le> 65536" "length associated \<le> 1024"
    using assms(4) by (auto simp: Seal_def quarantine_MaxPlaintextBytes_def split: if_splits)
  have "length (gcm_seal c s nonce plain associated) = length plain + 16"
    "gcm_open c s nonce (gcm_seal c s nonce plain associated) associated = Some plain"
    using assms(1-3) unfolding crypto_laws_def by blast+
  then show "Open c (Some s) stored associated = Inr plain" "1 \<le> length stored" "length stored \<le> 65600"
    using sealed assms(3) by (simp_all add: Open_def quarantine_MaxPlaintextBytes_def)
qed

text \<open>C21: a quarantined message can be recovered.  What \<open>Seal\<close> accepted under a name, \<open>Open\<close> returns
  unchanged under the same name, and the sealed message fits the column it is stored in.\<close>

theorem Open_Seal:
  assumes "crypto_laws c" "New_Sealer key = Inr s" "length nonce = 12"
    and "Seal c (Some nonce) (Some s) plain associated = Inr stored"
  shows "Open c (Some s) stored associated = Inr plain \<and> 1 \<le> length stored \<and> length stored \<le> 65600"
proof -
  have "length s = 32"
    using assms(2) by (auto simp: New_Sealer_def split: if_splits)
  then show ?thesis
    using opened_seal[OF assms(1) _ assms(3,4)] by blast
qed

theorem Open_Seal_witness:
  "\<exists>stored. Seal sample_primitives (Some (replicate 12 CHR ''n'')) (Some (replicate 32 CHR ''k'')) ''body'' ''result:r'' = Inr stored \<and>
     Open sample_primitives (Some (replicate 32 CHR ''k'')) stored ''result:r'' = Inr ''body''"
proof -
  have key: "New_Sealer (replicate 32 CHR ''k'') = Inr (replicate 32 CHR ''k'')"
    by (simp add: New_Sealer_def)
  obtain stored where stored:
    "Seal sample_primitives (Some (replicate 12 CHR ''n'')) (Some (replicate 32 CHR ''k'')) ''body'' ''result:r'' = Inr stored"
    by (simp add: Seal_def quarantine_MaxPlaintextBytes_def)
  then show ?thesis
    using Open_Seal[OF sample_crypto key _ stored] by auto
qed

text \<open>Two names that differ only in case leave one header, and which value it keeps depends on the order
  in which the map is visited.\<close>

lemma Normalize_order_dependent:
  "Normalize [(''x-a'', ''1''), (''X-A'', ''2'')] \<noteq> Normalize [(''X-A'', ''2''), (''x-a'', ''1'')]"
proof -
  have names: "header_name ''x-a'' = ''X-A''" "header_name ''X-A'' = ''X-A''"
    by code_simp+
  have "fmlookup (fmupd ''X-A'' ''2'' (fmupd ''X-A'' ''1'' fmempty)) ''X-A'' \<noteq>
      fmlookup (fmupd ''X-A'' ''1'' (fmupd ''X-A'' ''2'' fmempty)) ''X-A''"
    by simp
  then show ?thesis
    unfolding Normalize_def normalize_loop.simps names by (auto simp: header_ok_def simp del: fmupd_lookup)
qed

end
