(* ===== verification/Scheduler.thy ===== *)
theory Scheduler
  imports Dispatch Secrets "HOL-Library.Signed_Division"
begin

text \<open>
  The scheduler of \<open>internal/fifo/scheduler.go\<close> with its statements of \<open>fifo.sql\<close>: one transaction that
  turns the due monitors into jobs, each with the sealed message that the publisher will send.  A
  transaction runs on a database of its own, so the row locks of the statements have no counterpart
  here.  What sealing draws for a job, and the clock it reads, are functions of the job's identifier.
\<close>

definition MaxBatch :: int where "MaxBatch = 100"
definition GlobalScheduledLimit :: int where "GlobalScheduledLimit = 1000"
definition JobStartWindow :: duration where "JobStartWindow = 2 * minute"

record Scheduler =
  sd_signer :: string
  sd_platformKeyID :: string
  sd_headers :: Keyring

definition NewScheduler :: "bool \<Rightarrow> string \<Rightarrow> string \<Rightarrow> Keyring option \<Rightarrow> go_error + Scheduler" where
  "NewScheduler has_db signer keyID headers =
     (case headers of
        None \<Rightarrow> Inl (Err ''invalid FIFO scheduler configuration'')
      | Some ring \<Rightarrow>
          if \<not> has_db \<or> length signer \<noteq> 64 \<or> keyID = '''' then Inl (Err ''invalid FIFO scheduler configuration'')
          else Inr \<lparr>sd_signer = signer, sd_platformKeyID = keyID, sd_headers = ring\<rparr>)"

record dueMonitor =
  dm_ID :: uuid
  dm_OrganizationID :: uuid
  dm_EnvironmentID :: uuid
  dm_TargetURL :: string
  dm_Method :: string
  dm_WorkerPoolID :: string
  dm_EncryptionKeyID :: string
  dm_QueueURL :: string
  dm_Version :: int
  dm_Interval :: int
  dm_Timeout :: int
  dm_Min :: int
  dm_Max :: int
  dm_Next :: time
  dm_Now :: time
  dm_Headers :: bytes
  dm_HeaderVersion :: "int option"
  dm_WorkerPublic :: bytes
  dm_NetworkPolicy :: int
  dm_SchemaMin :: int
  dm_SchemaMax :: int

text \<open>The cryptographic packages, the order of map iteration, and what the random source and the clock
  give while a job is sealed.\<close>

record sealing =
  sg_primitives :: primitives
  sg_range_order :: "(string, string) fmap \<Rightarrow> (string \<times> string) list"
  sg_now :: "uuid \<Rightarrow> time"
  sg_ephemeral :: "uuid \<Rightarrow> string option"
  sg_nonce :: "uuid \<Rightarrow> string option"

subsection \<open>Statements\<close>

definition outstanding_job :: "check_job_row \<Rightarrow> bool" where
  "outstanding_job j \<longleftrightarrow> cj_job_type j = ''scheduled'' \<and> active_state (cj_state j)"

definition CountActiveScheduledJobs :: "int sql" where
  "CountActiveScheduledJobs = reading (\<lambda>db. int (count_where outstanding_job (check_jobs db)))"

definition GetDatabaseTime :: "time \<Rightarrow> time sql" where
  "GetDatabaseTime ts = reading (\<lambda>_. ts)"

definition monitor_due :: "time \<Rightarrow> database \<Rightarrow> monitor_row \<Rightarrow> bool" where
  "monitor_due ts db m \<longleftrightarrow>
     mon_next_check_at m \<le> ts \<and> mon_paused_at m = None \<and> mon_deleted_at m = None \<and>
     \<not> exists_where (\<lambda>j. cj_monitor_id j = mon_id m \<and> outstanding_job j) (check_jobs db)"

definition pool_takes_jobs :: "monitor_row \<Rightarrow> worker_pool_row \<Rightarrow> bool" where
  "pool_takes_jobs m p \<longleftrightarrow> wp_id p = mon_worker_pool_id m \<and> wp_enabled p \<and> wp_lifecycle_state p = ''active''"

definition due_rows :: "time \<Rightarrow> database \<Rightarrow> (monitor_row \<times> worker_pool_row) list" where
  "due_rows ts db =
     concat (map (\<lambda>m. map (Pair m) (filter (pool_takes_jobs m) (worker_pools db))) (filter (monitor_due ts db) (monitors db)))"

definition ListDueScheduledMonitors :: "time \<Rightarrow> int \<Rightarrow> (monitor_row \<times> worker_pool_row) list sql" where
  "ListDueScheduledMonitors ts batch =
     reading (\<lambda>db. take (nat batch) (sort_key (\<lambda>(m, p). (mon_next_check_at m, mon_id m)) (due_rows ts db)))"

definition InsertMonitoringCoverageGap :: "uuid \<Rightarrow> uuid \<Rightarrow> uuid \<Rightarrow> time \<Rightarrow> string \<Rightarrow> unit sql" where
  "InsertMonitoringCoverageGap org environment monitor scheduledAt reason = writing (\<lambda>db. db\<lparr>monitoring_coverage_gaps :=
     add_gap \<lparr>cg_organization_id = org, cg_environment_id = environment, cg_monitor_id = monitor,
              cg_scheduled_at = scheduledAt, cg_reason = reason\<rparr> (monitoring_coverage_gaps db)\<rparr>)"

definition InsertMonitoringOperationalEvent :: "string \<Rightarrow> string \<Rightarrow> string \<Rightarrow> string \<Rightarrow> unit sql" where
  "InsertMonitoringOperationalEvent eventType jobID pool details db =
     (if eventType \<notin> set [''admission_limit'', ''dispatch_ambiguous'', ''job_dlq'', ''result_dlq'', ''result_conflict'',
           ''clock_skew'', ''dependency_open'', ''pool_drift'', ''quarantine'', ''redrive'', ''late_correction'']
      then Inl ''monitoring_operational_events_event_type_check''
      else if length details > 120 then Inl ''monitoring_operational_events_safe_details_check''
      else Inr ((), db\<lparr>monitoring_operational_events := monitoring_operational_events db @
        [\<lparr>oe_event_type = eventType, oe_job_id = nullif_empty jobID, oe_worker_pool_id = nullif_empty pool,
          oe_safe_details = details\<rparr>]\<rparr>))"

definition UpdateMonitorNextCheck :: "time \<Rightarrow> uuid \<Rightarrow> time \<Rightarrow> unit sql" where
  "UpdateMonitorNextCheck next monitor previous = writing (\<lambda>db. db\<lparr>monitors :=
     update_where (\<lambda>m. mon_id m = monitor \<and> mon_next_check_at m = previous) (\<lambda>m. m\<lparr>mon_next_check_at := next\<rparr>) (monitors db)\<rparr>)"

definition NewScheduledJobID :: "uuid sql" where
  "NewScheduledJobID db = Inr (fresh_uuid db, drawn_uuid db)"

definition scheduled_job :: "time \<Rightarrow> uuid \<Rightarrow> dueMonitor \<Rightarrow> time \<Rightarrow> bytes \<Rightarrow> time \<Rightarrow> check_job_row" where
  "scheduled_job ts jobID m scheduledAt hash expires =
     \<lparr>cj_id = jobID, cj_organization_id = dm_OrganizationID m, cj_environment_id = dm_EnvironmentID m,
      cj_monitor_id = dm_ID m, cj_job_type = ''scheduled'', cj_state = ''pending_publish'', cj_scheduled_at = scheduledAt,
      cj_monitor_version = dm_Version m, cj_worker_pool_id = dm_WorkerPoolID m, cj_snapshot_hash = hash,
      cj_expires_at = expires, cj_started_at = None, cj_completed_at = None, cj_worker_id = None,
      cj_execution_attempt_id = None, cj_sqs_message_id = None, cj_last_safe_error = None, cj_created_at = ts\<rparr>"

text \<open>The number of inserted rows.  Only the key of monitor and slot is an arbiter of the
  \<open>ON CONFLICT DO NOTHING\<close>; the other unique indexes raise.\<close>

definition CreateScheduledCheckJob :: "check_job_row \<Rightarrow> int sql" where
  "CreateScheduledCheckJob job db =
     (if length (cj_snapshot_hash job) \<noteq> 32 then Inl ''check_jobs_snapshot_hash_check''
      else if cj_monitor_version job \<le> 0 then Inl ''check_jobs_monitor_version_check''
      else if exists_where (\<lambda>j. cj_monitor_id j = cj_monitor_id job \<and> cj_scheduled_at j = cj_scheduled_at job) (check_jobs db)
        then Inr (0, db)
      else if exists_where (\<lambda>j. cj_id j = cj_id job) (check_jobs db) then Inl ''check_jobs_pkey''
      else if exists_where (\<lambda>j. cj_monitor_id j = cj_monitor_id job \<and> outstanding_job j) (check_jobs db)
        then Inl ''check_jobs_one_outstanding_scheduled_idx''
      else Inr (1, db\<lparr>check_jobs := check_jobs db @ [job]\<rparr>))"

definition scheduled_dispatch ::
  "time \<Rightarrow> uuid \<Rightarrow> string \<Rightarrow> string \<Rightarrow> bytes \<Rightarrow> int \<Rightarrow> string \<Rightarrow> string \<Rightarrow> bytes \<Rightarrow> time \<Rightarrow> dispatch_row" where
  "scheduled_dispatch ts jobID pool queue body schema platformKeyID workerKeyID hash expires =
     \<lparr>do_job_id = jobID, do_worker_pool_id = pool, do_queue_url = queue, do_message_body = body,
      do_schema_version = schema, do_platform_key_id = platformKeyID, do_worker_encryption_key_id = workerKeyID,
      do_snapshot_hash = hash, do_message_deduplication_id = jobID, do_message_group_id = jobID, do_expires_at = expires,
      do_publish_state = ''pending'', do_publish_attempts = 0, do_next_attempt_at = ts, do_publish_lease_token = None,
      do_publish_lease_expires_at = None, do_sqs_message_id = None, do_last_safe_error = None, do_published_at = None,
      do_created_at = ts\<rparr>"

definition dispatch_columns_ok :: "dispatch_row \<Rightarrow> bool" where
  "dispatch_columns_ok r \<longleftrightarrow>
     length (do_queue_url r) \<le> 2048 \<and>
     1 \<le> length (do_message_body r) \<and> length (do_message_body r) \<le> 65536 \<and>
     do_schema_version r \<in> set [1, 2] \<and>
     1 \<le> length (do_platform_key_id r) \<and> length (do_platform_key_id r) \<le> 64 \<and>
     1 \<le> length (do_worker_encryption_key_id r) \<and> length (do_worker_encryption_key_id r) \<le> 64 \<and>
     length (do_snapshot_hash r) = 32"

definition CreateScheduledDispatchOutbox :: "dispatch_row \<Rightarrow> unit sql" where
  "CreateScheduledDispatchOutbox row db =
     (if \<not> dispatch_columns_ok row then Inl ''check_dispatch_outbox_check''
      else if exists_where (\<lambda>r. do_job_id r = do_job_id row) (check_dispatch_outbox db) then Inl ''check_dispatch_outbox_pkey''
      else Inr ((), db\<lparr>check_dispatch_outbox := check_dispatch_outbox db @ [row]\<rparr>))"

subsection \<open>The next slot\<close>

text \<open>\<open>Time.Sub\<close> saturates at the ends of the 64-bit range, the product of durations wraps around, and
  division truncates towards zero.\<close>

definition saturate_64 :: "int \<Rightarrow> duration" where
  "saturate_64 d = max (- (2 ^ 63)) (min (2 ^ 63 - 1) d)"

definition wrap_64 :: "int \<Rightarrow> duration" where
  "wrap_64 d = (d + 2 ^ 63) mod 2 ^ 64 - 2 ^ 63"

definition nextSchedule :: "time \<Rightarrow> time \<Rightarrow> int \<Rightarrow> go_error + time" where
  "nextSchedule scheduled now seconds =
     (if seconds \<le> 0 then Inl (Err ''invalid interval'')
      else
        let interval = wrap_64 (seconds * second);
            periods = wrap_64 (saturate_64 (now - scheduled) sdiv interval + 1);
            periods' = (if periods < 1 then 1 else periods);
            next = scheduled + wrap_64 (periods' * interval)
        in Inr (if \<not> next > now then next + interval else next))"

subsection \<open>Scheduling\<close>

definition due_monitor :: "time \<Rightarrow> monitor_row \<times> worker_pool_row \<Rightarrow> dueMonitor" where
  "due_monitor databaseNow row =
     (case row of (m, p) \<Rightarrow>
      \<lparr>dm_ID = mon_id m, dm_OrganizationID = mon_organization_id m, dm_EnvironmentID = mon_environment_id m,
       dm_TargetURL = mon_target_url m, dm_Method = mon_method m, dm_WorkerPoolID = mon_worker_pool_id m,
       dm_EncryptionKeyID = coalesce_empty (wp_encryption_key_id p), dm_QueueURL = coalesce_empty (wp_job_queue_url p),
       dm_Version = mon_version m, dm_Interval = mon_interval_seconds m, dm_Timeout = mon_timeout_seconds m,
       dm_Min = mon_expected_status_min m, dm_Max = mon_expected_status_max m, dm_Next = mon_next_check_at m,
       dm_Now = databaseNow, dm_Headers = mon_headers_ciphertext m, dm_HeaderVersion = mon_header_key_version m,
       dm_WorkerPublic = coalesce_empty (wp_encryption_public_key p), dm_NetworkPolicy = wp_network_policy_version p,
       dm_SchemaMin = wp_schema_min p, dm_SchemaMax = wp_schema_max p\<rparr>)"

definition missed_start :: "dueMonitor \<Rightarrow> bool" where
  "missed_start m \<longleftrightarrow> dm_Next m + JobStartWindow < dm_Now m"

definition schema_for :: "dueMonitor \<Rightarrow> int" where
  "schema_for m = (if dm_SchemaMax m < SchemaVersion then PreviousSchemaVersion else SchemaVersion)"

definition job_of :: "Scheduler \<Rightarrow> dueMonitor \<Rightarrow> (string, string) fmap \<Rightarrow> uuid \<Rightarrow> time \<Rightarrow> Job" where
  "job_of s m headers jobID scheduledAt =
     \<lparr>jb_SchemaVersion = schema_for m, jb_JobID = jobID, jb_JobType = ''scheduled'', jb_WorkerPoolID = dm_WorkerPoolID m,
      jb_NetworkPolicyVersion = dm_NetworkPolicy m, jb_ScheduledAt = scheduledAt, jb_ExpiresAt = scheduledAt + JobStartWindow,
      jb_TargetURL = dm_TargetURL m, jb_Method = dm_Method m, jb_TimeoutSeconds = dm_Timeout m,
      jb_ExpectedStatusMin = dm_Min m, jb_ExpectedStatusMax = dm_Max m, jb_Headers = headers,
      jb_Limits = \<lparr>MaxResponseBytes = 65536, MaxHeaderBytes = 32768, MaxRedirects = 3\<rparr>,
      jb_PlatformKeyID = sd_platformKeyID s, jb_WorkerEncryptionKeyID = dm_EncryptionKeyID m\<rparr>"

definition NewPublicKey :: "bytes \<Rightarrow> string option" where
  "NewPublicKey b = (if length b = 32 then Some b else None)"

definition envelope_text :: "envelope_error \<Rightarrow> go_error" where
  "envelope_text e = (case e of ErrInvalid \<Rightarrow> Err ''invalid worker envelope'' | ErrRandom \<Rightarrow> Err ''random source'')"

text \<open>The last part of the loop body: seal the job, store it with its message, and move the monitor to
  its next slot.  The result says whether a job was created.\<close>

definition move_monitor ::
  "dueMonitor \<Rightarrow> time \<Rightarrow> bool \<Rightarrow> (go_error \<Rightarrow> ('x, 'r) handler) \<Rightarrow> (bool \<Rightarrow> ('x, 'r) handler) \<Rightarrow> ('x, 'r) handler" where
  "move_monitor m next created h k =
     query (UpdateMonitorNextCheck (databaseTimestamp next) (dm_ID m) (databaseTimestamp (dm_Next m))) (h \<circ> Db)
       (\<lambda>_. k created)"

definition store_job ::
  "Scheduler \<Rightarrow> time \<Rightarrow> dueMonitor \<Rightarrow> time \<Rightarrow> uuid \<Rightarrow> time \<Rightarrow> string \<times> Attributes
   \<Rightarrow> (go_error \<Rightarrow> ('x, 'r) handler) \<Rightarrow> (bool \<Rightarrow> ('x, 'r) handler) \<Rightarrow> ('x, 'r) handler" where
  "store_job s ts m next jobID scheduledAt sealed h k =
     (let expires = scheduledAt + JobStartWindow in
      case sealed of (message, attrs) \<Rightarrow>
      case hex_decode (at_SnapshotHash attrs) of
        None \<Rightarrow> h (Err ''encoding/hex'')
      | Some hash \<Rightarrow>
          query (CreateScheduledCheckJob
                   (scheduled_job ts jobID m (databaseTimestamp scheduledAt) hash (databaseTimestamp expires))) (h \<circ> Db)
            (\<lambda>rowsAffected.
               if rowsAffected = 1
               then query (CreateScheduledDispatchOutbox
                      (scheduled_dispatch ts jobID (dm_WorkerPoolID m) (dm_QueueURL m) (base64_encode message) (schema_for m)
                         (sd_platformKeyID s) (dm_EncryptionKeyID m) hash (databaseTimestamp expires))) (h \<circ> Db)
                      (\<lambda>_. move_monitor m next True h k)
               else move_monitor m next False h k))"

definition seal_scheduled ::
  "Scheduler \<Rightarrow> sealing \<Rightarrow> dueMonitor \<Rightarrow> (string, string) fmap \<Rightarrow> uuid \<Rightarrow> time \<Rightarrow> go_error + string \<times> Attributes" where
  "seal_scheduled s g m headers jobID scheduledAt =
     (case NewPublicKey (dm_WorkerPublic m) of
        None \<Rightarrow> Inl (Err ''invalid worker pool public key'')
      | Some workerPublic \<Rightarrow>
          if schema_for m < dm_SchemaMin m \<or> schema_for m > dm_SchemaMax m
          then Inl (Err ''worker pool has no compatible protocol schema'')
          else case SealJob (sg_primitives g) (sg_now g jobID) (sg_ephemeral g jobID) (sg_nonce g jobID)
                      (job_of s m headers jobID scheduledAt) (sd_signer s) (Some workerPublic) of
                 Inl e \<Rightarrow> Inl (envelope_text e)
               | Inr sealed \<Rightarrow> Inr sealed)"

definition create_job ::
  "Scheduler \<Rightarrow> sealing \<Rightarrow> time \<Rightarrow> dueMonitor \<Rightarrow> time \<Rightarrow> (string, string) fmap \<Rightarrow> uuid \<Rightarrow> time
   \<Rightarrow> (go_error \<Rightarrow> ('x, 'r) handler) \<Rightarrow> (bool \<Rightarrow> ('x, 'r) handler) \<Rightarrow> ('x, 'r) handler" where
  "create_job s g ts m next headers jobID scheduledAt h k =
     (case seal_scheduled s g m headers jobID scheduledAt of
        Inl e \<Rightarrow> h e
      | Inr sealed \<Rightarrow> store_job s ts m next jobID scheduledAt sealed h k)"

definition monitor_headers :: "Scheduler \<Rightarrow> sealing \<Rightarrow> dueMonitor \<Rightarrow> (string, string) fmap option" where
  "monitor_headers s g m =
     (case Decrypt (sg_primitives g) (sg_range_order g) (sd_headers s) (dm_Headers m)
             (case dm_HeaderVersion m of None \<Rightarrow> 0 | Some v \<Rightarrow> v) of
        Inr headers \<Rightarrow> Some headers
      | Inl _ \<Rightarrow> if length (dm_Headers m) > 0 then None else Some fmempty)"

definition skip_slot ::
  "dueMonitor \<Rightarrow> time \<Rightarrow> (go_error \<Rightarrow> ('x, 'r) handler) \<Rightarrow> (bool \<Rightarrow> ('x, 'r) handler) \<Rightarrow> ('x, 'r) handler" where
  "skip_slot m next h k =
     query (InsertMonitoringCoverageGap (dm_OrganizationID m) (dm_EnvironmentID m) (dm_ID m) (databaseTimestamp (dm_Next m))
              ''admission_limit'') (h \<circ> Db) (\<lambda>_.
     ignoring (InsertMonitoringOperationalEvent ''admission_limit'' '''' (dm_WorkerPoolID m) ''scheduled queue limit'')
       (move_monitor m next False h k))"

definition schedule_monitor ::
  "Scheduler \<Rightarrow> sealing \<Rightarrow> time \<Rightarrow> int \<Rightarrow> dueMonitor
   \<Rightarrow> (go_error \<Rightarrow> ('x, 'r) handler) \<Rightarrow> (bool \<Rightarrow> ('x, 'r) handler) \<Rightarrow> ('x, 'r) handler" where
  "schedule_monitor s g ts outstanding m h k =
     (case nextSchedule (dm_Next m) (dm_Now m) (dm_Interval m) of
        Inl e \<Rightarrow> h e
      | Inr next \<Rightarrow>
          if outstanding \<ge> GlobalScheduledLimit then skip_slot m next h k
          else if length (dm_WorkerPublic m) \<noteq> 32 \<or> dm_EncryptionKeyID m = '''' \<or> dm_QueueURL m = ''''
          then h (Err ''worker pool is not provisioned'')
          else case monitor_headers s g m of
            None \<Rightarrow> h (Err ''monitor headers unavailable'')
          | Some headers \<Rightarrow>
              query NewScheduledJobID (h \<circ> Db) (\<lambda>jobID.
                if missed_start m
                then query (InsertMonitoringCoverageGap (dm_OrganizationID m) (dm_EnvironmentID m) (dm_ID m)
                              (databaseTimestamp (dm_Next m)) ''missed'') (h \<circ> Db)
                       (\<lambda>_. create_job s g ts m next headers jobID (dm_Now m) h k)
                else create_job s g ts m next headers jobID (dm_Next m) h k))"

fun schedule_loop ::
  "Scheduler \<Rightarrow> sealing \<Rightarrow> time \<Rightarrow> dueMonitor list \<Rightarrow> int \<Rightarrow> int
   \<Rightarrow> (go_error \<Rightarrow> ('x, 'r) handler) \<Rightarrow> (int \<Rightarrow> ('x, 'r) handler) \<Rightarrow> ('x, 'r) handler" where
  "schedule_loop s g ts [] outstanding created h k = k created"
| "schedule_loop s g ts (m # due) outstanding created h k =
     schedule_monitor s g ts outstanding m h (\<lambda>stored.
       if stored then schedule_loop s g ts due (outstanding + 1) (created + 1) h k
       else schedule_loop s g ts due outstanding created h k)"

definition schedule_fragment ::
  "Scheduler \<Rightarrow> sealing \<Rightarrow> time \<Rightarrow> int
   \<Rightarrow> (go_error \<Rightarrow> ('x, 'r) handler) \<Rightarrow> (int \<Rightarrow> ('x, 'r) handler) \<Rightarrow> ('x, 'r) handler" where
  "schedule_fragment s g ts batch h k =
     query CountActiveScheduledJobs (h \<circ> Db) (\<lambda>outstanding.
     query (GetDatabaseTime ts) (h \<circ> Db) (\<lambda>databaseNow.
     query (ListDueScheduledMonitors ts batch) (h \<circ> Db) (\<lambda>rows.
     schedule_loop s g ts (map (due_monitor databaseNow) rows) outstanding 0 h k)))"

definition ScheduleDue :: "Scheduler \<Rightarrow> sealing \<Rightarrow> time \<Rightarrow> int \<Rightarrow> ('x, go_error + int) handler" where
  "ScheduleDue s g ts batch =
     (if batch < 1 \<or> batch > MaxBatch then ret (Inl (Err ''invalid scheduler batch''))
      else transaction Inl Inr (schedule_fragment s g ts batch))"


subsection \<open>The next slot is the first one after now\<close>

lemma wrap_64_id: "- (2 ^ 63) \<le> d \<Longrightarrow> d < 2 ^ 63 \<Longrightarrow> wrap_64 d = d"
  by (simp add: wrap_64_def)

lemma saturate_64_id: "- (2 ^ 63) \<le> d \<Longrightarrow> d < 2 ^ 63 \<Longrightarrow> saturate_64 d = d"
  by (simp add: saturate_64_def)

lemma quotient_bounds:
  fixes d i :: int
  assumes "0 \<le> d" "0 < i"
  shows "0 \<le> d div i" "d div i \<le> d" "d div i * i \<le> d" "d < d div i * i + i"
proof -
  have split: "d = d div i * i + d mod i" "0 \<le> d mod i" "d mod i < i"
    using assms by simp_all
  show pos: "0 \<le> d div i"
    using assms by (simp add: pos_imp_zdiv_nonneg_iff)
  show "d div i * i \<le> d" "d < d div i * i + i"
    using split by linarith+
  moreover have "d div i * 1 \<le> d div i * i"
    using pos assms(2) by (intro mult_left_mono) simp_all
  ultimately show "d div i \<le> d" by linarith
qed

lemma sdiv_pos: "0 \<le> a \<Longrightarrow> 0 < b \<Longrightarrow> a sdiv b = a div (b :: int)"
  by (cases "a = 0") (auto simp: signed_divide_int_def)

lemma sdiv_neg: "a < 0 \<Longrightarrow> 0 < b \<Longrightarrow> a \<le> a sdiv b \<and> a sdiv b \<le> (0 :: int)"
  using quotient_bounds[of "- a" b] by (simp add: signed_divide_int_def)

definition slot_after :: "time \<Rightarrow> time \<Rightarrow> duration \<Rightarrow> int" where
  "slot_after scheduled now interval = (if now < scheduled then 1 else (now - scheduled) div interval + 1)"

lemma slot_after_first:
  assumes "0 < interval"
  shows "1 \<le> slot_after scheduled now interval \<and> now < scheduled + slot_after scheduled now interval * interval"
    "1 \<le> n \<Longrightarrow> now < scheduled + n * interval \<Longrightarrow> slot_after scheduled now interval \<le> n"
proof -
  let ?d = "now - scheduled"
  have "1 \<le> slot_after scheduled now interval \<and> now < scheduled + slot_after scheduled now interval * interval \<and>
    (1 \<le> n \<longrightarrow> now < scheduled + n * interval \<longrightarrow> slot_after scheduled now interval \<le> n)"
  proof (cases "now < scheduled")
    case True
    then show ?thesis using assms by (simp add: slot_after_def)
  next
    case False
    then have q: "0 \<le> ?d div interval" "?d div interval * interval \<le> ?d" "?d < ?d div interval * interval + interval"
      using quotient_bounds[of ?d interval] assms by simp_all
    have "?d div interval < n" if "now < scheduled + n * interval"
    proof -
      have "?d div interval * interval < n * interval" using q that by linarith
      then show ?thesis using assms by simp
    qed
    moreover have "slot_after scheduled now interval = ?d div interval + 1"
      using False by (simp add: slot_after_def)
    moreover have "(?d div interval + 1) * interval = ?d div interval * interval + interval"
      by (simp add: distrib_right)
    ultimately show ?thesis
      using q by auto
  qed
  then show "1 \<le> slot_after scheduled now interval \<and> now < scheduled + slot_after scheduled now interval * interval"
    "1 \<le> n \<Longrightarrow> now < scheduled + n * interval \<Longrightarrow> slot_after scheduled now interval \<le> n"
    by blast+
qed

lemma periods_slot:
  assumes "0 < i" "\<bar>now - scheduled\<bar> \<le> 2 ^ 62"
  shows "(if wrap_64 ((now - scheduled) sdiv i + 1) < 1 then 1 else wrap_64 ((now - scheduled) sdiv i + 1)) = slot_after scheduled now i"
    "slot_after scheduled now i * i \<le> 2 ^ 62 + i"
proof -
  let ?d = "now - scheduled"
  have "(if wrap_64 (?d sdiv i + 1) < 1 then 1 else wrap_64 (?d sdiv i + 1)) = slot_after scheduled now i \<and>
      slot_after scheduled now i * i \<le> 2 ^ 62 + i"
  proof (cases "now < scheduled")
    case True
    then have q: "?d \<le> ?d sdiv i" "?d sdiv i \<le> 0"
      using sdiv_neg[of ?d i] assms(1) by simp_all
    then have "wrap_64 (?d sdiv i + 1) = ?d sdiv i + 1"
      using assms(2) by (auto intro!: wrap_64_id)
    then show ?thesis
      using q True wrap_64_id[of 1] by (auto simp: slot_after_def)
  next
    case False
    then have q: "0 \<le> ?d div i" "?d div i \<le> ?d" "?d div i * i \<le> ?d" "?d sdiv i = ?d div i"
      using quotient_bounds[of ?d i] sdiv_pos[of ?d i] assms(1) by simp_all
    then have "wrap_64 (?d sdiv i + 1) = ?d div i + 1"
      using assms(2) by (auto intro!: wrap_64_id)
    then show ?thesis
      using q False assms(2) by (simp add: slot_after_def distrib_right)
  qed
  then show "(if wrap_64 (?d sdiv i + 1) < 1 then 1 else wrap_64 (?d sdiv i + 1)) = slot_after scheduled now i"
    "slot_after scheduled now i * i \<le> 2 ^ 62 + i"
    by blast+
qed

lemma nextSchedule_slot:
  assumes "0 < seconds" "seconds < 2 ^ 31" "\<bar>now - scheduled\<bar> \<le> 2 ^ 62"
  shows "nextSchedule scheduled now seconds =
    Inr (scheduled + slot_after scheduled now (seconds * second) * (seconds * second))"
proof -
  let ?i = "seconds * second"
  let ?n = "slot_after scheduled now ?i"
  have i: "0 < ?i" "wrap_64 ?i = ?i" "?i < 2 ^ 62"
    using assms(1,2) by (simp_all add: wrap_64_id)
  have d: "saturate_64 (now - scheduled) = now - scheduled"
    using assms(3) by (auto intro!: saturate_64_id)
  have n: "1 \<le> ?n" "now < scheduled + ?n * ?i"
    using slot_after_first(1)[OF i(1)] by simp_all
  then have "0 < ?n * ?i"
    using i(1) by simp
  moreover have "?n * ?i < 2 ^ 62 + 2 ^ 62"
    using periods_slot(2)[OF i(1) assms(3)] i(3) by (rule le_less_trans[OF _ add_strict_left_mono])
  ultimately have step: "wrap_64 (?n * ?i) = ?n * ?i"
    by (intro wrap_64_id) simp_all
  show ?thesis
    using assms(1) n(2) unfolding nextSchedule_def Let_def i(2) d periods_slot(1)[OF i(1) assms(3)] step
    by (simp add: if_not_P)
qed

text \<open>C22: the scheduler moves a monitor to the first slot of its grid that lies after now.  The next
  slot is a whole number of intervals after the scheduled one, at least one, and no earlier slot of the
  grid is still in the future; neither the saturating subtraction nor the 64-bit product disturbs this
  while the two times are less than 146 years apart.\<close>

theorem nextSchedule_least:
  assumes "0 < seconds" "seconds < 2 ^ 31" "\<bar>now - scheduled\<bar> \<le> 2 ^ 62"
  shows "\<exists>next n. nextSchedule scheduled now seconds = Inr next \<and>
    next = scheduled + n * (seconds * second) \<and> 1 \<le> n \<and> now < next \<and>
    (\<forall>k. 1 \<le> k \<and> now < scheduled + k * (seconds * second) \<longrightarrow> next \<le> scheduled + k * (seconds * second))"
proof -
  let ?i = "seconds * second"
  have i: "0 < ?i" using assms(1) by simp
  show ?thesis
    using slot_after_first[OF i, where scheduled = scheduled and now = now] i
    unfolding nextSchedule_slot[OF assms]
    by (intro exI[of _ "scheduled + slot_after scheduled now ?i * ?i"] exI[of _ "slot_after scheduled now ?i"])
      (auto intro!: mult_right_mono)
qed

theorem nextSchedule_least_witness:
  "\<exists>next n. nextSchedule (10 * minute) (13 * minute + second) 60 = Inr next \<and>
     next = 10 * minute + n * minute \<and> 1 \<le> n \<and> 13 * minute + second < next"
  using nextSchedule_least[of 60 "13 * minute + second" "10 * minute"] by auto


subsection \<open>What a batch leaves behind\<close>

definition job_slot :: "check_job_row \<Rightarrow> uuid \<times> time" where
  "job_slot j = (cj_monitor_id j, cj_scheduled_at j)"

definition carries :: "check_job_row \<Rightarrow> dispatch_row \<Rightarrow> bool" where
  "carries j r \<longleftrightarrow>
     do_job_id r = cj_id j \<and> do_worker_pool_id r = cj_worker_pool_id j \<and> do_snapshot_hash r = cj_snapshot_hash j \<and>
     do_expires_at r = cj_expires_at j"

text \<open>The keys of the tables, that at most one scheduled job of a monitor is outstanding, that a message
  belongs to a job, and that every job that waits to be published has its message.\<close>

definition schedule_inv :: "database \<Rightarrow> bool" where
  "schedule_inv db \<longleftrightarrow>
     inj (db_rand db) \<and> dispatch_inv db \<and>
     distinct (map mon_id (monitors db)) \<and> distinct (map wp_id (worker_pools db)) \<and>
     distinct (map cj_id (check_jobs db)) \<and> distinct (map job_slot (check_jobs db)) \<and>
     distinct (map cj_monitor_id (filter outstanding_job (check_jobs db))) \<and>
     (\<forall>j\<in>set (check_jobs db). was_drawn db (cj_id j)) \<and>
     (\<forall>r\<in>set (check_dispatch_outbox db). \<exists>j\<in>set (check_jobs db). cj_id j = do_job_id r) \<and>
     (\<forall>j\<in>set (check_jobs db). cj_state j = ''pending_publish'' \<longrightarrow> (\<exists>r\<in>set (check_dispatch_outbox db). carries j r))"

text \<open>A due monitor whose slot was not handled yet.\<close>

definition waiting_slot :: "time \<Rightarrow> database \<Rightarrow> dueMonitor \<Rightarrow> bool" where
  "waiting_slot ts db m \<longleftrightarrow>
     dm_Now m = ts \<and> dm_Next m \<le> ts \<and> ts - dm_Next m \<le> 2 ^ 62 \<and> microsecond dvd dm_Next m \<and>
     dm_Interval m \<in> set [60, 120, 300, 600, 1800] \<and>
     (\<exists>row\<in>set (monitors db). mon_id row = dm_ID m \<and> mon_next_check_at row = dm_Next m) \<and>
     (\<forall>j\<in>set (check_jobs db). \<not> (cj_monitor_id j = dm_ID m \<and> outstanding_job j))"

text \<open>The job and the message that were stored for a monitor.\<close>

definition start_of :: "dueMonitor \<Rightarrow> time" where
  "start_of m = (if missed_start m then dm_Now m else dm_Next m)"

definition stored_for :: "Scheduler \<Rightarrow> sealing \<Rightarrow> time \<Rightarrow> dueMonitor \<Rightarrow> check_job_row \<Rightarrow> dispatch_row \<Rightarrow> bool" where
  "stored_for s g ts m j r \<longleftrightarrow>
     (\<exists>jobID headers message attrs hash.
        monitor_headers s g m = Some headers \<and>
        SealJob (sg_primitives g) (sg_now g jobID) (sg_ephemeral g jobID) (sg_nonce g jobID)
          (job_of s m headers jobID (start_of m)) (sd_signer s) (Some (dm_WorkerPublic m)) = Inr (message, attrs) \<and>
        hex_decode (at_SnapshotHash attrs) = Some hash \<and>
        j = scheduled_job ts jobID m (databaseTimestamp (start_of m)) hash (databaseTimestamp (start_of m + JobStartWindow)) \<and>
        r = scheduled_dispatch ts jobID (dm_WorkerPoolID m) (dm_QueueURL m) (base64_encode message) (schema_for m)
              (sd_platformKeyID s) (dm_EncryptionKeyID m) hash (databaseTimestamp (start_of m + JobStartWindow)))"

definition moved_on :: "dueMonitor \<Rightarrow> time \<Rightarrow> monitor_row list \<Rightarrow> monitor_row list" where
  "moved_on m next rows =
     update_where (\<lambda>x. mon_id x = dm_ID m \<and> mon_next_check_at x = dm_Next m) (\<lambda>x. x\<lparr>mon_next_check_at := next\<rparr>) rows"

definition slot_handled :: "Scheduler \<Rightarrow> sealing \<Rightarrow> time \<Rightarrow> dueMonitor \<Rightarrow> database \<Rightarrow> bool \<Rightarrow> database \<Rightarrow> bool" where
  "slot_handled s g ts m db stored db' \<longleftrightarrow>
     schedule_inv db' \<and> worker_pools db' = worker_pools db \<and>
     (\<exists>next>ts. monitors db' = moved_on m next (monitors db)) \<and>
     (if stored
      then \<exists>j r. stored_for s g ts m j r \<and> check_jobs db' = check_jobs db @ [j] \<and>
             check_dispatch_outbox db' = check_dispatch_outbox db @ [r]
      else check_jobs db' = check_jobs db \<and> check_dispatch_outbox db' = check_dispatch_outbox db)"

lemma dispatch_inv_other [simp]:
  "dispatch_inv (db\<lparr>monitoring_coverage_gaps := a\<rparr>) = dispatch_inv db"
  "dispatch_inv (db\<lparr>monitoring_operational_events := b\<rparr>) = dispatch_inv db"
  "dispatch_inv (db\<lparr>monitors := c\<rparr>) = dispatch_inv db"
  "dispatch_inv (db\<lparr>check_jobs := d\<rparr>) = dispatch_inv db"
  "dispatch_inv (drawn_uuid db) = dispatch_inv db"
  by (simp_all add: dispatch_inv_def)

lemma schedule_inv_other [simp]:
  "schedule_inv (db\<lparr>monitoring_coverage_gaps := a\<rparr>) = schedule_inv db"
  "schedule_inv (db\<lparr>monitoring_operational_events := b\<rparr>) = schedule_inv db"
  by (simp_all add: schedule_inv_def)

lemma schedule_inv_drawn: "schedule_inv db \<Longrightarrow> schedule_inv (drawn_uuid db)"
  by (simp add: schedule_inv_def)

lemma schedule_inv_moved: "schedule_inv db \<Longrightarrow> schedule_inv (db\<lparr>monitors := moved_on m next (monitors db)\<rparr>)"
  by (simp add: schedule_inv_def moved_on_def update_where_key)

text \<open>The identifier drawn for a job is the identifier of no other job.\<close>

lemma fresh_job:
  assumes "schedule_inv db" "j \<in> set (check_jobs db)"
  shows "cj_id j \<noteq> fresh_uuid db"
  using assms fresh_not_drawn[of db] unfolding schedule_inv_def by metis

lemma fresh_dispatch:
  assumes "schedule_inv db" "r \<in> set (check_dispatch_outbox db)"
  shows "do_job_id r \<noteq> fresh_uuid db"
proof -
  obtain j where "j \<in> set (check_jobs db)" "cj_id j = do_job_id r"
    using assms unfolding schedule_inv_def by metis
  with fresh_job[OF assms(1)] show ?thesis by metis
qed


lemma schedule_inv_stored:
  assumes inv: "schedule_inv db" and id: "was_drawn db (cj_id j)" "\<And>x. x \<in> set (check_jobs db) \<Longrightarrow> cj_id x \<noteq> cj_id j"
    "\<And>x. x \<in> set (check_dispatch_outbox db) \<Longrightarrow> do_job_id x \<noteq> cj_id j"
    and slot: "\<And>x. x \<in> set (check_jobs db) \<Longrightarrow> job_slot x \<noteq> job_slot j"
    and free: "\<And>x. x \<in> set (check_jobs db) \<Longrightarrow> \<not> (cj_monitor_id x = cj_monitor_id j \<and> outstanding_job x)"
    and row: "dispatch_ok r" "carries j r"
  shows "schedule_inv (db\<lparr>check_jobs := check_jobs db @ [j], check_dispatch_outbox := check_dispatch_outbox db @ [r]\<rparr>)"
proof -
  have row_id: "do_job_id r = cj_id j"
    using row(2) by (simp add: carries_def)
  have new: "cj_id j \<notin> do_job_id ` set (check_dispatch_outbox db)"
    using id(3) by (metis imageE)
  have fresh: "cj_id j \<notin> cj_id ` set (check_jobs db)" "job_slot j \<notin> job_slot ` set (check_jobs db)"
    "cj_monitor_id j \<notin> cj_monitor_id ` set (filter outstanding_job (check_jobs db))"
    using id(2) slot free by (metis imageE, metis imageE, force)
  have "dispatch_inv (db\<lparr>check_jobs := check_jobs db @ [j], check_dispatch_outbox := check_dispatch_outbox db @ [r]\<rparr>)"
    using inv row(1) new unfolding schedule_inv_def dispatch_inv_def by (simp add: row_id)
  moreover have "distinct (map cj_id (check_jobs db @ [j]))" "distinct (map job_slot (check_jobs db @ [j]))"
    "distinct (map cj_monitor_id (filter outstanding_job (check_jobs db @ [j])))"
    using inv fresh unfolding schedule_inv_def by simp_all
  ultimately show ?thesis
    using inv id(1) row(2) unfolding schedule_inv_def by (simp add: row_id)
qed

lemma scheduled_dispatch_ok:
  "dispatch_ok (scheduled_dispatch ts jobID pool queue body schema platformKeyID workerKeyID hash expires)"
  by (simp add: dispatch_ok_def scheduled_dispatch_def)

lemma scheduled_carries:
  "carries (scheduled_job ts jobID m scheduledAt hash expires)
     (scheduled_dispatch ts jobID (dm_WorkerPoolID m) queue body schema platformKeyID workerKeyID hash expires)"
  by (simp add: carries_def scheduled_dispatch_def scheduled_job_def)

lemma databaseTimestamp_fixed: "microsecond dvd t \<Longrightarrow> databaseTimestamp t = t"
  by (simp add: databaseTimestamp_def truncate_time_def)

text \<open>Moving the monitor ends the handling of a slot.\<close>

lemma move_monitor_ends:
  assumes "schedule_inv db" "microsecond dvd dm_Next m" "microsecond dvd next" "ts < next"
    and "\<And>db'. schedule_inv db' \<Longrightarrow> worker_pools db' = worker_pools db \<Longrightarrow> monitors db' = moved_on m next (monitors db) \<Longrightarrow>
      check_jobs db' = check_jobs db \<Longrightarrow> check_dispatch_outbox db' = check_dispatch_outbox db \<Longrightarrow> Q stored db'"
  shows "ends_in (move_monitor m next stored) db E Q"
  using schedule_inv_moved[OF assms(1)]
  unfolding move_monitor_def[abs_def] UpdateMonitorNextCheck_def databaseTimestamp_fixed[OF assms(2)] databaseTimestamp_fixed[OF assms(3)]
    moved_on_def[symmetric]
  by (intro ends_writing[where q = "\<lambda>_ _ k. k stored"] ends_done) (auto intro!: assms(5))

lemma store_job_ends:
  assumes inv: "schedule_inv db" and wait: "waiting_slot ts db m"
    and id: "was_drawn db jobID" "\<And>x. x \<in> set (check_jobs db) \<Longrightarrow> cj_id x \<noteq> jobID"
      "\<And>x. x \<in> set (check_dispatch_outbox db) \<Longrightarrow> do_job_id x \<noteq> jobID"
    and later: "microsecond dvd next" "ts < next"
    and headers: "monitor_headers s g m = Some headers"
    and sealed: "SealJob (sg_primitives g) (sg_now g jobID) (sg_ephemeral g jobID) (sg_nonce g jobID)
          (job_of s m headers jobID (start_of m)) (sd_signer s) (Some (dm_WorkerPublic m)) = Inr (message, attrs)"
  shows "ends_in (store_job s ts m next jobID (start_of m) (message, attrs)) db (\<lambda>_. True) (slot_handled s g ts m db)"
proof (cases "hex_decode (at_SnapshotHash attrs)")
  case None
  then show ?thesis
    unfolding store_job_def[abs_def] Let_def prod.case by (simp add: ends_fail)
next
  case (Some hash)
  let ?j = "scheduled_job ts jobID m (databaseTimestamp (start_of m)) hash (databaseTimestamp (start_of m + JobStartWindow))"
  let ?r = "scheduled_dispatch ts jobID (dm_WorkerPoolID m) (dm_QueueURL m) (base64_encode message) (schema_for m)
              (sd_platformKeyID s) (dm_EncryptionKeyID m) hash (databaseTimestamp (start_of m + JobStartWindow))"
  let ?move = "\<lambda>rowsAffected h k. if rowsAffected = (1 :: int)
      then query (CreateScheduledDispatchOutbox ?r) (h \<circ> Db) (\<lambda>_. move_monitor m next True h k)
      else move_monitor m next False h k"
  have stored: "stored_for s g ts m ?j ?r"
    unfolding stored_for_def using headers sealed Some by blast
  have m: "microsecond dvd dm_Next m" and free: "\<And>x. x \<in> set (check_jobs db) \<Longrightarrow> \<not> (cj_monitor_id x = dm_ID m \<and> outstanding_job x)"
    using wait unfolding waiting_slot_def by blast+
  have after: "ends_in (?move rows) db' (\<lambda>_. True) (slot_handled s g ts m db)"
    if ins: "CreateScheduledCheckJob ?j db = Inr (rows, db')" for rows db'
  proof (cases "rows = 1")
    case False
    with ins have "db' = db"
      by (auto simp: CreateScheduledCheckJob_def split: if_splits)
    with False show ?thesis
      using later by (auto intro!: move_monitor_ends[OF inv m later] simp: slot_handled_def)
  next
    case True
    with ins have db': "db' = db\<lparr>check_jobs := check_jobs db @ [?j]\<rparr>"
      and slot: "\<And>x. x \<in> set (check_jobs db) \<Longrightarrow> job_slot x \<noteq> job_slot ?j"
      by (auto simp: CreateScheduledCheckJob_def job_slot_def split: if_splits)
    show ?thesis
    proof (cases "CreateScheduledDispatchOutbox ?r db'")
      case (Inl c)
      then show ?thesis using True by (auto intro!: ends_violation)
    next
      case (Inr u)
      then have u: "u = ((), db\<lparr>check_jobs := check_jobs db @ [?j], check_dispatch_outbox := check_dispatch_outbox db @ [?r]\<rparr>)"
        by (auto simp: CreateScheduledDispatchOutbox_def db' split: if_splits)
      have "schedule_inv (db\<lparr>check_jobs := check_jobs db @ [?j], check_dispatch_outbox := check_dispatch_outbox db @ [?r]\<rparr>)"
      proof (rule schedule_inv_stored[OF inv])
        show "was_drawn db (cj_id ?j)" "\<And>x. x \<in> set (check_jobs db) \<Longrightarrow> cj_id x \<noteq> cj_id ?j"
          "\<And>x. x \<in> set (check_dispatch_outbox db) \<Longrightarrow> do_job_id x \<noteq> cj_id ?j"
          using id by (simp_all add: scheduled_job_def)
        show "\<not> (cj_monitor_id x = cj_monitor_id ?j \<and> outstanding_job x)" if "x \<in> set (check_jobs db)" for x
          using free[OF that] by (simp add: scheduled_job_def)
      qed (rule slot scheduled_dispatch_ok scheduled_carries, assumption?)+
      then have moved: "ends_in (move_monitor m next True) (snd u) (\<lambda>_. True) (slot_handled s g ts m db)"
        unfolding u using stored later by (auto intro!: move_monitor_ends[OF _ m later] simp: slot_handled_def)
      show ?thesis
        unfolding True if_P[OF refl]
        by (rule ends_query[where q = "\<lambda>_. move_monitor m next True", OF _ moved]) (use Inr u in simp)
    qed
  qed
  show ?thesis
    unfolding store_job_def[abs_def] Let_def prod.case Some option.case
    by (rule ends_bind[OF ends_stmt, where q = ?move]) (auto intro: after)
qed


lemma waiting_next:
  assumes "waiting_slot ts db m"
  obtains nxt where "nextSchedule (dm_Next m) (dm_Now m) (dm_Interval m) = Inr nxt" "ts < nxt" "microsecond dvd nxt"
proof -
  let ?i = "dm_Interval m * second"
  let ?next = "dm_Next m + slot_after (dm_Next m) ts ?i * ?i"
  have m: "dm_Now m = ts" "\<bar>ts - dm_Next m\<bar> \<le> 2 ^ 62" "microsecond dvd dm_Next m" "0 < dm_Interval m" "dm_Interval m < 2 ^ 31"
    using assms by (auto simp: waiting_slot_def)
  have "nextSchedule (dm_Next m) (dm_Now m) (dm_Interval m) = Inr ?next"
    using nextSchedule_slot[OF m(4,5,2)] m(1) by simp
  moreover have "ts < ?next"
    using slot_after_first(1)[of ?i "dm_Next m" ts] m(4) by simp
  moreover have "microsecond dvd ?next"
    using m(3) by (intro dvd_add dvd_mult) simp_all
  ultimately show ?thesis by (rule that)
qed

lemma waiting_slot_other [simp]:
  "waiting_slot ts (db\<lparr>monitoring_coverage_gaps := a\<rparr>) m = waiting_slot ts db m"
  "waiting_slot ts (drawn_uuid db) m = waiting_slot ts db m"
  by (simp_all add: waiting_slot_def)

lemma slot_handled_other [simp]:
  "slot_handled s g ts m (db\<lparr>monitoring_coverage_gaps := a\<rparr>) = slot_handled s g ts m db"
  "slot_handled s g ts m (drawn_uuid db) = slot_handled s g ts m db"
  by (simp_all add: slot_handled_def fun_eq_iff)

lemma create_job_ends:
  assumes inv: "schedule_inv db" and wait: "waiting_slot ts db m"
    and id: "was_drawn db jobID" "\<And>x. x \<in> set (check_jobs db) \<Longrightarrow> cj_id x \<noteq> jobID"
      "\<And>x. x \<in> set (check_dispatch_outbox db) \<Longrightarrow> do_job_id x \<noteq> jobID"
    and later: "microsecond dvd next" "ts < next"
    and headers: "monitor_headers s g m = Some headers"
  shows "ends_in (create_job s g ts m next headers jobID (start_of m)) db (\<lambda>_. True) (slot_handled s g ts m db)"
proof (cases "seal_scheduled s g m headers jobID (start_of m)")
  case (Inl e)
  then show ?thesis
    unfolding create_job_def[abs_def] by (simp add: ends_fail)
next
  case (Inr sealed)
  obtain message attrs where msg: "sealed = (message, attrs)"
    by (cases sealed)
  have "SealJob (sg_primitives g) (sg_now g jobID) (sg_ephemeral g jobID) (sg_nonce g jobID)
      (job_of s m headers jobID (start_of m)) (sd_signer s) (Some (dm_WorkerPublic m)) = Inr (message, attrs)"
    using Inr msg by (auto simp: seal_scheduled_def NewPublicKey_def split: if_splits sum.splits)
  from store_job_ends[OF inv wait id later headers this] show ?thesis
    unfolding create_job_def[abs_def] Inr sum.case msg .
qed

lemma skip_slot_ends:
  assumes "schedule_inv db" "waiting_slot ts db m" "microsecond dvd next" "ts < next"
  shows "ends_in (skip_slot m next) db (\<lambda>_. True) (\<lambda>stored db'. slot_handled s g ts m db stored db' \<and> \<not> stored)"
proof -
  have m: "microsecond dvd dm_Next m"
    using assms(2) by (simp add: waiting_slot_def)
  have move: "ends_in (move_monitor m next False) (db\<lparr>monitoring_coverage_gaps := gaps, monitoring_operational_events := events\<rparr>)
      (\<lambda>_. True) (\<lambda>stored db'. slot_handled s g ts m db stored db' \<and> \<not> stored)" for gaps events
    by (rule move_monitor_ends[OF _ m assms(3,4)]) (use assms in \<open>auto simp: slot_handled_def\<close>)
  have event: "InsertMonitoringOperationalEvent ''admission_limit'' '''' pool ''scheduled queue limit'' d =
      Inr ((), d\<lparr>monitoring_operational_events := monitoring_operational_events d @
        [\<lparr>oe_event_type = ''admission_limit'', oe_job_id = None, oe_worker_pool_id = nullif_empty pool,
          oe_safe_details = ''scheduled queue limit''\<rparr>]\<rparr>)" for pool d
    by (simp add: InsertMonitoringOperationalEvent_def nullif_empty_def)
  have aborts: "aborts (move_monitor m next False)"
    unfolding move_monitor_def[abs_def] by (rule aborts_query)
  show ?thesis
    unfolding skip_slot_def[abs_def] InsertMonitoringCoverageGap_def
    by (rule ends_writing) (rule ends_ignored[OF event _ aborts], rule move)
qed

lemma admitted_ends:
  assumes inv: "schedule_inv db" and wait: "waiting_slot ts db m" and later: "microsecond dvd next" "ts < next"
    and headers: "monitor_headers s g m = Some headers"
  shows "ends_in (\<lambda>h k. query NewScheduledJobID (h \<circ> Db) (\<lambda>jobID.
      if missed_start m
      then query (InsertMonitoringCoverageGap (dm_OrganizationID m) (dm_EnvironmentID m) (dm_ID m)
              (databaseTimestamp (dm_Next m)) ''missed'') (h \<circ> Db)
             (\<lambda>_. create_job s g ts m next headers jobID (dm_Now m) h k)
      else create_job s g ts m next headers jobID (dm_Next m) h k)) db (\<lambda>_. True) (slot_handled s g ts m db)"
    (is "ends_in (\<lambda>h k. query NewScheduledJobID (h \<circ> Db) (\<lambda>jobID. ?rest jobID h k)) db _ _")
proof (rule ends_query[where q = ?rest])
  let ?db = "drawn_uuid db" and ?id = "fresh_uuid db"
  show "NewScheduledJobID db = Inr (?id, ?db)"
    by (simp add: NewScheduledJobID_def)
  have "ends_in (create_job s g ts m next headers ?id (start_of m)) (?db\<lparr>monitoring_coverage_gaps := gaps\<rparr>)
      (\<lambda>_. True) (slot_handled s g ts m (?db\<lparr>monitoring_coverage_gaps := gaps\<rparr>))" for gaps
    by (rule create_job_ends[OF _ _ _ _ _ later headers])
      (use inv wait fresh_job[OF inv] fresh_dispatch[OF inv] in \<open>auto simp: schedule_inv_drawn\<close>)
  then have create: "ends_in (create_job s g ts m next headers ?id (start_of m)) (?db\<lparr>monitoring_coverage_gaps := gaps\<rparr>)
      (\<lambda>_. True) (slot_handled s g ts m db)" for gaps
    by simp
  show "ends_in (?rest ?id) ?db (\<lambda>_. True) (slot_handled s g ts m db)"
  proof (cases "missed_start m")
    case True
    show ?thesis
      unfolding if_P[OF True] InsertMonitoringCoverageGap_def
      by (rule ends_writing) (use create True in \<open>simp add: start_of_def\<close>)
  next
    case False
    have "ends_in (create_job s g ts m next headers ?id (start_of m)) ?db (\<lambda>_. True) (slot_handled s g ts m ?db)"
      by (rule create_job_ends[OF _ _ _ _ _ later headers])
        (use inv wait fresh_job[OF inv] fresh_dispatch[OF inv] in \<open>auto simp: schedule_inv_drawn\<close>)
    then show ?thesis
      unfolding if_not_P[OF False] using False by (simp add: start_of_def)
  qed
qed

lemma schedule_monitor_ends:
  assumes inv: "schedule_inv db" and wait: "waiting_slot ts db m"
  shows "ends_in (schedule_monitor s g ts outstanding m) db (\<lambda>_. True)
    (\<lambda>stored db'. slot_handled s g ts m db stored db' \<and> (stored \<longrightarrow> outstanding < GlobalScheduledLimit))"
proof -
  from wait obtain nxt where nxt: "nextSchedule (dm_Next m) (dm_Now m) (dm_Interval m) = Inr nxt"
    and later: "microsecond dvd nxt" "ts < nxt"
    by (rule waiting_next)
  note unfolded = schedule_monitor_def[abs_def] nxt sum.case
  show ?thesis
  proof (cases "outstanding \<ge> GlobalScheduledLimit")
    case True
    show ?thesis
      unfolding unfolded if_P[OF True] by (rule ends_weaken[OF skip_slot_ends[OF inv wait later]]) auto
  next
    case False
    show ?thesis
    proof (cases "length (dm_WorkerPublic m) \<noteq> 32 \<or> dm_EncryptionKeyID m = '''' \<or> dm_QueueURL m = ''''")
      case True
      show ?thesis
        unfolding unfolded if_not_P[OF False] if_P[OF True] by (simp add: ends_fail)
    next
      case none: False
      show ?thesis
      proof (cases "monitor_headers s g m")
        case None
        show ?thesis
          unfolding unfolded if_not_P[OF False] if_not_P[OF none] None option.case by (simp add: ends_fail)
      next
        case (Some headers)
        show ?thesis
          unfolding unfolded if_not_P[OF False] if_not_P[OF none] Some option.case
          by (rule ends_weaken[OF admitted_ends[OF inv wait later Some]]) (use False in auto)
      qed
    qed
  qed
qed


text \<open>A finished batch: the new jobs and messages in pairs, every monitor of the batch past now, and the
  other monitors as they were.\<close>

definition batch_done ::
  "Scheduler \<Rightarrow> sealing \<Rightarrow> time \<Rightarrow> dueMonitor list \<Rightarrow> database \<Rightarrow> check_job_row list \<Rightarrow> dispatch_row list \<Rightarrow> database \<Rightarrow> bool" where
  "batch_done s g ts due db jobs rows db' \<longleftrightarrow>
     schedule_inv db' \<and> worker_pools db' = worker_pools db \<and>
     check_jobs db' = check_jobs db @ jobs \<and> check_dispatch_outbox db' = check_dispatch_outbox db @ rows \<and>
     list_all2 (\<lambda>j r. \<exists>m\<in>set due. stored_for s g ts m j r) jobs rows \<and>
     (\<forall>x\<in>set (monitors db'). mon_id x \<in> set (map dm_ID due) \<longrightarrow> ts < mon_next_check_at x) \<and>
     filter (\<lambda>x. mon_id x \<notin> set (map dm_ID due)) (monitors db') = filter (\<lambda>x. mon_id x \<notin> set (map dm_ID due)) (monitors db)"

lemma moved_on_in:
  assumes "distinct (map mon_id rows)" "\<exists>row\<in>set rows. mon_id row = dm_ID m \<and> mon_next_check_at row = dm_Next m"
    and "x \<in> set (moved_on m next rows)" "mon_id x = dm_ID m"
  shows "mon_next_check_at x = next"
proof -
  obtain y where y: "y \<in> set rows" "x = (if mon_id y = dm_ID m \<and> mon_next_check_at y = dm_Next m then y\<lparr>mon_next_check_at := next\<rparr> else y)"
    using assms(3) unfolding moved_on_def by (rule in_update_whereE)
  then have "mon_id y = dm_ID m"
    using assms(4) by (auto split: if_splits)
  moreover obtain row where "row \<in> set rows" "mon_id row = dm_ID m" "mon_next_check_at row = dm_Next m"
    using assms(2) by blast
  ultimately have "y = row"
    using assms(1) y(1) by (metis distinct_map inj_onD)
  with y(2) \<open>mon_id row = dm_ID m\<close> \<open>mon_next_check_at row = dm_Next m\<close> show ?thesis by simp
qed

lemma moved_on_others:
  "dm_ID m \<in> ids \<Longrightarrow> filter (\<lambda>x. mon_id x \<notin> ids) (moved_on m next rows) = filter (\<lambda>x. mon_id x \<notin> ids) rows"
  unfolding moved_on_def by (subst filter_update_where) (auto intro: filter_cong)

lemma moved_on_keeps:
  "x \<in> set rows \<Longrightarrow> mon_id x \<noteq> dm_ID m \<Longrightarrow> x \<in> set (moved_on m next rows)"
  by (auto simp: moved_on_def set_update_where)

lemma stored_job:
  assumes "stored_for s g ts m j r"
  shows "outstanding_job j" "cj_monitor_id j = dm_ID m" "cj_state j = ''pending_publish''"
  using assms by (auto simp: stored_for_def scheduled_job_def outstanding_job_def active_state_def)

lemma handled_waiting:
  assumes "slot_handled s g ts m db stored db'" "waiting_slot ts db m'" "dm_ID m' \<noteq> dm_ID m"
  shows "waiting_slot ts db' m'"
proof -
  obtain nxt where mons: "monitors db' = moved_on m nxt (monitors db)"
    using assms(1) unfolding slot_handled_def by blast
  have "set (check_jobs db') \<subseteq> set (check_jobs db) \<union> {j. cj_monitor_id j = dm_ID m}"
    using assms(1) stored_job(2) unfolding slot_handled_def by (cases stored) auto
  then show ?thesis
    using assms(2,3) moved_on_keeps[of _ "monitors db" m nxt] unfolding waiting_slot_def mons by fastforce
qed

lemma batch_done_Cons:
  assumes first: "slot_handled s g ts m db stored db'" and wait: "waiting_slot ts db m" "dm_ID m \<notin> set (map dm_ID due)"
    and inv: "schedule_inv db" and rest: "batch_done s g ts due db' jobs rows db''"
  shows "\<exists>new news. batch_done s g ts (m # due) db (new @ jobs) (news @ rows) db'' \<and> length new = (if stored then 1 else 0)"
proof -
  obtain nxt where nxt: "ts < nxt" and mons: "monitors db' = moved_on m nxt (monitors db)"
    using first unfolding slot_handled_def by blast
  obtain new news where new: "check_jobs db' = check_jobs db @ new" "check_dispatch_outbox db' = check_dispatch_outbox db @ news"
    "list_all2 (stored_for s g ts m) new news" "length new = (if stored then 1 else 0)"
  proof (cases stored)
    case True
    then obtain j r where "stored_for s g ts m j r" "check_jobs db' = check_jobs db @ [j]"
      "check_dispatch_outbox db' = check_dispatch_outbox db @ [r]"
      using first unfolding slot_handled_def by auto
    with True show ?thesis by (intro that[of "[j]" "[r]"]) simp_all
  next
    case False
    with first show ?thesis unfolding slot_handled_def by (intro that[of "[]" "[]"]) simp_all
  qed
  have others: "filter (\<lambda>x. mon_id x \<notin> set (map dm_ID due)) (monitors db'') = filter (\<lambda>x. mon_id x \<notin> set (map dm_ID due)) (monitors db')"
    and past: "\<forall>x\<in>set (monitors db''). mon_id x \<in> set (map dm_ID due) \<longrightarrow> ts < mon_next_check_at x"
    using rest unfolding batch_done_def by blast+
  have "ts < mon_next_check_at x" if x: "x \<in> set (monitors db'')" "mon_id x = dm_ID m" for x
  proof -
    have "x \<in> set (filter (\<lambda>x. mon_id x \<notin> set (map dm_ID due)) (monitors db''))"
      using x wait(2) by simp
    then have "x \<in> set (moved_on m nxt (monitors db))"
      unfolding others mons by simp
    then show ?thesis
      using moved_on_in[of "monitors db" m x nxt] x(2) inv wait(1) nxt unfolding schedule_inv_def waiting_slot_def by auto
  qed
  moreover have "filter (\<lambda>x. mon_id x \<notin> set (map dm_ID (m # due))) (monitors db'') =
      filter (\<lambda>x. mon_id x \<noteq> dm_ID m) (filter (\<lambda>x. mon_id x \<notin> set (map dm_ID due)) (monitors db''))"
    by (simp add: conj_commute)
  moreover have "filter (\<lambda>x. mon_id x \<noteq> dm_ID m) (filter (\<lambda>x. mon_id x \<notin> set (map dm_ID due)) (monitors db'')) =
      filter (\<lambda>x. mon_id x \<notin> set (map dm_ID (m # due))) (monitors db)"
    unfolding others mons using moved_on_others[of m "set (map dm_ID (m # due))" nxt "monitors db"] by (simp add: conj_commute)
  moreover have "list_all2 (\<lambda>j r. \<exists>x\<in>set (m # due). stored_for s g ts x j r) (new @ jobs) (news @ rows)"
    using new(3) rest unfolding batch_done_def by (intro list_all2_appendI) (auto elim!: list_all2_mono)
  ultimately have "batch_done s g ts (m # due) db (new @ jobs) (news @ rows) db''"
    using rest new(1,2) first past unfolding batch_done_def slot_handled_def by auto
  with new(4) show ?thesis by blast
qed

lemma schedule_loop_ends:
  assumes "schedule_inv db" "\<forall>m\<in>set due. waiting_slot ts db m" "distinct (map dm_ID due)"
  shows "ends_in (schedule_loop s g ts due outstanding created :: (database, 'x, 'r, go_error, int) fragment) db (\<lambda>_. True) (\<lambda>n db'. \<exists>jobs rows.
    batch_done s g ts due db jobs rows db' \<and> n = created + int (length jobs) \<and>
    (jobs = [] \<or> outstanding + int (length jobs) \<le> GlobalScheduledLimit))"
  using assms
proof (induction due arbitrary: db outstanding created)
  case Nil
  then have "batch_done s g ts [] db [] [] db"
    by (simp add: batch_done_def)
  then show ?case
    unfolding schedule_loop.simps(1)[abs_def] by (intro ends_done) (metis int_ops(1) list.size(3) add.right_neutral)
next
  case (Cons m due)
  let ?rest = "\<lambda>stored. (if stored then schedule_loop s g ts due (outstanding + 1) (created + 1)
      else schedule_loop s g ts due outstanding created) :: (database, 'x, 'r, go_error, int) fragment"
  have wait: "waiting_slot ts db m" "dm_ID m \<notin> set (map dm_ID due)"
    using Cons.prems by auto
  have step: "ends_in (?rest stored) db' (\<lambda>_. True) (\<lambda>n db'. \<exists>jobs rows.
      batch_done s g ts (m # due) db jobs rows db' \<and> n = created + int (length jobs) \<and>
      (jobs = [] \<or> outstanding + int (length jobs) \<le> GlobalScheduledLimit))"
    if "slot_handled s g ts m db stored db' \<and> (stored \<longrightarrow> outstanding < GlobalScheduledLimit)" for stored db'
  proof -
    have handled: "slot_handled s g ts m db stored db'" and inv: "schedule_inv db'"
      using that unfolding slot_handled_def by blast+
    have "\<forall>x\<in>set due. waiting_slot ts db' x"
      using handled_waiting[OF handled] Cons.prems(2) wait(2) by (metis image_eqI image_set list.set_intros(2))
    note IH = Cons.IH[OF inv this, of "outstanding + (if stored then 1 else 0)" "created + (if stored then 1 else 0)"]
    have "ends_in (?rest stored) db' (\<lambda>_. True) (\<lambda>n db''. \<exists>jobs rows.
        batch_done s g ts due db' jobs rows db'' \<and> n = created + (if stored then 1 else 0) + int (length jobs) \<and>
        (jobs = [] \<or> outstanding + (if stored then 1 else 0) + int (length jobs) \<le> GlobalScheduledLimit))"
      using IH Cons.prems(3) by (cases stored) simp_all
    then show ?thesis
    proof (rule ends_weaken)
      fix n db''
      assume "\<exists>jobs rows. batch_done s g ts due db' jobs rows db'' \<and> n = created + (if stored then 1 else 0) + int (length jobs) \<and>
        (jobs = [] \<or> outstanding + (if stored then 1 else 0) + int (length jobs) \<le> GlobalScheduledLimit)"
      then obtain jobs rows where rest: "batch_done s g ts due db' jobs rows db''"
        and n: "n = created + (if stored then 1 else 0) + int (length jobs)"
          "jobs = [] \<or> outstanding + (if stored then 1 else 0) + int (length jobs) \<le> GlobalScheduledLimit"
        by blast
      obtain new news where all: "batch_done s g ts (m # due) db (new @ jobs) (news @ rows) db''"
        and len: "length new = (if stored then 1 else 0)"
        using batch_done_Cons[OF handled wait Cons.prems(1) rest] by blast
      show "\<exists>jobs rows. batch_done s g ts (m # due) db jobs rows db'' \<and> n = created + int (length jobs) \<and>
          (jobs = [] \<or> outstanding + int (length jobs) \<le> GlobalScheduledLimit)"
        using all n len that by (intro exI[of _ "new @ jobs"] exI[of _ "news @ rows"]) auto
    qed simp
  qed
  have loop: "schedule_loop s g ts (m # due) outstanding created = (\<lambda>h k. schedule_monitor s g ts outstanding m h (\<lambda>stored. ?rest stored h k))"
    by (simp add: fun_eq_iff if_distribR)
  show ?case
    unfolding loop by (rule ends_bind[where q = ?rest, OF schedule_monitor_ends[OF Cons.prems(1) wait(1)]]) (rule step)
qed


subsection \<open>The batch\<close>

definition due_batch :: "time \<Rightarrow> int \<Rightarrow> database \<Rightarrow> dueMonitor list" where
  "due_batch ts batch db =
     map (due_monitor ts) (take (nat batch) (sort_key (\<lambda>(m, p). (mon_next_check_at m, mon_id m)) (due_rows ts db)))"

text \<open>The stored intervals are those of the check constraint, a stored time is a whole number of
  microseconds, and no monitor was left alone for more than 146 years.\<close>

definition monitors_sound :: "time \<Rightarrow> database \<Rightarrow> bool" where
  "monitors_sound ts db \<longleftrightarrow>
     (\<forall>m\<in>set (monitors db). mon_interval_seconds m \<in> set [60, 120, 300, 600, 1800] \<and>
        microsecond dvd mon_next_check_at m \<and> ts - mon_next_check_at m \<le> 2 ^ 62)"

lemma one_pool:
  assumes "distinct (map wp_id pools)"
  shows "length (filter (pool_takes_jobs m) pools) \<le> 1"
proof -
  have "distinct (map wp_id (filter (pool_takes_jobs m) pools))"
    using assms by (rule distinct_map_filter)
  moreover have "map wp_id (filter (pool_takes_jobs m) pools) = replicate (length (filter (pool_takes_jobs m) pools)) (mon_worker_pool_id m)"
    by (induction pools) (auto simp: pool_takes_jobs_def)
  ultimately show ?thesis
    by (metis distinct_replicate_iff)
qed

lemma due_rows_distinct:
  assumes "schedule_inv db"
  shows "distinct (map (mon_id \<circ> fst) (due_rows ts db))"
proof -
  have pool: "length (filter (pool_takes_jobs m) (worker_pools db)) \<le> 1" for m
    using assms one_pool unfolding schedule_inv_def by blast
  have row: "map (mon_id \<circ> fst) (map (Pair m) (filter (pool_takes_jobs m) (worker_pools db))) =
      replicate (length (filter (pool_takes_jobs m) (worker_pools db))) (mon_id m)" for m
    by (simp add: comp_def map_replicate_const)
  have "distinct (map (mon_id \<circ> fst) (concat (map (\<lambda>m. map (Pair m) (filter (pool_takes_jobs m) (worker_pools db))) ms)))"
    if "distinct (map mon_id ms)" for ms
    using that
  proof (induction ms)
    case (Cons m ms)
    have "set (map (mon_id \<circ> fst) (concat (map (\<lambda>m. map (Pair m) (filter (pool_takes_jobs m) (worker_pools db))) ms))) \<subseteq> mon_id ` set ms"
      by auto
    then have "set (replicate n (mon_id m)) \<inter>
        set (map (mon_id \<circ> fst) (concat (map (\<lambda>m. map (Pair m) (filter (pool_takes_jobs m) (worker_pools db))) ms))) = {}" for n
      using Cons.prems by (auto simp: set_replicate_conv_if)
    moreover have "distinct (replicate (length (filter (pool_takes_jobs m) (worker_pools db))) (mon_id m))"
      using pool[of m] unfolding distinct_replicate_iff .
    moreover have "distinct (map (mon_id \<circ> fst) (concat (map (\<lambda>m. map (Pair m) (filter (pool_takes_jobs m) (worker_pools db))) ms)))"
      by (rule Cons.IH) (use Cons.prems in simp)
    ultimately show ?case
      unfolding list.map concat.simps map_append row distinct_append by blast
  qed simp
  then show ?thesis
    using assms unfolding due_rows_def schedule_inv_def by (simp add: distinct_map_filter)
qed

lemma due_batch_distinct:
  assumes "schedule_inv db"
  shows "distinct (map dm_ID (due_batch ts batch db))"
proof -
  let ?key = "\<lambda>(m, p). (mon_next_check_at m, mon_id m)"
  have "distinct (map (mon_id \<circ> fst) (sort_key ?key (due_rows ts db)))"
    using due_rows_distinct[OF assms, of ts] mset_eq_imp_distinct_iff[of "map (mon_id \<circ> fst) (sort_key ?key (due_rows ts db))"
      "map (mon_id \<circ> fst) (due_rows ts db)"] by (simp only: mset_map mset_sort)
  then have "distinct (map (mon_id \<circ> fst) (take (nat batch) (sort_key ?key (due_rows ts db))))"
    unfolding take_map[symmetric] by (rule distinct_take)
  moreover have "dm_ID \<circ> due_monitor ts = mon_id \<circ> fst"
    by (auto simp: due_monitor_def fun_eq_iff)
  ultimately show ?thesis
    by (simp add: due_batch_def)
qed

lemma due_batch_waiting:
  assumes "monitors_sound ts db" "m \<in> set (due_batch ts batch db)"
  shows "waiting_slot ts db m"
proof -
  obtain row pool where m: "m = due_monitor ts (row, pool)" and row: "row \<in> set (monitors db)" "monitor_due ts db row"
    using assms(2) by (auto simp: due_batch_def due_rows_def dest!: in_set_takeD)
  then show ?thesis
    using assms(1) unfolding monitors_sound_def by (auto simp: waiting_slot_def due_monitor_def monitor_due_def)
qed

lemma stored_count:
  assumes "list_all2 (\<lambda>j r. \<exists>m\<in>set due. stored_for s g ts m j r) jobs rows"
  shows "count_where outstanding_job jobs = length jobs"
  using assms stored_job(1) by (induction rule: list_all2_induct) auto

lemma ScheduleDue_run:
  assumes "schedule_inv (durable w)" "monitors_sound ts (durable w)"
  shows "case ScheduleDue s g ts batch w of (r, w') \<Rightarrow>
    outside w' = outside w \<and> schedule_inv (durable w') \<and>
    (case r of
       Inl _ \<Rightarrow> durable w' = durable w \<or>
         faults w \<noteq> [] \<and> (\<exists>jobs rows. batch_done s g ts (due_batch ts batch (durable w)) (durable w) jobs rows (durable w'))
     | Inr n \<Rightarrow> \<exists>jobs rows. batch_done s g ts (due_batch ts batch (durable w)) (durable w) jobs rows (durable w') \<and>
         n = int (length jobs)) \<and>
    int (count_where outstanding_job (check_jobs (durable w'))) \<le>
      max (int (count_where outstanding_job (check_jobs (durable w)))) GlobalScheduledLimit"
proof (cases "batch < 1 \<or> batch > MaxBatch")
  case True
  then show ?thesis
    using assms(1) by (simp add: ScheduleDue_def ret_def)
next
  case False
  let ?due = "due_batch ts batch (durable w)" and ?old = "int (count_where outstanding_job (check_jobs (durable w)))"
  let ?Q = "\<lambda>n db'. \<exists>jobs rows. batch_done s g ts ?due (durable w) jobs rows db' \<and> n = 0 + int (length jobs) \<and>
    (jobs = [] \<or> ?old + int (length jobs) \<le> GlobalScheduledLimit)"
  have loop: "ends_in (schedule_loop s g ts ?due ?old 0) (durable w) (\<lambda>_. True) ?Q"
    using due_batch_waiting[OF assms(2)] due_batch_distinct[OF assms(1)] by (intro schedule_loop_ends[OF assms(1)]) auto
  have body: "ends_in (schedule_fragment s g ts batch) (durable w) (\<lambda>_. True) ?Q"
    unfolding schedule_fragment_def[abs_def] CountActiveScheduledJobs_def GetDatabaseTime_def ListDueScheduledMonitors_def
    by (intro ends_reading) (use loop in \<open>simp add: due_batch_def\<close>)
  have count: "int (count_where outstanding_job (check_jobs db')) \<le> max ?old GlobalScheduledLimit" if "?Q n db'" for n db'
    using that stored_count unfolding batch_done_def by fastforce
  have inv: "schedule_inv db'" if "?Q n db'" for n db'
    using that unfolding batch_done_def by blast
  have "case transaction Inl Inr (schedule_fragment s g ts batch) w of (r, w') \<Rightarrow>
    outside w' = outside w \<and> schedule_inv (durable w') \<and>
    (case r of
       Inl _ \<Rightarrow> durable w' = durable w \<or> faults w \<noteq> [] \<and> (\<exists>jobs rows. batch_done s g ts ?due (durable w) jobs rows (durable w'))
     | Inr n \<Rightarrow> \<exists>jobs rows. batch_done s g ts ?due (durable w) jobs rows (durable w') \<and> n = int (length jobs)) \<and>
    int (count_where outstanding_job (check_jobs (durable w'))) \<le> max ?old GlobalScheduledLimit"
  proof (rule transactionI[OF body], goal_cases)
    case (1 n w')
    with count[OF 1(1)] inv[OF 1(1)] show ?case by auto
  next
    case (2 e w')
    with assms(1) show ?case by auto
  next
    case (3 e w' n)
    with count[OF 3(2)] inv[OF 3(2)] show ?case by auto
  qed
  then show ?thesis
    using False by (simp add: ScheduleDue_def)
qed

text \<open>C23: a run of the scheduler is all or nothing, and leaves the ledger consistent.  Whatever fails
  on the way, either nothing was stored, or the whole batch was: new jobs, each with its message in the
  outbox, in pairs, with every monitor of the batch moved past now and every other monitor untouched.
  In both cases every key of the tables still holds, no monitor has two outstanding scheduled jobs, and
  every job that waits to be published has its message.  A success reports the number of new jobs, the
  scheduler never goes past its limit of outstanding jobs, and without faults an error means that
  nothing was stored.\<close>

theorem ScheduleDue_all_or_nothing:
  assumes "schedule_inv (durable w)" "monitors_sound ts (durable w)"
  shows "case ScheduleDue s g ts batch w of (r, w') \<Rightarrow>
    outside w' = outside w \<and> schedule_inv (durable w') \<and>
    (case r of
       Inl _ \<Rightarrow> durable w' = durable w \<or>
         faults w \<noteq> [] \<and> (\<exists>jobs rows. batch_done s g ts (due_batch ts batch (durable w)) (durable w) jobs rows (durable w'))
     | Inr n \<Rightarrow> \<exists>jobs rows. batch_done s g ts (due_batch ts batch (durable w)) (durable w) jobs rows (durable w') \<and>
         n = int (length jobs)) \<and>
    int (count_where outstanding_job (check_jobs (durable w'))) \<le>
      max (int (count_where outstanding_job (check_jobs (durable w)))) GlobalScheduledLimit"
  using assms by (rule ScheduleDue_run)


subsection \<open>The worker can open what was scheduled\<close>

lemma SealJob_drawn:
  assumes "SealJob c now eph nonce job signer pub = Inr (body, attrs)"
  shows "eph \<noteq> None \<and> nonce \<noteq> None"
  using assms by (auto simp: SealJob_def Let_def split: if_splits option.splits)

lemma stored_opens:
  assumes stored: "stored_for s g ts m j r"
    and laws: "crypto_laws (sg_primitives g)" "codec_laws (sg_primitives g)"
    and draws: "\<And>id e. sg_ephemeral g id = Some e \<Longrightarrow> length e = 32" "\<And>id n. sg_nonce g id = Some n \<Longrightarrow> length n = 12"
    and keys: "ed_generated (sg_primitives g) (sd_signer s)" "length priv = 32" "dm_WorkerPublic m = x_public (sg_primitives g) priv"
    and headers: "monitor_headers s g m = Some headers"
    and wire: "wire_job (job_of s m headers (do_job_id r) (start_of m))"
    and start: "microsecond dvd start_of m"
    and tolerance: "0 \<le> tolerance" "tolerance \<le> 30 * second"
  shows "\<exists>data. base64_decode (si_Body (row_message r)) = Some data \<and>
    OpenJob (sg_primitives g) data (si_Attributes (row_message r)) (Some priv) (ed_public (sg_primitives g) (sd_signer s)) now tolerance =
      Inr (job_of s m headers (do_job_id r) (start_of m))"
proof -
  from stored headers obtain jobID message attrs hash where
    sealed: "SealJob (sg_primitives g) (sg_now g jobID) (sg_ephemeral g jobID) (sg_nonce g jobID)
      (job_of s m headers jobID (start_of m)) (sd_signer s) (Some (dm_WorkerPublic m)) = Inr (message, attrs)"
    and hash: "hex_decode (at_SnapshotHash attrs) = Some hash"
    and r: "r = scheduled_dispatch ts jobID (dm_WorkerPoolID m) (dm_QueueURL m) (base64_encode message) (schema_for m)
              (sd_platformKeyID s) (dm_EncryptionKeyID m) hash (databaseTimestamp (start_of m + JobStartWindow))"
    unfolding stored_for_def by auto
  obtain eph nonce where drawn: "sg_ephemeral g jobID = Some eph" "sg_nonce g jobID = Some nonce"
    using SealJob_drawn[OF sealed] by blast
  note sealed' = sealed[unfolded drawn keys(3)]
  have id: "do_job_id r = jobID"
    by (simp add: r scheduled_dispatch_def)
  have "microsecond dvd start_of m + JobStartWindow"
    using start by (intro dvd_add) (simp_all add: JobStartWindow_def)
  then have expires: "databaseTimestamp (start_of m + JobStartWindow) = start_of m + JobStartWindow"
    by (rule databaseTimestamp_fixed)
  have same: "si_Attributes (row_message r) = attrs"
    using sealed'
  proof (rule SealJob_success)
    fix plain
    assume attrs: "attrs = \<lparr>at_SchemaVersion = jb_SchemaVersion (job_of s m headers jobID (start_of m)),
      at_JobID = jb_JobID (job_of s m headers jobID (start_of m)), at_WorkerPoolID = jb_WorkerPoolID (job_of s m headers jobID (start_of m)),
      at_SnapshotHash = hex_encode (sha256 (sg_primitives g) plain), at_ExpiresAt = jb_ExpiresAt (job_of s m headers jobID (start_of m)),
      at_ResultID = [], at_ResultKeyID = [], at_PlatformKeyID = jb_PlatformKeyID (job_of s m headers jobID (start_of m)),
      at_WorkerEncryptionKeyID = jb_WorkerEncryptionKeyID (job_of s m headers jobID (start_of m))\<rparr>"
    then have "hash = sha256 (sg_primitives g) plain"
      using hash by (simp add: hex_decode_encode)
    then show ?thesis
      by (simp add: attrs row_message_def send_input_def item_of_def r scheduled_dispatch_def job_of_def expires)
  qed
  have body: "si_Body (row_message r) = base64_encode message"
    by (simp add: row_message_def send_input_def item_of_def r scheduled_dispatch_def)
  show ?thesis
    using sealed_opens[OF laws keys(1) draws(1)[OF drawn(1)] keys(2) draws(2)[OF drawn(2)] wire[unfolded id] sealed' tolerance, of now]
    unfolding body same id by (simp add: base64_decode_encode)
qed


text \<open>C24: what the scheduler stores, the worker can run.  The body and the attributes of every message
  that a run of the scheduler put into the outbox are, as the publisher sends them, opened by the worker
  pool's private key and the platform's public key, and the job that comes out is the one of the
  monitor's row: its target, method, limits, expected status, decrypted headers and start window.\<close>

theorem ScheduleDue_messages_open:
  assumes inv: "schedule_inv (durable w)" "monitors_sound ts (durable w)" "microsecond dvd ts"
    and laws: "crypto_laws (sg_primitives g)" "codec_laws (sg_primitives g)"
    and draws: "\<And>id e. sg_ephemeral g id = Some e \<Longrightarrow> length e = 32" "\<And>id n. sg_nonce g id = Some n \<Longrightarrow> length n = 12"
    and signer: "ed_generated (sg_primitives g) (sd_signer s)"
    and pools: "\<forall>m\<in>set (due_batch ts batch (durable w)).
      length (priv (dm_WorkerPoolID m)) = 32 \<and> dm_WorkerPublic m = x_public (sg_primitives g) (priv (dm_WorkerPoolID m))"
    and wire: "\<forall>m\<in>set (due_batch ts batch (durable w)). \<forall>headers.
      monitor_headers s g m = Some headers \<longrightarrow> wire_job (job_of s m headers (do_job_id r) (start_of m))"
    and run: "ScheduleDue s g ts batch w = (Inr n, w')"
    and row: "r \<in> set (check_dispatch_outbox (durable w'))" "r \<notin> set (check_dispatch_outbox (durable w))"
    and tolerance: "0 \<le> tolerance" "tolerance \<le> 30 * second"
  shows "\<exists>m\<in>set (due_batch ts batch (durable w)). \<exists>headers data.
    monitor_headers s g m = Some headers \<and> base64_decode (si_Body (row_message r)) = Some data \<and>
    OpenJob (sg_primitives g) data (si_Attributes (row_message r)) (Some (priv (dm_WorkerPoolID m)))
      (ed_public (sg_primitives g) (sd_signer s)) now tolerance = Inr (job_of s m headers (do_job_id r) (start_of m))"
proof -
  let ?due = "due_batch ts batch (durable w)"
  obtain jobs rows where "batch_done s g ts ?due (durable w) jobs rows (durable w')"
    using ScheduleDue_run[OF inv(1,2), of s g batch] unfolding run by auto
  then have pairs: "list_all2 (\<lambda>j r. \<exists>m\<in>set ?due. stored_for s g ts m j r) jobs rows" and "r \<in> set rows"
    using row by (auto simp: batch_done_def)
  then obtain j m where m: "m \<in> set ?due" "stored_for s g ts m j r"
    using list_all2_source[OF pairs] by blast
  obtain headers where headers: "monitor_headers s g m = Some headers"
    using m(2) by (auto simp: stored_for_def)
  have start: "microsecond dvd start_of m"
    using due_batch_waiting[OF inv(2) m(1)] inv(3) by (auto simp: start_of_def waiting_slot_def)
  have "\<exists>data. base64_decode (si_Body (row_message r)) = Some data \<and>
      OpenJob (sg_primitives g) data (si_Attributes (row_message r)) (Some (priv (dm_WorkerPoolID m)))
        (ed_public (sg_primitives g) (sd_signer s)) now tolerance = Inr (job_of s m headers (do_job_id r) (start_of m))"
    by (rule stored_opens[OF m(2) laws _ _ signer _ _ headers _ start tolerance])
      (use draws pools wire m(1) headers in blast)+
  with m(1) headers show ?thesis by blast
qed

subsection \<open>A concrete run\<close>

abbreviation sample_now :: time where "sample_now \<equiv> 120000000000"
abbreviation sample_end :: time where "sample_end \<equiv> 180000000000"

definition sample_scheduler :: Scheduler where
  "sample_scheduler = \<lparr>sd_signer = replicate 64 CHR ''k'', sd_platformKeyID = ''k'', sd_headers = \<lparr>kr_Current = 1, kr_Keys = fmempty\<rparr>\<rparr>"

definition sample_pool :: worker_pool_row where
  "sample_pool = \<lparr>wp_id = ''p'', wp_mode = ''hosted'', wp_enabled = True, wp_lifecycle_state = ''active'', wp_schema_min = 1,
     wp_schema_max = 2, wp_network_policy_version = 1, wp_encryption_key_id = Some ''e'',
     wp_encryption_public_key = Some (replicate 32 CHR ''x''), wp_result_key_id = None, wp_result_public_key = None,
     wp_job_queue_url = Some ''q'', wp_job_queue_arn = None, wp_job_dlq_url = None, wp_job_dlq_arn = None, wp_manifest_digest = None\<rparr>"

definition sample_monitor :: monitor_row where
  "sample_monitor = \<lparr>mon_id = ''m'', mon_organization_id = ''o'', mon_environment_id = ''e'', mon_target_url = ''https://x'',
     mon_method = ''GET'', mon_interval_seconds = 60, mon_timeout_seconds = 5, mon_expected_status_min = 200,
     mon_expected_status_max = 299, mon_version = 1, mon_paused_at = None, mon_deleted_at = None, mon_next_check_at = minute,
     mon_headers_ciphertext = [], mon_header_key_version = None, mon_worker_pool_id = ''p''\<rparr>"

definition sample_ledger :: database where
  "sample_ledger = (empty_database (\<lambda>n. CHR ''j'' # replicate n CHR ''u''))\<lparr>monitors := [sample_monitor], worker_pools := [sample_pool]\<rparr>"

definition sample_due :: dueMonitor where
  "sample_due = due_monitor sample_now (sample_monitor, sample_pool)"

definition sample_scheduled :: signedJob where
  "sample_scheduled = \<lparr>sj_Job = job_of sample_scheduler sample_due fmempty ''j'' minute, sj_Signature = replicate 64 CHR ''s''\<rparr>"

definition sample_sealing :: sealing where
  "sample_sealing = \<lparr>sg_primitives = sample_primitives\<lparr>
       marshal_signed_job := \<lambda>v. if v = sample_scheduled then Some ''signed'' else None,
       unmarshal_signed_job := \<lambda>_. Some sample_scheduled\<rparr>,
     sg_range_order = sorted_list_of_fmap, sg_now = (\<lambda>_. sample_now), sg_ephemeral = (\<lambda>_. Some (replicate 32 CHR ''e'')),
     sg_nonce = (\<lambda>_. Some (replicate 12 CHR ''n''))\<rparr>"

lemma sample_sealing_laws:
  "crypto_laws (sg_primitives sample_sealing)" "codec_laws (sg_primitives sample_sealing)"
  "ed_generated (sg_primitives sample_sealing) (sd_signer sample_scheduler)"
  using sample_crypto sample_codec
  by (simp_all add: crypto_laws_def codec_laws_def sample_sealing_def sample_primitives_def sample_scheduler_def)

lemma sample_ledger_inv: "schedule_inv sample_ledger" "monitors_sound sample_now sample_ledger"
  by (simp_all add: schedule_inv_def sample_ledger_def empty_database_def dispatch_inv_def monitors_sound_def sample_monitor_def inj_on_def)

lemma sample_due_batch: "due_batch sample_now 10 sample_ledger = [sample_due]"
  by (simp add: due_batch_def due_rows_def sample_ledger_def empty_database_def monitor_due_def sample_monitor_def
      pool_takes_jobs_def sample_pool_def sample_due_def)


lemma sample_scheduled_sealed:
  "seal_scheduled sample_scheduler sample_sealing sample_due fmempty ''j'' minute =
     Inr (''sealed'', \<lparr>at_SchemaVersion = 2, at_JobID = ''j'', at_WorkerPoolID = ''p'', at_SnapshotHash = hex_encode (replicate 32 CHR ''h''),
       at_ExpiresAt = sample_end, at_ResultID = [], at_ResultKeyID = [], at_PlatformKeyID = ''k'', at_WorkerEncryptionKeyID = ''e''\<rparr>)"
proof -
  have job: "validateJob (job_of sample_scheduler sample_due fmempty ''j'' minute) sample_now True"
    by (simp add: validateJob_def job_of_def SupportsSchema_def SchemaVersion_def schema_for_def sample_due_def due_monitor_def
        sample_monitor_def sample_pool_def sample_scheduler_def JobStartWindow_def fcard_fempty coalesce_empty_def)
  have due: "dm_WorkerPublic sample_due = replicate 32 CHR ''x''" "schema_for sample_due = 2" "dm_SchemaMin sample_due = 1"
    "dm_SchemaMax sample_due = 2"
    by (simp_all add: sample_due_def due_monitor_def sample_pool_def schema_for_def SchemaVersion_def coalesce_empty_def)
  have fields: "jb_SchemaVersion (job_of sample_scheduler sample_due fmempty ''j'' minute) = 2"
    "jb_JobID (job_of sample_scheduler sample_due fmempty ''j'' minute) = ''j''"
    "jb_WorkerPoolID (job_of sample_scheduler sample_due fmempty ''j'' minute) = ''p''"
    "jb_ExpiresAt (job_of sample_scheduler sample_due fmempty ''j'' minute) = sample_end"
    "jb_PlatformKeyID (job_of sample_scheduler sample_due fmempty ''j'' minute) = ''k''"
    "jb_WorkerEncryptionKeyID (job_of sample_scheduler sample_due fmempty ''j'' minute) = ''e''"
    by (simp_all add: job_of_def schema_for_def SchemaVersion_def sample_due_def due_monitor_def sample_monitor_def sample_pool_def sample_scheduler_def
        JobStartWindow_def coalesce_empty_def)
  have signer: "length (sd_signer sample_scheduler) = 64"
    by (simp add: sample_scheduler_def)
  show ?thesis
    using job signer
    by (simp add: seal_scheduled_def NewPublicKey_def due SealJob_def sample_sealing_def sample_primitives_def fields
        sample_scheduled_def sample_sealed_def MaxMessageBytes_def)
qed

lemma sample_next: "nextSchedule minute sample_now 60 = Inr sample_end"
  by code_simp

lemma sample_headers_none: "monitor_headers sample_scheduler sample_sealing sample_due = Some fmempty"
  by (simp add: monitor_headers_def Decrypt_def sample_due_def due_monitor_def sample_monitor_def)

lemma sample_base64: "length (base64_encode ''sealed'') = 8"
  by (simp add: length_base64_encode)


definition sample_row :: dispatch_row where
  "sample_row = scheduled_dispatch sample_now ''j'' ''p'' ''q'' (base64_encode ''sealed'') 2 ''k'' ''e'' (replicate 32 CHR ''h'') sample_end"

lemma sample_run:
  "\<exists>w'. ScheduleDue sample_scheduler sample_sealing sample_now 10 (world_with sample_ledger [] ()) = (Inr 1, w') \<and>
     check_dispatch_outbox (durable w') = [sample_row]"
proof -
  have due: "dm_Next sample_due = minute" "dm_Now sample_due = sample_now" "dm_Interval sample_due = 60" "\<not> missed_start sample_due"
    "length (dm_WorkerPublic sample_due) = 32" "dm_EncryptionKeyID sample_due = ''e''" "dm_QueueURL sample_due = ''q''"
    "dm_WorkerPoolID sample_due = ''p''" "schema_for sample_due = 2" "dm_ID sample_due = ''m''" "dm_Version sample_due = 1"
    by (simp_all add: sample_due_def due_monitor_def sample_monitor_def sample_pool_def missed_start_def JobStartWindow_def
        coalesce_empty_def schema_for_def SchemaVersion_def)
  have fixed: "databaseTimestamp sample_end = sample_end" "databaseTimestamp minute = minute"
    by (rule databaseTimestamp_fixed, simp)+
  have keys: "sd_platformKeyID sample_scheduler = ''k''"
    by (simp add: sample_scheduler_def)
  have db: "check_jobs sample_ledger = []" "check_dispatch_outbox sample_ledger = []" "fresh_uuid sample_ledger = ''j''"
    by (simp_all add: sample_ledger_def empty_database_def fresh_uuid_def)
  have rows: "dispatch_columns_ok sample_row" "do_job_id sample_row = ''j''"
    by (simp_all add: dispatch_columns_ok_def sample_row_def scheduled_dispatch_def length_base64_encode)
  have hash: "hex_decode (hex_encode (replicate 32 CHR ''h'')) = Some (replicate 32 CHR ''h'')"
    by (rule hex_decode_encode)
  let ?job = "scheduled_job sample_now ''j'' sample_due minute (replicate 32 CHR ''h'') sample_end"
  have job: "CreateScheduledCheckJob ?job (drawn_uuid sample_ledger) = Inr (1, (drawn_uuid sample_ledger)\<lparr>check_jobs := [?job]\<rparr>)"
    by (simp add: CreateScheduledCheckJob_def scheduled_job_def db due)
  have out: "CreateScheduledDispatchOutbox sample_row ((drawn_uuid sample_ledger)\<lparr>check_jobs := [?job]\<rparr>) =
      Inr ((), (drawn_uuid sample_ledger)\<lparr>check_jobs := [?job], check_dispatch_outbox := [sample_row]\<rparr>)"
    using rows by (simp add: CreateScheduledDispatchOutbox_def db)
  have list: "map (due_monitor sample_now) (take 10 (sort_key (\<lambda>(m, p). (mon_next_check_at m, mon_id m)) (due_rows sample_now sample_ledger))) = [sample_due]"
    using sample_due_batch by (simp add: due_batch_def)
  let ?w = "world_with sample_ledger [] ()"
  have w: "calm (?w\<lparr>work := d, broken := False\<rparr>)" "calm (?w\<lparr>broken := False\<rparr>)" for d
    by (simp_all add: calm_def world_with_def)
  have draw: "query NewScheduledJobID h k v = k ''j'' (v\<lparr>work := drawn_uuid sample_ledger\<rparr>)"
    if "calm v" "work v = sample_ledger" for h k and v :: "(database, unit) world"
    using calm_query[where s = NewScheduledJobID, OF that(1), of "''j''" "drawn_uuid sample_ledger" h k]
    by (simp add: NewScheduledJobID_def that(2) db)
  have move: "move_monitor sample_due sample_end True h k v = k True (v\<lparr>work := (work v)\<lparr>monitors := moved_on sample_due sample_end (monitors (work v))\<rparr>\<rparr>)"
    if "calm v" for h k and v :: "(database, unit) world"
    unfolding move_monitor_def UpdateMonitorNextCheck_def due fixed calm_writing[OF that] by (simp add: moved_on_def due)
  have row: "scheduled_dispatch sample_now ''j'' ''p'' ''q'' (base64_encode ''sealed'') 2 ''k'' ''e'' (replicate 32 CHR ''h'') sample_end = sample_row"
    by (simp add: sample_row_def)
  have window: "minute + JobStartWindow = sample_end"
    by (simp add: JobStartWindow_def)
  have store: "store_job sample_scheduler sample_now sample_due sample_end ''j'' minute
      (''sealed'', \<lparr>at_SchemaVersion = 2, at_JobID = ''j'', at_WorkerPoolID = ''p'', at_SnapshotHash = hex_encode (replicate 32 CHR ''h''),
       at_ExpiresAt = sample_end, at_ResultID = [], at_ResultKeyID = [], at_PlatformKeyID = ''k'', at_WorkerEncryptionKeyID = ''e''\<rparr>)
      h k v = move_monitor sample_due sample_end True h k (v\<lparr>work := (drawn_uuid sample_ledger)\<lparr>check_jobs := [?job], check_dispatch_outbox := [sample_row]\<rparr>\<rparr>)"
    if "calm v" "work v = drawn_uuid sample_ledger" for h k and v :: "(database, unit) world"
  proof -
    let ?d = "(drawn_uuid sample_ledger)\<lparr>check_jobs := [?job]\<rparr>"
    have "CreateScheduledCheckJob ?job (work v) = Inr (1, ?d)"
      using job that(2) by simp
    note first = calm_query[where s = "CreateScheduledCheckJob ?job", OF that(1) this]
    have "calm (v\<lparr>work := ?d\<rparr>)" "CreateScheduledDispatchOutbox sample_row (work (v\<lparr>work := ?d\<rparr>)) = Inr ((), ?d\<lparr>check_dispatch_outbox := [sample_row]\<rparr>)"
      using out that(1) by simp_all
    note second = calm_query[where s = "CreateScheduledDispatchOutbox sample_row", OF this]
    show ?thesis
      unfolding store_job_def Let_def prod.case Attributes.simps hash option.case window fixed keys due row first if_P[OF refl] second
      by simp
  qed
  have start: "ScheduleDue sample_scheduler sample_sealing sample_now 10 ?w =
      transaction Inl Inr (schedule_fragment sample_scheduler sample_sealing sample_now 10) ?w"
    by (simp add: ScheduleDue_def MaxBatch_def)
  show ?thesis
    unfolding start transaction_def schedule_fragment_def CountActiveScheduledJobs_def GetDatabaseTime_def ListDueScheduledMonitors_def
    by (simp add: calm_begin calm_reading w list db schedule_monitor_def due sample_next GlobalScheduledLimit_def sample_headers_none
        draw create_job_def sample_scheduled_sealed store move calm_commit ret_def)

qed


theorem ScheduleDue_all_or_nothing_witness:
  "schedule_inv sample_ledger \<and> monitors_sound sample_now sample_ledger \<and>
   (\<exists>w' jobs rows. ScheduleDue sample_scheduler sample_sealing sample_now 10 (world_with sample_ledger [] ()) = (Inr 1, w') \<and>
      schedule_inv (durable w') \<and> length jobs = 1 \<and>
      batch_done sample_scheduler sample_sealing sample_now (due_batch sample_now 10 sample_ledger) sample_ledger jobs rows (durable w'))"
proof -
  let ?w = "world_with sample_ledger [] ()"
  obtain w' where run: "ScheduleDue sample_scheduler sample_sealing sample_now 10 ?w = (Inr 1, w')"
    using sample_run by blast
  have inv: "schedule_inv (durable ?w)" "monitors_sound sample_now (durable ?w)"
    using sample_ledger_inv by simp_all
  from ScheduleDue_all_or_nothing[OF inv, of sample_scheduler sample_sealing 10] obtain jobs rows where
    "schedule_inv (durable w')" "int (length jobs) = 1"
    "batch_done sample_scheduler sample_sealing sample_now (due_batch sample_now 10 sample_ledger) sample_ledger jobs rows (durable w')"
    unfolding run by auto
  with run sample_ledger_inv show ?thesis by (metis of_nat_eq_1_iff)
qed

lemma sample_job_of_wire: "wire_job (job_of sample_scheduler sample_due fmempty ''j'' minute)"
  by (simp add: wire_job_def wire_int_def wire_time_def wire_text_def job_of_def sample_due_def due_monitor_def sample_monitor_def
      sample_pool_def sample_scheduler_def schema_for_def SchemaVersion_def JobStartWindow_def coalesce_empty_def
      Let_def rune_width_def byte_def eval_nat_numeral RuneError_def)

theorem ScheduleDue_messages_open_witness:
  "\<exists>w' data. ScheduleDue sample_scheduler sample_sealing sample_now 10 (world_with sample_ledger [] ()) = (Inr 1, w') \<and>
     sample_row \<in> set (check_dispatch_outbox (durable w')) \<and>
     base64_decode (si_Body (row_message sample_row)) = Some data \<and>
     OpenJob (sg_primitives sample_sealing) data (si_Attributes (row_message sample_row)) (Some (replicate 32 CHR ''w''))
       (ed_public (sg_primitives sample_sealing) (sd_signer sample_scheduler)) sample_end second =
       Inr (job_of sample_scheduler sample_due fmempty ''j'' minute)"
proof -
  let ?w = "world_with sample_ledger [] ()"
  obtain w' where run: "ScheduleDue sample_scheduler sample_sealing sample_now 10 ?w = (Inr 1, w')"
    and out: "check_dispatch_outbox (durable w') = [sample_row]"
    using sample_run by blast
  have due: "due_batch sample_now 10 (durable ?w) = [sample_due]" "start_of sample_due = minute" "do_job_id sample_row = ''j''"
    "dm_WorkerPublic sample_due = replicate 32 CHR ''x''"
    by (simp_all add: sample_due_batch start_of_def missed_start_def JobStartWindow_def sample_due_def due_monitor_def sample_monitor_def
        sample_pool_def coalesce_empty_def sample_row_def scheduled_dispatch_def)
  have new: "sample_row \<notin> set (check_dispatch_outbox (durable ?w))"
    by (simp add: sample_ledger_def empty_database_def)
  have "\<exists>m\<in>set (due_batch sample_now 10 (durable ?w)). \<exists>headers data.
      monitor_headers sample_scheduler sample_sealing m = Some headers \<and> base64_decode (si_Body (row_message sample_row)) = Some data \<and>
      OpenJob (sg_primitives sample_sealing) data (si_Attributes (row_message sample_row)) (Some ((\<lambda>_. replicate 32 CHR ''w'') (dm_WorkerPoolID m)))
        (ed_public (sg_primitives sample_sealing) (sd_signer sample_scheduler)) sample_end second =
        Inr (job_of sample_scheduler m headers (do_job_id sample_row) (start_of m))"
  proof (rule ScheduleDue_messages_open[OF _ _ _ sample_sealing_laws(1,2) _ _ sample_sealing_laws(3) _ _ run _ new])
    show "schedule_inv (durable ?w)" "monitors_sound sample_now (durable ?w)"
      using sample_ledger_inv by simp_all
    show "length e = 32" if "sg_ephemeral sample_sealing id = Some e" for id e
      using that by (auto simp: sample_sealing_def)
    show "length n = 12" if "sg_nonce sample_sealing id = Some n" for id n
      using that by (auto simp: sample_sealing_def)
    show "\<forall>m\<in>set (due_batch sample_now 10 (durable ?w)). length (replicate 32 CHR ''w'') = 32 \<and>
        dm_WorkerPublic m = x_public (sg_primitives sample_sealing) (replicate 32 CHR ''w'')"
      unfolding due(1) by (simp add: due(4)) (simp add: sample_sealing_def sample_primitives_def)
    show "\<forall>m\<in>set (due_batch sample_now 10 (durable ?w)). \<forall>headers. monitor_headers sample_scheduler sample_sealing m = Some headers \<longrightarrow>
        wire_job (job_of sample_scheduler m headers (do_job_id sample_row) (start_of m))"
      unfolding due(1) by (simp add: due sample_headers_none sample_job_of_wire)
  qed (simp_all add: out)
  then show ?thesis
    using run out unfolding due by (auto simp: due sample_headers_none)
qed


subsection \<open>One monitor that cannot be scheduled\<close>

definition unschedulable :: "Scheduler \<Rightarrow> sealing \<Rightarrow> dueMonitor \<Rightarrow> bool" where
  "unschedulable s g m \<longleftrightarrow>
     length (dm_WorkerPublic m) \<noteq> 32 \<or> dm_EncryptionKeyID m = '''' \<or> dm_QueueURL m = '''' \<or> monitor_headers s g m = None"

lemma unschedulable_ends:
  assumes "unschedulable s g m" "outstanding < GlobalScheduledLimit"
  shows "ends_in (schedule_loop s g ts (m # due) outstanding created) db (\<lambda>_. True) (\<lambda>_ _. False)"
proof (cases "nextSchedule (dm_Next m) (dm_Now m) (dm_Interval m)")
  case (Inl e)
  show ?thesis
    unfolding schedule_loop.simps(2)[abs_def] schedule_monitor_def Inl sum.case by (simp add: ends_fail)
next
  case (Inr nxt)
  have limit: "\<not> outstanding \<ge> GlobalScheduledLimit"
    using assms(2) by simp
  note unfolded = schedule_loop.simps(2)[abs_def] schedule_monitor_def Inr sum.case if_not_P[OF limit]
  show ?thesis
  proof (cases "length (dm_WorkerPublic m) \<noteq> 32 \<or> dm_EncryptionKeyID m = '''' \<or> dm_QueueURL m = ''''")
    case True
    show ?thesis unfolding unfolded if_P[OF True] by (simp add: ends_fail)
  next
    case False
    then have "monitor_headers s g m = None"
      using assms(1) by (auto simp: unschedulable_def)
    then show ?thesis unfolding unfolded if_not_P[OF False] by (simp add: ends_fail)
  qed
qed

text \<open>C25: one monitor that cannot be scheduled stops the scheduler.  When the monitor that has been due
  for longest belongs to a pool without a key or a queue, or its headers cannot be decrypted, every run
  fails and stores nothing, for the other monitors of the batch as well; since nothing was stored, that
  monitor is again the first one of the next run.\<close>

theorem ScheduleDue_blocked:
  assumes first: "due_batch ts batch (durable w) = m # due" and bad: "unschedulable s g m"
    and room: "int (count_where outstanding_job (check_jobs (durable w))) < GlobalScheduledLimit"
  shows "\<exists>e w'. ScheduleDue s g ts batch w = (Inl e, w') \<and> durable w' = durable w"
proof (cases "batch < 1 \<or> batch > MaxBatch")
  case True
  then show ?thesis by (simp add: ScheduleDue_def ret_def)
next
  case False
  have body: "ends_in (schedule_fragment s g ts batch) (durable w) (\<lambda>_. True) (\<lambda>_ _. False)"
    unfolding schedule_fragment_def[abs_def] CountActiveScheduledJobs_def GetDatabaseTime_def ListDueScheduledMonitors_def
    by (intro ends_reading) (unfold first[unfolded due_batch_def], rule unschedulable_ends[OF bad room])
  have "case transaction Inl Inr (schedule_fragment s g ts batch) w of (r, w') \<Rightarrow> (\<exists>e. r = Inl e) \<and> durable w' = durable w"
    by (rule transactionI[OF body]) auto
  then show ?thesis
    using False by (auto simp: ScheduleDue_def split: prod.splits)
qed

definition sample_blocked :: database where
  "sample_blocked = sample_ledger\<lparr>
     monitors := [sample_monitor\<lparr>mon_id := ''a'', mon_next_check_at := 0, mon_worker_pool_id := ''n''\<rparr>, sample_monitor],
     worker_pools := [sample_pool, sample_pool\<lparr>wp_id := ''n'', wp_job_queue_url := None\<rparr>]\<rparr>"

theorem ScheduleDue_blocked_witness:
  "length (due_batch sample_now 10 sample_blocked) = 2 \<and>
   (\<exists>e w'. ScheduleDue sample_scheduler sample_sealing sample_now 10 (world_with sample_blocked [] ()) = (Inl e, w') \<and>
      durable w' = sample_blocked)"
proof -
  let ?m = "due_monitor sample_now (sample_monitor\<lparr>mon_id := ''a'', mon_next_check_at := 0, mon_worker_pool_id := ''n''\<rparr>,
    sample_pool\<lparr>wp_id := ''n'', wp_job_queue_url := None\<rparr>)"
  have due: "due_batch sample_now 10 sample_blocked = [?m, sample_due]"
    by (simp add: due_batch_def due_rows_def sample_blocked_def sample_ledger_def empty_database_def monitor_due_def sample_monitor_def
        pool_takes_jobs_def sample_pool_def sample_due_def)
  have bad: "unschedulable sample_scheduler sample_sealing ?m"
    by (simp add: unschedulable_def due_monitor_def coalesce_empty_def)
  have room: "int (count_where outstanding_job (check_jobs (durable (world_with sample_blocked [] ())))) < GlobalScheduledLimit"
    by (simp add: sample_blocked_def sample_ledger_def empty_database_def GlobalScheduledLimit_def)
  show ?thesis
    using ScheduleDue_blocked[of sample_now 10 "world_with sample_blocked [] ()" ?m "[sample_due]", OF _ bad room] due by simp
qed

end
