(* ===== verification/Consumer.thy ===== *)
theory Consumer
  imports Incident ReliabilityOrder Scheduler
begin

text \<open>
  The consumer of worker results in \<open>internal/fifo/consumer.go\<close>, with its statements in
  \<open>sqlc/fifo.sql.go\<close> and its loop in \<open>cmd/monitor-engine/main.go\<close>.  A delivery of the result queue is
  verified against its job and, in one transaction, accepted (stored, evaluated, applied to the
  incidents), recorded as a conflict with the accepted result of its job, or recognised as a repeated
  delivery; only then is it acknowledged.  The queue is a pair of functions on the state of the remote
  services.

  Identifiers are compared as texts, in the form in which the database prints them: that the cast to
  \<open>uuid\<close> refuses a malformed text and identifies different spellings of one identifier is not modelled.
\<close>

subsection \<open>Deliveries\<close>

record ResultDelivery =
  rd_Body :: string
  rd_Attributes :: Attributes
  rd_Receipt :: string
  rd_ReceiveCount :: int

definition ErrNoMessage :: go_error where
  "ErrNoMessage = Err ''no queue message available''"

record ResultConsumer =
  cn_sealer :: "string option"

definition NewResultConsumer :: "bool \<Rightarrow> bool \<Rightarrow> string option \<Rightarrow> go_error + ResultConsumer" where
  "NewResultConsumer has_db has_source sealer =
     (if \<not> has_db \<or> \<not> has_source \<or> sealer = None
      then Inl (Err ''fifo: result database, source, and quarantine sealer are required'')
      else Inr \<lparr>cn_sealer = sealer\<rparr>)"

text \<open>What one call reads from outside: the time of its transaction, its two readings of the clock and
  the nonce that the sealer draws.\<close>

record consume_inputs =
  ci_ts :: time
  ci_now :: time
  ci_evaluatedAt :: time
  ci_nonce :: "string option"

subsection \<open>Statements\<close>

definition DatabasePing :: "int sql" where
  "DatabasePing = reading (\<lambda>_. 1)"

record locked_job =
  lj_WorkerPoolID :: string
  lj_SnapshotHash :: bytes
  lj_ResultPublicKey :: bytes
  lj_State :: string
  lj_JobType :: string
  lj_OrganizationID :: uuid
  lj_EnvironmentID :: uuid
  lj_MonitorID :: uuid
  lj_ScheduledAt :: time
  lj_ExpiresAt :: time

definition credential_key :: "string \<Rightarrow> string \<Rightarrow> database \<Rightarrow> bytes option" where
  "credential_key keyID pool db =
     Option.bind (last_by cr_activates_at (\<lambda>c. cr_worker_pool_id c = pool \<and> cr_purpose c = ''result_signing'' \<and>
         cr_key_id c = keyID \<and> cr_status c \<in> set [''active'', ''retired'']) (worker_pool_credentials db))
       cr_public_material"

definition result_public_key :: "string \<Rightarrow> worker_pool_row \<Rightarrow> database \<Rightarrow> bytes" where
  "result_public_key keyID pool db =
     (case credential_key keyID (wp_id pool) db of
        Some key \<Rightarrow> key
      | None \<Rightarrow> if wp_result_key_id pool = Some keyID then coalesce_empty (wp_result_public_key pool) else '''')"

definition locked_of :: "string \<Rightarrow> check_job_row \<Rightarrow> worker_pool_row \<Rightarrow> database \<Rightarrow> locked_job" where
  "locked_of keyID j pool db =
     \<lparr>lj_WorkerPoolID = cj_worker_pool_id j, lj_SnapshotHash = cj_snapshot_hash j,
      lj_ResultPublicKey = result_public_key keyID pool db, lj_State = cj_state j, lj_JobType = cj_job_type j,
      lj_OrganizationID = cj_organization_id j, lj_EnvironmentID = cj_environment_id j, lj_MonitorID = cj_monitor_id j,
      lj_ScheduledAt = cj_scheduled_at j, lj_ExpiresAt = cj_expires_at j\<rparr>"

definition LockResultCheckJob :: "string \<Rightarrow> uuid \<Rightarrow> locked_job option sql" where
  "LockResultCheckJob keyID jobID = reading (\<lambda>db.
     case select_one (\<lambda>j. cj_id j = jobID) (check_jobs db) of
       None \<Rightarrow> None
     | Some j \<Rightarrow> map_option (\<lambda>p. locked_of keyID j p db) (select_one (\<lambda>p. wp_id p = cj_worker_pool_id j) (worker_pools db)))"

text \<open>The accepted result of a job.  A row without a result identifier cannot be scanned into a string.\<close>

definition GetAcceptedHealthCheck :: "uuid \<Rightarrow> (bytes \<times> uuid \<times> uuid) option sql" where
  "GetAcceptedHealthCheck jobID db =
     (case select_one (\<lambda>c. hc_job_id c = jobID) (health_checks db) of
        None \<Rightarrow> Inr (None, db)
      | Some c \<Rightarrow>
          (case hc_result_id c of
             None \<Rightarrow> Inl ''cannot scan NULL''
           | Some r \<Rightarrow> Inr (Some (hc_snapshot_hash c, hc_execution_attempt_id c, r), db)))"

definition error_categories :: "string list" where
  "error_categories = [''invalid_target'', ''unsafe_target'', ''dns'', ''connection'', ''tls'', ''timeout'', ''http_protocol'',
     ''response_body'', ''response_too_large'', ''redirect_limit'', ''unexpected_status'']"

text \<open>The check constraints of the columns of \<open>health_checks\<close>; the durations of the phases of a request are
  checked and not kept.\<close>

definition check_columns_ok :: "health_check_row \<Rightarrow> int option list \<Rightarrow> bool" where
  "check_columns_ok c phases \<longleftrightarrow>
     hc_job_type c \<in> set [''scheduled'', ''manual_test''] \<and>
     (case hc_status_code c of None \<Rightarrow> True | Some s \<Rightarrow> 100 \<le> s \<and> s \<le> 599) \<and>
     (case hc_error_category c of None \<Rightarrow> True | Some e \<Rightarrow> e \<in> set error_categories) \<and>
     0 \<le> hc_total_duration_microseconds c \<and>
     hc_started_at c \<le> hc_completed_at c \<and>
     (if hc_succeeded c then hc_status_code c \<noteq> None \<and> hc_error_category c = None else hc_error_category c \<noteq> None) \<and>
     length (hc_snapshot_hash c) = 32 \<and>
     length (hc_worker_id c) \<le> 128 \<and>
     list_all (\<lambda>p. case p of None \<Rightarrow> True | Some d \<Rightarrow> 0 \<le> d) phases"

definition check_references_ok :: "health_check_row \<Rightarrow> database \<Rightarrow> bool" where
  "check_references_ok c db \<longleftrightarrow>
     exists_where (\<lambda>m. mon_id m = hc_monitor_id c \<and> mon_organization_id m = hc_organization_id c \<and>
       mon_environment_id m = hc_environment_id c) (monitors db) \<and>
     exists_where (\<lambda>j. cj_id j = hc_job_id c \<and> cj_monitor_id j = hc_monitor_id c \<and>
       cj_organization_id j = hc_organization_id c \<and> cj_environment_id j = hc_environment_id c) (check_jobs db) \<and>
     exists_where (\<lambda>p. wp_id p = hc_worker_pool_id c) (worker_pools db)"

definition InsertAcceptedHealthCheck :: "health_check_row \<Rightarrow> int option list \<Rightarrow> unit sql" where
  "InsertAcceptedHealthCheck c phases db =
     (if \<not> check_columns_ok c phases then Inl ''health_checks_check''
      else if exists_where (\<lambda>r. hc_job_id r = hc_job_id c) (health_checks db) then Inl ''health_checks_pkey''
      else if exists_where (\<lambda>r. hc_result_id r \<noteq> None \<and> hc_result_id r = hc_result_id c) (health_checks db)
        then Inl ''health_checks_result_id_unique_idx''
      else if \<not> check_references_ok c db then Inl ''health_checks_tenant_job_fkey''
      else Inr ((), db\<lparr>health_checks := health_checks db @ [c]\<rparr>))"

definition complete_job :: "time \<Rightarrow> time \<Rightarrow> string \<Rightarrow> uuid \<Rightarrow> check_job_row \<Rightarrow> check_job_row" where
  "complete_job startedAt completedAt worker attemptID j =
     j\<lparr>cj_state := ''completed'', cj_started_at := Some startedAt, cj_completed_at := Some completedAt,
       cj_worker_id := Some worker, cj_execution_attempt_id := Some attemptID, cj_last_safe_error := None\<rparr>"

definition CompleteCheckJob :: "time \<Rightarrow> time \<Rightarrow> string \<Rightarrow> uuid \<Rightarrow> uuid \<Rightarrow> unit sql" where
  "CompleteCheckJob startedAt completedAt worker attemptID jobID db =
     (if length worker > 128 \<and> exists_where (\<lambda>j. cj_id j = jobID) (check_jobs db) then Inl ''check_jobs_worker_id_check''
      else Inr ((), db\<lparr>check_jobs :=
        update_where (\<lambda>j. cj_id j = jobID) (complete_job startedAt completedAt worker attemptID) (check_jobs db)\<rparr>))"

definition recovered_gap :: "uuid \<Rightarrow> time \<Rightarrow> coverage_gap_row \<Rightarrow> bool" where
  "recovered_gap monitor scheduledAt g \<longleftrightarrow>
     cg_monitor_id g = monitor \<and> cg_scheduled_at g = scheduledAt \<and> cg_reason g \<in> set [''expired'', ''dead'']"

definition DeleteRecoveredCoverageGaps :: "uuid \<Rightarrow> time \<Rightarrow> unit sql" where
  "DeleteRecoveredCoverageGaps monitor scheduledAt = writing (\<lambda>db. db\<lparr>monitoring_coverage_gaps :=
     filter (\<lambda>g. \<not> recovered_gap monitor scheduledAt g) (monitoring_coverage_gaps db)\<rparr>)"

definition same_bucket :: "uuid \<Rightarrow> string \<Rightarrow> time \<Rightarrow> invalidation_row \<Rightarrow> bool" where
  "same_bucket monitor kind start r \<longleftrightarrow> ri_monitor_id r = monitor \<and> ri_bucket_kind r = kind \<and> ri_bucket_start r = start"

definition upsert_invalidation :: "uuid \<Rightarrow> string \<Rightarrow> time \<Rightarrow> string \<Rightarrow> unit sql" where
  "upsert_invalidation monitor kind start reason db =
     (if reason \<notin> set [''accepted_result'', ''late_result''] then Inl ''monitor_rollup_invalidations_reason_check''
      else if \<not> exists_where (\<lambda>m. mon_id m = monitor) (monitors db) then Inl ''monitor_rollup_invalidations_monitor_id_fkey''
      else Inr ((), db\<lparr>monitor_rollup_invalidations :=
        (if exists_where (same_bucket monitor kind start) (monitor_rollup_invalidations db)
         then update_where (same_bucket monitor kind start) (\<lambda>r. r\<lparr>ri_reason := reason\<rparr>) (monitor_rollup_invalidations db)
         else monitor_rollup_invalidations db @
           [\<lparr>ri_monitor_id = monitor, ri_bucket_kind = kind, ri_bucket_start = start, ri_reason = reason\<rparr>])\<rparr>))"

definition UpsertHourlyRollupInvalidation :: "uuid \<Rightarrow> time \<Rightarrow> string \<Rightarrow> unit sql" where
  "UpsertHourlyRollupInvalidation monitor scheduledAt reason =
     upsert_invalidation monitor ''hourly'' (truncate_time scheduledAt hour) reason"

definition UpsertDailyRollupInvalidation :: "uuid \<Rightarrow> time \<Rightarrow> string \<Rightarrow> unit sql" where
  "UpsertDailyRollupInvalidation monitor scheduledAt reason =
     upsert_invalidation monitor ''daily'' (truncate_time scheduledAt day) reason"

definition InsertAcceptedCheckRefreshEvent :: "uuid \<Rightarrow> uuid \<Rightarrow> uuid \<Rightarrow> unit sql" where
  "InsertAcceptedCheckRefreshEvent org environment jobID = writing (\<lambda>db. db\<lparr>api_refresh_events := api_refresh_events db @
     [\<lparr>re_organization_id = org, re_environment_id = environment, re_event_type = ''check.accepted'',
       re_resource_type = ''check'', re_resource_id = jobID\<rparr>]\<rparr>)"

definition InsertResultConflict :: "conflict_row \<Rightarrow> unit sql" where
  "InsertResultConflict r db =
     (if exists_where (\<lambda>x. rc_result_id x = rc_result_id r) (check_result_conflicts db) then Inr ((), db)
      else if length (rc_snapshot_hash r) \<noteq> 32 \<or> length (rc_encrypted_payload r) > 65536 + 64
        then Inl ''check_result_conflicts_check''
      else if \<not> exists_where (\<lambda>j. cj_id j = rc_job_id r) (check_jobs db) then Inl ''check_result_conflicts_job_id_fkey''
      else Inr ((), db\<lparr>check_result_conflicts := check_result_conflicts db @ [r]\<rparr>))"

definition quarantine_columns_ok :: "quarantine_row \<Rightarrow> bool" where
  "quarantine_columns_ok q \<longleftrightarrow>
     qu_queue_kind q \<in> set [''job'', ''result''] \<and>
     (case qu_snapshot_hash q of None \<Rightarrow> True | Some h \<Rightarrow> length h = 32) \<and>
     1 \<le> length (qu_safe_reason q) \<and> length (qu_safe_reason q) \<le> 120 \<and>
     1 \<le> length (qu_encrypted_payload q) \<and> length (qu_encrypted_payload q) \<le> 65600"

definition quarantined_result :: "uuid \<Rightarrow> quarantine_row \<Rightarrow> bool" where
  "quarantined_result resultID q \<longleftrightarrow> qu_result_id q = Some resultID"

text \<open>The row of a quarantined result with the schema's defaults.\<close>

definition quarantine_row_of ::
  "uuid \<Rightarrow> uuid option \<Rightarrow> uuid option \<Rightarrow> string option \<Rightarrow> bytes option \<Rightarrow> string \<Rightarrow> bytes \<Rightarrow> quarantine_row" where
  "quarantine_row_of i job result pool hash reason payload =
     \<lparr>qu_id = i, qu_queue_kind = ''result'', qu_job_id = job, qu_result_id = result, qu_worker_pool_id = pool,
      qu_snapshot_hash = hash, qu_safe_reason = reason, qu_encrypted_payload = payload, qu_redrive_count = 0,
      qu_status = ''quarantined''\<rparr>"

definition InsertConflictingResultQuarantine :: "uuid \<Rightarrow> uuid \<Rightarrow> string \<Rightarrow> bytes \<Rightarrow> bytes \<Rightarrow> unit sql" where
  "InsertConflictingResultQuarantine job result pool hash payload db =
     (let q = quarantine_row_of (fresh_uuid db) (Some job) (Some result) (Some pool) (Some hash)
                ''conflicting valid result'' payload in
      if \<not> quarantine_columns_ok q then Inl ''monitoring_quarantine_check''
      else if exists_where (quarantined_result result) (monitoring_quarantine db)
        then Inl ''monitoring_quarantine_result_id_idx''
      else Inr ((), (drawn_uuid db)\<lparr>monitoring_quarantine := monitoring_quarantine db @ [q]\<rparr>))"

subsection \<open>Consuming a result\<close>

definition databaseReady :: "('x, go_error + bool) handler" where
  "databaseReady =
     begin_tx (\<lambda>e. ret (Inl (Db e))) (query DatabasePing (\<lambda>e. ret (Inl (Db e))) (\<lambda>one. ret (Inr (one = 1))))"

definition delivery_matches :: "Result \<Rightarrow> Attributes \<Rightarrow> bool" where
  "delivery_matches peeked a \<longleftrightarrow>
     rt_JobID peeked = at_JobID a \<and> rt_ResultID peeked = at_ResultID a \<and> rt_WorkerPoolID peeked = at_WorkerPoolID a \<and>
     rt_SnapshotHash peeked = at_SnapshotHash a \<and> rt_ResultKeyID peeked = at_ResultKeyID a \<and>
     rt_SchemaVersion peeked = at_SchemaVersion a"

definition peeked_delivery :: "primitives \<Rightarrow> ResultDelivery \<Rightarrow> Result option" where
  "peeked_delivery c delivery =
     (case PeekResult c (rd_Body delivery) of
        Inl _ \<Rightarrow> None
      | Inr peeked \<Rightarrow> if delivery_matches peeked (rd_Attributes delivery) then Some peeked else None)"

definition verified_result :: "primitives \<Rightarrow> string \<Rightarrow> locked_job \<Rightarrow> time \<Rightarrow> Result option" where
  "verified_result c body job now =
     (case VerifyResult c body (lj_ResultPublicKey job) of
        Inl _ \<Rightarrow> None
      | Inr result \<Rightarrow>
          if rt_WorkerPoolID result \<noteq> lj_WorkerPoolID job \<or> rt_SnapshotHash result \<noteq> hex_encode (lj_SnapshotHash job) \<or>
             rt_ScheduledAt result \<noteq> lj_ScheduledAt job \<or> rt_StartedAt result < lj_ScheduledAt job - 5 * second \<or>
             rt_StartedAt result > lj_ExpiresAt job + 5 * second \<or> rt_CompletedAt result > now + 5 * second
          then None else Some result)"

definition same_accepted :: "Result \<Rightarrow> bytes \<times> uuid \<times> uuid \<Rightarrow> bool" where
  "same_accepted result existing =
     (case existing of (hash, attempt, resultID) \<Rightarrow>
        hex_encode hash = rt_SnapshotHash result \<and> attempt = rt_AttemptID result \<and> resultID = rt_ResultID result)"

definition ErrEnvelope :: go_error where
  "ErrEnvelope = envelope_text ErrInvalid"

definition conflict_aad :: "Result \<Rightarrow> string" where
  "conflict_aad result = ''result:'' @ rt_ResultID result"

definition quarantine_text :: "quarantine_error \<Rightarrow> go_error" where
  "quarantine_text e = (case e of
     Quarantine_Invalid \<Rightarrow> Err ''invalid quarantine payload'' | Quarantine_Random \<Rightarrow> Err ''random source''
   | Quarantine_Failed \<Rightarrow> Err ''quarantine decryption failed'')"

definition record_conflict ::
  "primitives \<Rightarrow> ResultConsumer \<Rightarrow> consume_inputs \<Rightarrow> string \<Rightarrow> locked_job \<Rightarrow> Result
   \<Rightarrow> (go_error \<Rightarrow> ('x, 'r) handler) \<Rightarrow> (unit \<Rightarrow> ('x, 'r) handler) \<Rightarrow> ('x, 'r) handler" where
  "record_conflict c cn i body job result h k =
     (case Seal c (ci_nonce i) (cn_sealer cn) body (conflict_aad result) of
        Inl e \<Rightarrow> h (quarantine_text e)
      | Inr encrypted \<Rightarrow>
          ignoring (InsertResultConflict
            \<lparr>rc_job_id = rt_JobID result, rc_result_id = rt_ResultID result, rc_worker_pool_id = lj_WorkerPoolID job,
             rc_snapshot_hash = lj_SnapshotHash job, rc_safe_reason = ''conflicting valid result'',
             rc_encrypted_payload = encrypted\<rparr>)
          (ignoring (InsertConflictingResultQuarantine (rt_JobID result) (rt_ResultID result) (lj_WorkerPoolID job)
             (lj_SnapshotHash job) encrypted)
          (ignoring (InsertMonitoringOperationalEvent ''result_conflict'' (rt_JobID result) (lj_WorkerPoolID job)
             ''conflicting valid result'')
          (k ()))))"

definition accepted_check :: "locked_job \<Rightarrow> Result \<Rightarrow> health_check_row" where
  "accepted_check job result =
     \<lparr>hc_job_id = rt_JobID result, hc_result_id = Some (rt_ResultID result), hc_organization_id = lj_OrganizationID job,
      hc_environment_id = lj_EnvironmentID job, hc_monitor_id = lj_MonitorID job, hc_job_type = lj_JobType job,
      hc_scheduled_at = databaseTimestamp (lj_ScheduledAt job), hc_started_at = databaseTimestamp (rt_StartedAt result),
      hc_completed_at = databaseTimestamp (rt_CompletedAt result), hc_succeeded = rt_Succeeded result,
      hc_status_code = rt_StatusCode result, hc_error_category = rt_ErrorCategory result,
      hc_total_duration_microseconds = rt_TotalMicros result, hc_snapshot_hash = lj_SnapshotHash job,
      hc_worker_pool_id = lj_WorkerPoolID job, hc_worker_id = rt_WorkerID result,
      hc_execution_attempt_id = rt_AttemptID result\<rparr>"

definition result_phases :: "Result \<Rightarrow> int option list" where
  "result_phases result = [rt_DNSMicros result, rt_ConnectMicros result, rt_TLSMicros result, rt_FirstByteMicros result]"

definition in_correction_window :: "locked_job \<Rightarrow> time \<Rightarrow> bool" where
  "in_correction_window job evaluatedAt \<longleftrightarrow> \<not> evaluatedAt > lj_ExpiresAt job + 10 * minute"

definition apply_incidents ::
  "consume_inputs \<Rightarrow> locked_job \<Rightarrow> Result \<Rightarrow> bool
   \<Rightarrow> (go_error \<Rightarrow> ('x, 'r) handler) \<Rightarrow> (unit \<Rightarrow> ('x, 'r) handler) \<Rightarrow> ('x, 'r) handler" where
  "apply_incidents i job result corrected h k =
     (if in_correction_window job (ci_evaluatedAt i)
      then ApplyEvaluationTx (ci_ts i) (lj_MonitorID job) (rt_JobID result) corrected (ci_evaluatedAt i) h k
      else k ())"

definition record_late ::
  "consume_inputs \<Rightarrow> locked_job \<Rightarrow> Result \<Rightarrow> bool
   \<Rightarrow> (go_error \<Rightarrow> ('x, 'r) handler) \<Rightarrow> (string \<Rightarrow> ('x, 'r) handler) \<Rightarrow> ('x, 'r) handler" where
  "record_late i job result corrected h k =
     (if corrected \<or> \<not> in_correction_window job (ci_evaluatedAt i)
      then query (InsertMonitoringOperationalEvent ''late_correction'' (rt_JobID result) (lj_WorkerPoolID job)
             (if corrected then ''ordered state and rollup correction'' else ''raw and rollup correction only'')) (h \<circ> Db)
             (\<lambda>_. k ''late_result'')
      else k ''accepted_result'')"

definition evaluate_scheduled ::
  "consume_inputs \<Rightarrow> locked_job \<Rightarrow> Result
   \<Rightarrow> (go_error \<Rightarrow> ('x, 'r) handler) \<Rightarrow> (unit \<Rightarrow> ('x, 'r) handler) \<Rightarrow> ('x, 'r) handler" where
  "evaluate_scheduled i job result h k =
     EvaluateAcceptedTx (lj_MonitorID job) (rt_JobID result) (lj_ScheduledAt job) (lj_ExpiresAt job) (ci_evaluatedAt i) h (\<lambda>corrected.
     apply_incidents i job result corrected h (\<lambda>_.
     record_late i job result corrected h (\<lambda>reason.
     query (UpsertHourlyRollupInvalidation (lj_MonitorID job) (databaseTimestamp (lj_ScheduledAt job)) reason) (h \<circ> Db) (\<lambda>_.
     query (UpsertDailyRollupInvalidation (lj_MonitorID job) (databaseTimestamp (lj_ScheduledAt job)) reason) (h \<circ> Db) k))))"

definition accept_new ::
  "consume_inputs \<Rightarrow> locked_job \<Rightarrow> Result
   \<Rightarrow> (go_error \<Rightarrow> ('x, 'r) handler) \<Rightarrow> (unit \<Rightarrow> ('x, 'r) handler) \<Rightarrow> ('x, 'r) handler" where
  "accept_new i job result h k =
     query (InsertAcceptedHealthCheck (accepted_check job result) (result_phases result)) (h \<circ> Db) (\<lambda>_.
     query (CompleteCheckJob (databaseTimestamp (rt_StartedAt result)) (databaseTimestamp (rt_CompletedAt result))
              (rt_WorkerID result) (rt_AttemptID result) (rt_JobID result)) (h \<circ> Db) (\<lambda>_.
     query (MarkDispatchRepaired (rt_JobID result)) (h \<circ> Db) (\<lambda>_.
     query (DeleteRecoveredCoverageGaps (lj_MonitorID job) (databaseTimestamp (lj_ScheduledAt job))) (h \<circ> Db) (\<lambda>_.
     (if lj_JobType job = ''scheduled'' then evaluate_scheduled i job result h else (\<lambda>k. k ())) (\<lambda>_.
     query (InsertAcceptedCheckRefreshEvent (lj_OrganizationID job) (lj_EnvironmentID job) (rt_JobID result)) (h \<circ> Db) k)))))"

definition record_result ::
  "primitives \<Rightarrow> ResultConsumer \<Rightarrow> consume_inputs \<Rightarrow> string \<Rightarrow> locked_job \<Rightarrow> Result
   \<Rightarrow> (go_error \<Rightarrow> ('x, 'r) handler) \<Rightarrow> (unit \<Rightarrow> ('x, 'r) handler) \<Rightarrow> ('x, 'r) handler" where
  "record_result c cn i body job result h k =
     query (GetAcceptedHealthCheck (rt_JobID result)) (h \<circ> Db) (\<lambda>found. case found of
       Some existing \<Rightarrow>
         if \<not> same_accepted result existing then record_conflict c cn i body job result h k
         else ignoring (MarkDispatchRepaired (rt_JobID result)) (k ())
     | None \<Rightarrow> accept_new i job result h k)"

definition consume_fragment ::
  "primitives \<Rightarrow> ResultConsumer \<Rightarrow> consume_inputs \<Rightarrow> string \<Rightarrow> Result
   \<Rightarrow> (go_error \<Rightarrow> ('x, 'r) handler) \<Rightarrow> (unit \<Rightarrow> ('x, 'r) handler) \<Rightarrow> ('x, 'r) handler" where
  "consume_fragment c cn i body peeked h k =
     query (LockResultCheckJob (rt_ResultKeyID peeked) (rt_JobID peeked)) (h \<circ> Db) (\<lambda>locked. case locked of
       None \<Rightarrow> h ErrEnvelope
     | Some job \<Rightarrow>
         (case verified_result c body job (ci_now i) of
            None \<Rightarrow> h ErrEnvelope
          | Some result \<Rightarrow> record_result c cn i body job result h k))"

definition consume_delivery ::
  "primitives \<Rightarrow> ResultConsumer \<Rightarrow> (ResultDelivery \<Rightarrow> 'x \<Rightarrow> go_error option \<times> 'x) \<Rightarrow> consume_inputs \<Rightarrow> ResultDelivery
   \<Rightarrow> ('x, bool \<times> go_error option) handler" where
  "consume_delivery c cn acknowledge i delivery =
     (case peeked_delivery c delivery of
        None \<Rightarrow> ret (True, Some ErrEnvelope)
      | Some peeked \<Rightarrow>
          and_then (transaction Some (\<lambda>_. None) (consume_fragment c cn i (rd_Body delivery) peeked)) (\<lambda>failed.
            case failed of
              Some e \<Rightarrow> ret (True, Some e)
            | None \<Rightarrow> remote (acknowledge delivery) (ret (True, Some (Err ''delete failed''))) (\<lambda>e. ret (True, e))))"

definition ConsumeNext ::
  "primitives \<Rightarrow> ResultConsumer \<Rightarrow> ('x \<Rightarrow> (go_error + ResultDelivery) \<times> 'x) \<Rightarrow> (ResultDelivery \<Rightarrow> 'x \<Rightarrow> go_error option \<times> 'x)
   \<Rightarrow> consume_inputs \<Rightarrow> ('x, bool \<times> go_error option) handler" where
  "ConsumeNext c cn pull acknowledge i =
     and_then databaseReady (\<lambda>ready. case ready of
       Inl e \<Rightarrow> ret (False, Some e)
     | Inr False \<Rightarrow> ret (False, Some (Err ''result database unavailable''))
     | Inr True \<Rightarrow>
         remote pull (ret (False, Some (Err ''receive failed''))) (\<lambda>reply. case reply of
           Inl e \<Rightarrow> if e = ErrNoMessage then ret (False, None) else ret (False, Some e)
         | Inr delivery \<Rightarrow> consume_delivery c cn acknowledge i delivery))"

text \<open>The loop of \<open>cmd/monitor-engine\<close>, one call per entry; waiting and logging are left out.\<close>

fun runConsumer ::
  "primitives \<Rightarrow> ResultConsumer \<Rightarrow> ('x \<Rightarrow> (go_error + ResultDelivery) \<times> 'x) \<Rightarrow> (ResultDelivery \<Rightarrow> 'x \<Rightarrow> go_error option \<times> 'x)
   \<Rightarrow> consume_inputs list \<Rightarrow> ('x, (bool \<times> go_error option) list) handler" where
  "runConsumer c cn pull acknowledge [] = ret []"
| "runConsumer c cn pull acknowledge (i # is) =
     and_then (ConsumeNext c cn pull acknowledge i)
       (\<lambda>r. and_then (runConsumer c cn pull acknowledge is) (\<lambda>rs. ret (r # rs)))"

subsection \<open>What accepting a result leaves alone\<close>

definition evaluation_frame :: "database \<Rightarrow> database \<Rightarrow> bool" where
  "evaluation_frame d d' \<longleftrightarrow>
     db_rand d' = db_rand d \<and> db_drawn d \<le> db_drawn d' \<and> users d' = users d \<and> org_members d' = org_members d \<and>
     monitors d' = monitors d \<and> worker_pools d' = worker_pools d \<and>
     worker_pool_credentials d' = worker_pool_credentials d \<and> worker_pool_audit_events d' = worker_pool_audit_events d \<and>
     check_jobs d' = check_jobs d \<and> check_dispatch_outbox d' = check_dispatch_outbox d \<and>
     health_checks d' = health_checks d \<and> check_result_conflicts d' = check_result_conflicts d \<and>
     monitoring_quarantine d' = monitoring_quarantine d \<and> monitoring_coverage_gaps d' = monitoring_coverage_gaps d \<and>
     monitor_schedule_periods d' = monitor_schedule_periods d \<and> monitor_rollups_hourly d' = monitor_rollups_hourly d \<and>
     monitor_rollups_daily d' = monitor_rollups_daily d \<and>
     monitoring_rollup_checkpoint d' = monitoring_rollup_checkpoint d \<and> notification_attempts d' = notification_attempts d"

lemma evaluation_frame_refl [simp]: "evaluation_frame d d"
  by (simp add: evaluation_frame_def)

lemma evaluation_frame_trans: "evaluation_frame a b \<Longrightarrow> evaluation_frame b c \<Longrightarrow> evaluation_frame a c"
  by (simp add: evaluation_frame_def)

lemma same_inputs_frame: "same_inputs d d' \<Longrightarrow> evaluation_frame d d'"
  by (simp add: same_inputs_def evaluation_frame_def)

lemma incident_evaluation_frame: "incident_frame d d' \<Longrightarrow> evaluation_frame d d'"
  by (simp add: incident_frame_def evaluation_frame_def)

lemma limits_effective: "limits m d = effective_thresholds m d"
  by (simp add: limits_def effective_thresholds_def failureThreshold_def recoveryThreshold_def split: option.split)

lemmas ordered_state_defs = ordered_state_def monitor_evaluations_def all_checks_def scheduled_checks_def state_observation_def

lemma ordered_state_cong:
  assumes "health_checks d' = health_checks d" "monitor_result_evaluations d' = monitor_result_evaluations d"
    "monitor_reliability_states d' = monitor_reliability_states d" "limits m d' = limits m d"
  shows "ordered_state m d' = ordered_state m d"
  using assms by (simp add: ordered_state_defs)

lemma ordered_state_incident_frame: "incident_frame d d' \<Longrightarrow> ordered_state m d' = ordered_state m d"
  by (rule ordered_state_cong) (simp_all add: incident_frame_def limits_effective)

lemma results_wf_cong:
  assumes "health_checks d' = health_checks d" "monitor_result_evaluations d' = monitor_result_evaluations d"
  shows "results_wf d' = results_wf d"
  using assms by (simp add: results_wf_def)

lemma incident_inv_cong:
  assumes "db_rand d' = db_rand d" "db_drawn d' = db_drawn d" "incidents d' = incidents d"
    "incident_events d' = incident_events d" "notification_outbox d' = notification_outbox d"
    "notification_attempts d' = notification_attempts d"
  shows "incident_inv d' = incident_inv d"
  using assms by (simp add: incident_inv_def enqueue_inv_def outbox_inv_def deliveries_drawn_def incidents_ok_def
      timeline_ok_def was_drawn_def)

lemma evaluation_applied_frame: "evaluation_applied m corrected found d d' \<Longrightarrow> incident_frame d d'"
  by (auto simp: evaluation_applied_def Let_def transition_written_def split: option.splits if_splits)

subsection \<open>Evaluating an accepted result\<close>

definition bucket_marked :: "uuid \<Rightarrow> string \<Rightarrow> time \<Rightarrow> database \<Rightarrow> bool" where
  "bucket_marked m kind start d \<longleftrightarrow> (\<exists>r\<in>set (monitor_rollup_invalidations d). same_bucket m kind start r)"

text \<open>After the evaluation the tables are consistent, the state of the monitor is the ordered replay
  including the new result if it was one before and the result is not too late, and the rollups of
  the hour and the day of the slot are marked for recomputation.\<close>

definition evaluated_into :: "consume_inputs \<Rightarrow> locked_job \<Rightarrow> database \<Rightarrow> database \<Rightarrow> database \<Rightarrow> bool" where
  "evaluated_into i job before d0 d \<longleftrightarrow>
     results_wf d \<and> incident_inv d \<and> evaluation_frame d0 d \<and>
     (in_correction_window job (ci_evaluatedAt i) \<and> ordered_state (lj_MonitorID job) before \<longrightarrow> ordered_state (lj_MonitorID job) d)"

lemma EvaluateAcceptedTx_into:
  assumes wf: "results_wf (add_check c db)" and inv: "incident_inv db"
    and mon: "\<exists>r\<in>set (monitors db). mon_id r = lj_MonitorID job"
    and c: "hc_monitor_id c = lj_MonitorID job" "hc_job_type c = ''scheduled''"
    and slot: "hc_job_id c = j" "hc_scheduled_at c = lj_ScheduledAt job"
  shows "yields (EvaluateAcceptedTx (lj_MonitorID job) j (lj_ScheduledAt job) (lj_ExpiresAt job) (ci_evaluatedAt i)) (add_check c db)
    (\<lambda>_ d. evaluated_into i job db (add_check c db) d)"
proof (cases "ci_evaluatedAt i > lj_ExpiresAt job + correctionWindow")
  case True
  then have "\<not> in_correction_window job (ci_evaluatedAt i)"
    by (simp add: in_correction_window_def correctionWindow_def)
  with True wf inv show ?thesis
    unfolding EvaluateAcceptedTx_def[abs_def]
    by (auto intro!: yields_done simp: evaluated_into_def incident_inv_cong[of "add_check c db" db])
next
  case False
  then have run: "EvaluateAcceptedTx (lj_MonitorID job) j (lj_ScheduledAt job) (lj_ExpiresAt job) (ci_evaluatedAt i) =
      (evaluateTx (lj_MonitorID job) (Some (slot_of c)) (ci_evaluatedAt i) :: (database, 'x, 'r, go_error, bool) fragment)"
    using EvaluateAcceptedTx_slot[of "ci_evaluatedAt i" "lj_ExpiresAt job" "lj_MonitorID job" c] slot by simp
  have y: "yields (evaluateTx (lj_MonitorID job) (Some (slot_of c)) (ci_evaluatedAt i) :: (database, 'x, 'r, go_error, bool) fragment)
      (add_check c db) (\<lambda>_ d. results_wf d \<and> same_inputs (add_check c db) d \<and>
        (ordered_state (lj_MonitorID job) db \<longrightarrow> ordered_state (lj_MonitorID job) d))"
  proof (cases "ordered_state (lj_MonitorID job) db")
    case True
    show ?thesis
      by (rule yields_weaken[OF evaluateTx_yields[OF wf True mon c]]) simp
  next
    case False
    with mon show ?thesis
      by (intro yields_weaken[OF evaluateTx_kept[OF wf]]) (auto simp: evaluation_kept_def)
  qed
  have into: "evaluated_into i job db (add_check c db) d"
    if "results_wf d" "same_inputs (add_check c db) d"
      "ordered_state (lj_MonitorID job) db \<longrightarrow> ordered_state (lj_MonitorID job) d" for d
  proof -
    have "incident_inv d = incident_inv db"
      by (rule incident_inv_cong) (use that(2) in \<open>simp_all add: same_inputs_def\<close>)
    with that inv show ?thesis
      by (simp add: evaluated_into_def same_inputs_frame)
  qed
  show ?thesis
    unfolding run by (rule yields_weaken[OF y]) (use into in blast)
qed

lemma apply_incidents_into:
  assumes "evaluated_into i job db d0 d"
  shows "yields (apply_incidents i job result corrected) d (\<lambda>_ d'. evaluated_into i job db d0 d')"
proof (cases "in_correction_window job (ci_evaluatedAt i)")
  case True
  have inv: "incident_inv d"
    using assms by (simp add: evaluated_into_def)
  show ?thesis
    unfolding apply_incidents_def[abs_def] if_P[OF True]
  proof (rule yields_weaken[OF evaluation_applies[OF inv]], goal_cases)
    case (1 u d')
    then have frame: "incident_frame d d'"
      using evaluation_applied_frame by blast
    then have "results_wf d' = results_wf d"
      by (intro results_wf_cong) (simp_all add: incident_frame_def)
    with 1 assms frame ordered_state_incident_frame[OF frame] show ?case
      by (auto simp: evaluated_into_def intro: evaluation_frame_trans incident_evaluation_frame)
  qed
next
  case False
  with assms show ?thesis
    unfolding apply_incidents_def[abs_def] by (simp add: yields_done)
qed

lemma evaluated_into_cong:
  assumes "evaluated_into i job b d0 d" "evaluation_frame d d'" "db_drawn d' = db_drawn d"
    "monitor_result_evaluations d' = monitor_result_evaluations d"
    "monitor_reliability_states d' = monitor_reliability_states d" "alert_rules d' = alert_rules d"
    "incidents d' = incidents d" "incident_events d' = incident_events d" "notification_outbox d' = notification_outbox d"
  shows "evaluated_into i job b d0 d'"
proof -
  have "results_wf d' = results_wf d"
    by (rule results_wf_cong) (use assms(2,4) in \<open>simp_all add: evaluation_frame_def\<close>)
  moreover have "incident_inv d' = incident_inv d"
    by (rule incident_inv_cong) (use assms in \<open>simp_all add: evaluation_frame_def\<close>)
  moreover have "ordered_state (lj_MonitorID job) d' = ordered_state (lj_MonitorID job) d"
    by (rule ordered_state_cong) (use assms in \<open>simp_all add: evaluation_frame_def limits_def\<close>)
  ultimately show ?thesis
    using assms(1) evaluation_frame_trans[OF _ assms(2), of d0] by (simp add: evaluated_into_def)
qed

lemma record_late_into:
  assumes "evaluated_into i job b d0 d"
  shows "yields (record_late i job result corrected) d
    (\<lambda>reason d'. evaluated_into i job b d0 d' \<and> reason \<in> set [''accepted_result'', ''late_result''])"
proof (cases "corrected \<or> \<not> in_correction_window job (ci_evaluatedAt i)")
  case True
  let ?details = "if corrected then ''ordered state and rollup correction'' else ''raw and rollup correction only''"
  let ?d = "d\<lparr>monitoring_operational_events := monitoring_operational_events d @
     [\<lparr>oe_event_type = ''late_correction'', oe_job_id = nullif_empty (rt_JobID result),
       oe_worker_pool_id = nullif_empty (lj_WorkerPoolID job), oe_safe_details = ?details\<rparr>]\<rparr>"
  have "evaluated_into i job b d0 ?d"
    by (rule evaluated_into_cong[OF assms]) (simp_all add: evaluation_frame_def)
  then show ?thesis
    unfolding record_late_def[abs_def] if_P[OF True]
    by (intro yields_query[where d' = ?d] yields_done) (simp_all add: InsertMonitoringOperationalEvent_def)
next
  case False
  with assms show ?thesis
    unfolding record_late_def[abs_def] by (auto intro!: yields_done)
qed

lemma upsert_invalidation_marks:
  assumes "reason \<in> set [''accepted_result'', ''late_result'']" "\<exists>r\<in>set (monitors d). mon_id r = m"
  obtains X where "upsert_invalidation m kind start reason d = Inr ((), d\<lparr>monitor_rollup_invalidations := X\<rparr>)"
    "bucket_marked m kind start (d\<lparr>monitor_rollup_invalidations := X\<rparr>)"
    "\<And>m' kind' start'. bucket_marked m' kind' start' d \<Longrightarrow> bucket_marked m' kind' start' (d\<lparr>monitor_rollup_invalidations := X\<rparr>)"
proof (cases "exists_where (same_bucket m kind start) (monitor_rollup_invalidations d)")
  case True
  let ?X = "update_where (same_bucket m kind start) (\<lambda>r. r\<lparr>ri_reason := reason\<rparr>) (monitor_rollup_invalidations d)"
  have keep: "bucket_marked m' kind' start' (d\<lparr>monitor_rollup_invalidations := ?X\<rparr>)" if "bucket_marked m' kind' start' d" for m' kind' start'
  proof -
    note marked = that
    obtain r where r: "r \<in> set (monitor_rollup_invalidations d)" "same_bucket m' kind' start' r"
      using marked by (auto simp: bucket_marked_def)
    let ?r = "if same_bucket m kind start r then r\<lparr>ri_reason := reason\<rparr> else r"
    have "?r \<in> set ?X" "same_bucket m' kind' start' ?r"
      using r by (simp_all add: update_where_def same_bucket_def)
    then show ?thesis
      unfolding bucket_marked_def by (intro bexI[of _ ?r]) simp_all
  qed
  have "bucket_marked m kind start d"
    using True by (simp add: bucket_marked_def exists_where_def)
  then show thesis
    using True assms by (intro that[of ?X] keep) (simp_all add: upsert_invalidation_def exists_where_def)
next
  case False
  let ?n = "\<lparr>ri_monitor_id = m, ri_bucket_kind = kind, ri_bucket_start = start, ri_reason = reason\<rparr>"
  show thesis
  proof (rule that[of "monitor_rollup_invalidations d @ [?n]"], goal_cases)
    case 1
    show ?case using False assms by (auto simp: upsert_invalidation_def exists_where_def)
  next
    case 2
    show ?case by (simp add: bucket_marked_def same_bucket_def)
  next
    case (3 m' kind' start')
    then show ?case by (auto simp: bucket_marked_def)
  qed
qed

definition buckets_marked :: "locked_job \<Rightarrow> database \<Rightarrow> bool" where
  "buckets_marked job d \<longleftrightarrow>
     bucket_marked (lj_MonitorID job) ''hourly'' (truncate_time (databaseTimestamp (lj_ScheduledAt job)) hour) d \<and>
     bucket_marked (lj_MonitorID job) ''daily'' (truncate_time (databaseTimestamp (lj_ScheduledAt job)) day) d"

lemma invalidations_into:
  assumes "evaluated_into i job b d0 d" "reason \<in> set [''accepted_result'', ''late_result'']"
    "\<exists>r\<in>set (monitors d0). mon_id r = lj_MonitorID job"
  shows "yields (\<lambda>h k.
     query (UpsertHourlyRollupInvalidation (lj_MonitorID job) (databaseTimestamp (lj_ScheduledAt job)) reason) (h \<circ> Db) (\<lambda>_.
     query (UpsertDailyRollupInvalidation (lj_MonitorID job) (databaseTimestamp (lj_ScheduledAt job)) reason) (h \<circ> Db) k)) d
    (\<lambda>_ d'. evaluated_into i job b d0 d' \<and> buckets_marked job d')"
proof -
  let ?t = "databaseTimestamp (lj_ScheduledAt job)" and ?m = "lj_MonitorID job"
  have mon: "\<exists>r\<in>set (monitors d). mon_id r = ?m"
    using assms(1,3) by (simp add: evaluated_into_def evaluation_frame_def)
  obtain X where X: "upsert_invalidation ?m ''hourly'' (truncate_time ?t hour) reason d = Inr ((), d\<lparr>monitor_rollup_invalidations := X\<rparr>)"
    "bucket_marked ?m ''hourly'' (truncate_time ?t hour) (d\<lparr>monitor_rollup_invalidations := X\<rparr>)"
    by (rule upsert_invalidation_marks[OF assms(2) mon])
  let ?d = "d\<lparr>monitor_rollup_invalidations := X\<rparr>"
  have "\<exists>r\<in>set (monitors ?d). mon_id r = ?m"
    using mon by simp
  then obtain Y where Y: "upsert_invalidation ?m ''daily'' (truncate_time ?t day) reason ?d = Inr ((), ?d\<lparr>monitor_rollup_invalidations := Y\<rparr>)"
    "bucket_marked ?m ''daily'' (truncate_time ?t day) (?d\<lparr>monitor_rollup_invalidations := Y\<rparr>)"
    "bucket_marked ?m ''hourly'' (truncate_time ?t hour) (?d\<lparr>monitor_rollup_invalidations := Y\<rparr>)"
    using upsert_invalidation_marks[OF assms(2), of ?d ?m "''daily''" "truncate_time ?t day"] X(2) by metis
  let ?e = "?d\<lparr>monitor_rollup_invalidations := Y\<rparr>"
  have into: "evaluated_into i job b d0 ?e"
    by (rule evaluated_into_cong[OF assms(1)]) (simp_all add: evaluation_frame_def)
  have daily: "yields (\<lambda>h k. query (UpsertDailyRollupInvalidation ?m ?t reason) (h \<circ> Db) k) ?d
      (\<lambda>_ d'. evaluated_into i job b d0 d' \<and> buckets_marked job d')"
    by (rule ends_stmt) (use Y into in \<open>auto simp: UpsertDailyRollupInvalidation_def buckets_marked_def\<close>)
  show ?thesis
    by (rule yields_query[where d' = ?d and q = "\<lambda>_ h k. query (UpsertDailyRollupInvalidation ?m ?t reason) (h \<circ> Db) k", OF _ daily])
      (simp add: UpsertHourlyRollupInvalidation_def X(1))
qed

lemma evaluate_scheduled_into:
  assumes wf: "results_wf (add_check c db)" and inv: "incident_inv db"
    and mon: "\<exists>r\<in>set (monitors db). mon_id r = lj_MonitorID job"
    and c: "hc_monitor_id c = lj_MonitorID job" "hc_job_type c = ''scheduled''"
    and slot: "hc_job_id c = rt_JobID result" "hc_scheduled_at c = lj_ScheduledAt job"
  shows "yields (evaluate_scheduled i job result) (add_check c db)
    (\<lambda>_ d. evaluated_into i job db (add_check c db) d \<and> buckets_marked job d)"
  unfolding evaluate_scheduled_def
proof (rule yields_bind[OF EvaluateAcceptedTx_into[OF wf inv mon c slot]],
    rule yields_bind[OF apply_incidents_into], assumption, rule yields_bind[OF record_late_into], assumption, goal_cases)
  case (1 corrected d1 u d2 reason d3)
  with mon show ?case
    by (intro invalidations_into) simp_all
qed

subsection \<open>Accepting a new result\<close>

definition ledger_completed :: "locked_job \<Rightarrow> Result \<Rightarrow> database \<Rightarrow> database" where
  "ledger_completed job result db =
     db\<lparr>check_jobs := update_where (\<lambda>j. cj_id j = rt_JobID result)
          (complete_job (databaseTimestamp (rt_StartedAt result)) (databaseTimestamp (rt_CompletedAt result))
             (rt_WorkerID result) (rt_AttemptID result)) (check_jobs db),
        check_dispatch_outbox := update_where (\<lambda>r. do_job_id r = rt_JobID result \<and> do_publish_state r \<noteq> ''published'')
          (\<lambda>r. r\<lparr>do_publish_state := ''repaired''\<rparr>) (check_dispatch_outbox db),
        monitoring_coverage_gaps := filter (\<lambda>g. \<not> recovered_gap (lj_MonitorID job) (databaseTimestamp (lj_ScheduledAt job)) g)
          (monitoring_coverage_gaps db)\<rparr>"

definition storable :: "locked_job \<Rightarrow> Result \<Rightarrow> database \<Rightarrow> bool" where
  "storable job result db \<longleftrightarrow>
     InsertAcceptedHealthCheck (accepted_check job result) (result_phases result) db =
       Inr ((), add_check (accepted_check job result) db)"

definition accepted_event :: "locked_job \<Rightarrow> Result \<Rightarrow> refresh_event_row" where
  "accepted_event job result =
     \<lparr>re_organization_id = lj_OrganizationID job, re_environment_id = lj_EnvironmentID job,
      re_event_type = ''check.accepted'', re_resource_type = ''check'', re_resource_id = rt_JobID result\<rparr>"

text \<open>The result is stored, its job is completed, its dispatch needs no repair, the coverage gap of its
  slot is gone and the clients of the tenant are told; no other table that the frame names is touched.\<close>

definition accepted_into :: "consume_inputs \<Rightarrow> locked_job \<Rightarrow> Result \<Rightarrow> database \<Rightarrow> database \<Rightarrow> bool" where
  "accepted_into i job result db d \<longleftrightarrow>
     results_wf d \<and> incident_inv d \<and>
     evaluation_frame (add_check (accepted_check job result) (ledger_completed job result db)) d \<and>
     (lj_JobType job = ''scheduled'' \<longrightarrow> buckets_marked job d \<and>
        (in_correction_window job (ci_evaluatedAt i) \<and> ordered_state (lj_MonitorID job) db \<longrightarrow> ordered_state (lj_MonitorID job) d)) \<and>
     (\<exists>es. api_refresh_events d = es @ [accepted_event job result])"

lemma InsertAcceptedHealthCheck_cases:
  obtains (stored) "InsertAcceptedHealthCheck c phases db = Inr ((), add_check c db)" "check_columns_ok c phases"
    "hc_job_id c \<notin> hc_job_id ` set (health_checks db)" "check_references_ok c db"
  | (refused) e where "InsertAcceptedHealthCheck c phases db = Inl e"
proof (cases "InsertAcceptedHealthCheck c phases db")
  case (Inl e)
  then show thesis by (rule refused)
next
  case (Inr p)
  then have "p = ((), add_check c db) \<and> check_columns_ok c phases \<and> (\<forall>r\<in>set (health_checks db). hc_job_id r \<noteq> hc_job_id c) \<and>
      check_references_ok c db"
    unfolding InsertAcceptedHealthCheck_def exists_where_def add_check_def list_ex_iff by (auto split: if_splits)
  with Inr show thesis
    by (intro stored) auto
qed

lemma storableD:
  assumes "storable job result db"
  shows "rt_JobID result \<notin> hc_job_id ` set (health_checks db)" "length (rt_WorkerID result) \<le> 128"
    "\<exists>r\<in>set (monitors db). mon_id r = lj_MonitorID job"
proof -
  let ?c = "accepted_check job result"
  have "check_columns_ok ?c (result_phases result) \<and> hc_job_id ?c \<notin> hc_job_id ` set (health_checks db) \<and> check_references_ok ?c db"
    using assms InsertAcceptedHealthCheck_cases[of ?c "result_phases result" db] by (auto simp: storable_def)
  then show "rt_JobID result \<notin> hc_job_id ` set (health_checks db)" "length (rt_WorkerID result) \<le> 128"
    "\<exists>r\<in>set (monitors db). mon_id r = lj_MonitorID job"
    by (auto simp: accepted_check_def check_columns_ok_def check_references_ok_def exists_where_def)
qed

lemma accepted_check_sel [simp]:
  "hc_monitor_id (accepted_check job result) = lj_MonitorID job" "hc_job_type (accepted_check job result) = lj_JobType job"
  "hc_job_id (accepted_check job result) = rt_JobID result"
  "hc_scheduled_at (accepted_check job result) = databaseTimestamp (lj_ScheduledAt job)"
  "hc_result_id (accepted_check job result) = Some (rt_ResultID result)"
  "hc_execution_attempt_id (accepted_check job result) = rt_AttemptID result"
  "hc_snapshot_hash (accepted_check job result) = lj_SnapshotHash job"
  by (simp_all add: accepted_check_def)

lemma ledger_completed_sel [simp]:
  "health_checks (ledger_completed job result db) = health_checks db" "monitors (ledger_completed job result db) = monitors db"
  "incident_inv (ledger_completed job result db) = incident_inv db"
  "ordered_state m (ledger_completed job result db) = ordered_state m db"
  "monitor_result_evaluations (ledger_completed job result db) = monitor_result_evaluations db"
  by (simp_all add: ledger_completed_def incident_inv_cong[of "db\<lparr>check_jobs := _, check_dispatch_outbox := _, monitoring_coverage_gaps := _\<rparr>" db]
      ordered_state_cong[of "db\<lparr>check_jobs := _, check_dispatch_outbox := _, monitoring_coverage_gaps := _\<rparr>" db] limits_def)

lemma ordered_state_manual: "hc_job_type c \<noteq> ''scheduled'' \<Longrightarrow> ordered_state m (add_check c db) = ordered_state m db"
  by (simp add: ordered_state_defs limits_def add_check_def)

definition job_completed :: "Result \<Rightarrow> database \<Rightarrow> database" where
  "job_completed result db = db\<lparr>check_jobs := update_where (\<lambda>j. cj_id j = rt_JobID result)
     (complete_job (databaseTimestamp (rt_StartedAt result)) (databaseTimestamp (rt_CompletedAt result))
        (rt_WorkerID result) (rt_AttemptID result)) (check_jobs db)\<rparr>"

lemma refresh_event_into:
  assumes "evaluated_into i job db d0 d" "lj_JobType job = ''scheduled'' \<Longrightarrow> buckets_marked job d"
    "d0 = add_check (accepted_check job result) (ledger_completed job result db)"
  shows "yields (\<lambda>h k. query (InsertAcceptedCheckRefreshEvent (lj_OrganizationID job) (lj_EnvironmentID job) (rt_JobID result)) (h \<circ> Db) k) d
    (\<lambda>_ d'. accepted_into i job result db d')"
proof (rule ends_stmt, goal_cases)
  case (1 u d')
  then have d': "d' = d\<lparr>api_refresh_events := api_refresh_events d @ [accepted_event job result]\<rparr>"
    by (simp add: InsertAcceptedCheckRefreshEvent_def writing_def accepted_event_def)
  have "evaluated_into i job db d0 d'"
    by (rule evaluated_into_cong[OF assms(1)]) (simp_all add: d' evaluation_frame_def)
  moreover have "buckets_marked job d' = buckets_marked job d"
    by (simp add: d' buckets_marked_def bucket_marked_def)
  ultimately show ?case
    using assms(2,3) by (simp add: accepted_into_def evaluated_into_def d')
qed (simp add: InsertAcceptedCheckRefreshEvent_def writing_def)

lemma evaluation_part_into:
  assumes wf: "results_wf (add_check (accepted_check job result) (ledger_completed job result db))" and inv: "incident_inv db"
    and mon: "\<exists>r\<in>set (monitors db). mon_id r = lj_MonitorID job"
    and aligned: "databaseTimestamp (lj_ScheduledAt job) = lj_ScheduledAt job"
  shows "yields (\<lambda>h k. (if lj_JobType job = ''scheduled'' then evaluate_scheduled i job result h else (\<lambda>k. k ())) k)
      (add_check (accepted_check job result) (ledger_completed job result db))
      (\<lambda>_ d. evaluated_into i job db (add_check (accepted_check job result) (ledger_completed job result db)) d \<and>
         (lj_JobType job = ''scheduled'' \<longrightarrow> buckets_marked job d))"
  (is "yields _ ?d0 _")
proof (cases "lj_JobType job = ''scheduled''")
  case True
  have "yields (evaluate_scheduled i job result) ?d0 (\<lambda>_ d. evaluated_into i job (ledger_completed job result db) ?d0 d \<and> buckets_marked job d)"
    by (rule evaluate_scheduled_into) (use wf inv mon True aligned in simp_all)
  then show ?thesis
    unfolding if_P[OF True] by (rule yields_weaken) (simp add: evaluated_into_def)
next
  case False
  have "incident_inv ?d0"
    using inv incident_inv_cong[of ?d0 "ledger_completed job result db"] by simp
  moreover have "ordered_state (lj_MonitorID job) ?d0 = ordered_state (lj_MonitorID job) db"
    using False ordered_state_manual[of "accepted_check job result" "lj_MonitorID job" "ledger_completed job result db"] by simp
  ultimately show ?thesis
    unfolding if_not_P[OF False] using False wf by (intro yields_done) (simp add: evaluated_into_def)
qed

lemma accept_new_refused:
  assumes "\<not> storable job result db"
  shows "ends_in (accept_new i job result) db (\<lambda>_. True) (\<lambda>_ _. False)"
proof -
  obtain e where "InsertAcceptedHealthCheck (accepted_check job result) (result_phases result) db = Inl e"
    using assms by (cases rule: InsertAcceptedHealthCheck_cases[of "accepted_check job result" "result_phases result" db])
      (auto simp: storable_def)
  then show ?thesis
    unfolding accept_new_def[abs_def] by (intro ends_violation) simp_all
qed

lemma accept_new_into:
  assumes wf: "results_wf db" and inv: "incident_inv db"
    and aligned: "databaseTimestamp (lj_ScheduledAt job) = lj_ScheduledAt job" and j: "rt_JobID result \<noteq> []"
  shows "ends_in (accept_new i job result) db (\<lambda>_. \<not> storable job result db) (\<lambda>_ d. accepted_into i job result db d)"
proof (cases "storable job result db")
  case False
  then show ?thesis
    by (intro ends_weaken[OF accept_new_refused]) auto
next
  case True
  note s = storableD[OF True]
  let ?c = "accepted_check job result" and ?db = "ledger_completed job result db"
  let ?d0 = "add_check ?c ?db"
  have wf': "results_wf ?d0"
    using wf s(1) j by (auto simp: results_wf_def add_check_def ledger_completed_def)
  have eval: "yields (\<lambda>h k. (if lj_JobType job = ''scheduled'' then evaluate_scheduled i job result h else (\<lambda>k. k ())) k) ?d0
      (\<lambda>_ d. evaluated_into i job db ?d0 d \<and> (lj_JobType job = ''scheduled'' \<longrightarrow> buckets_marked job d))"
    by (rule evaluation_part_into[OF wf' inv s(3) aligned])
  have rest: "yields (\<lambda>h k. (if lj_JobType job = ''scheduled'' then evaluate_scheduled i job result h else (\<lambda>k. k ())) (\<lambda>_.
     query (InsertAcceptedCheckRefreshEvent (lj_OrganizationID job) (lj_EnvironmentID job) (rt_JobID result)) (h \<circ> Db) k)) ?d0
     (\<lambda>_ d. accepted_into i job result db d)"
  proof (rule ends_bind[OF eval], goal_cases)
    case (1 u d)
    then show ?case by (intro refresh_event_into[where ?d0.0 = ?d0]) simp_all
  qed
  have "ends_in (\<lambda>h k. query (MarkDispatchRepaired (rt_JobID result)) (h \<circ> Db) (\<lambda>_.
     query (DeleteRecoveredCoverageGaps (lj_MonitorID job) (databaseTimestamp (lj_ScheduledAt job))) (h \<circ> Db) (\<lambda>_.
     (if lj_JobType job = ''scheduled'' then evaluate_scheduled i job result h else (\<lambda>k. k ())) (\<lambda>_.
     query (InsertAcceptedCheckRefreshEvent (lj_OrganizationID job) (lj_EnvironmentID job) (rt_JobID result)) (h \<circ> Db) k))))
    (add_check ?c (job_completed result db)) (\<lambda>_. False) (\<lambda>_ d. accepted_into i job result db d)"
    unfolding MarkDispatchRepaired_def DeleteRecoveredCoverageGaps_def
    by (rule ends_writing, rule ends_writing, rule back_subst[where P = "\<lambda>d. yields _ d _", OF rest])
      (simp add: job_completed_def ledger_completed_def add_check_def)
  note rest' = ends_weaken[OF this]
  show ?thesis
    unfolding accept_new_def[abs_def]
  proof (rule ends_query[where d' = "add_check ?c db" and a = "()"], goal_cases)
    case 1
    then show ?case using True by (simp add: storable_def)
  next
    case 2
    show ?case
      by (rule ends_query[where d' = "add_check ?c (job_completed result db)" and a = "()"])
        (use s(2) rest' in \<open>auto simp: CompleteCheckJob_def job_completed_def add_check_def\<close>)
  qed
qed

subsection \<open>One delivery\<close>

definition consume_inv :: "database \<Rightarrow> bool" where
  "consume_inv db \<longleftrightarrow>
     results_wf db \<and> incident_inv db \<and> (\<forall>j\<in>set (check_jobs db). databaseTimestamp (cj_scheduled_at j) = cj_scheduled_at j)"

definition repaired :: "uuid \<Rightarrow> database \<Rightarrow> database" where
  "repaired j db = db\<lparr>check_dispatch_outbox := update_where (\<lambda>r. do_job_id r = j \<and> do_publish_state r \<noteq> ''published'')
     (\<lambda>r. r\<lparr>do_publish_state := ''repaired''\<rparr>) (check_dispatch_outbox db)\<rparr>"

text \<open>The result that is stored for a job, and whether a delivered result is that one.\<close>

definition stored_result :: "Result \<Rightarrow> database \<Rightarrow> bool" where
  "stored_result result db \<longleftrightarrow>
     (\<exists>row. select_one (\<lambda>c. hc_job_id c = rt_JobID result) (health_checks db) = Some row \<and>
        hc_result_id row = Some (rt_ResultID result) \<and> hc_execution_attempt_id row = rt_AttemptID result \<and>
        hex_encode (hc_snapshot_hash row) = rt_SnapshotHash result)"

text \<open>A recorded conflict: the encrypted message is in quarantine under the identifier of its result and
  the conflict is listed; only these tables and the operational events change.\<close>

definition conflict_into :: "primitives \<Rightarrow> ResultConsumer \<Rightarrow> consume_inputs \<Rightarrow> string \<Rightarrow> Result \<Rightarrow> database \<Rightarrow> database \<Rightarrow> bool" where
  "conflict_into c cn i body result db d \<longleftrightarrow>
     (\<exists>q X Z. Seal c (ci_nonce i) (cn_sealer cn) body (conflict_aad result) = Inr (qu_encrypted_payload q) \<and>
        quarantined_result (rt_ResultID result) q \<and> (\<exists>x\<in>set X. rc_result_id x = rt_ResultID result) \<and>
        d = (drawn_uuid db)\<lparr>check_result_conflicts := X, monitoring_quarantine := monitoring_quarantine db @ [q],
              monitoring_operational_events := Z\<rparr>)"

definition consumed :: "primitives \<Rightarrow> ResultConsumer \<Rightarrow> consume_inputs \<Rightarrow> string \<Rightarrow> Result \<Rightarrow> database \<Rightarrow> database \<Rightarrow> bool" where
  "consumed c cn i body peeked db d \<longleftrightarrow>
     (\<exists>job result. LockResultCheckJob (rt_ResultKeyID peeked) (rt_JobID peeked) db = Inr (Some job, db) \<and>
        verified_result c body job (ci_now i) = Some result \<and>
        (storable job result db \<and> accepted_into i job result db d \<or>
         stored_result result db \<and> d = repaired (rt_JobID result) db \<or>
         rt_JobID result \<in> hc_job_id ` set (health_checks db) \<and> \<not> stored_result result db \<and> conflict_into c cn i body result db d))"

lemma settled_query: "settled (\<lambda>h k. query s (h \<circ> f) (\<lambda>a. q a h k)) = (\<lambda>h k. query s (h \<circ> f) (\<lambda>a. settled (q a) h k))"
  by (simp add: settled_def fun_eq_iff)

lemma settled_ignoring: "settled (\<lambda>h k. ignoring s (p h k)) = (\<lambda>h k. ignoring s (settled p h k))"
  by (simp add: settled_def fun_eq_iff)

text \<open>The three statements whose errors are ignored, from the last one to the first.\<close>

lemma conflict_event_ends:
  assumes "Seal c (ci_nonce i) (cn_sealer cn) body (conflict_aad result) = Inr (qu_encrypted_payload q)"
    "quarantined_result (rt_ResultID result) q" "\<exists>x\<in>set X. rc_result_id x = rt_ResultID result"
    "d = (drawn_uuid db)\<lparr>check_result_conflicts := X, monitoring_quarantine := monitoring_quarantine db @ [q]\<rparr>"
  shows "ends_in (\<lambda>h k. ignoring (InsertMonitoringOperationalEvent type job pool details) (settled (\<lambda>h k. k ()) h k)) d
    (\<lambda>_. True) (\<lambda>_ d. conflict_into c cn i body result db d)"
proof (cases "InsertMonitoringOperationalEvent type job pool details d")
  case (Inl e)
  then show ?thesis by (rule ends_ignored_violation[OF _ aborts_settled_end])
next
  case (Inr p)
  then obtain Z where p: "p = ((), d\<lparr>monitoring_operational_events := Z\<rparr>)"
    by (auto simp: InsertMonitoringOperationalEvent_def split: if_splits)
  have "conflict_into c cn i body result db (d\<lparr>monitoring_operational_events := Z\<rparr>)"
    using assms by (auto simp: conflict_into_def)
  then show ?thesis
    using Inr p by (intro ends_ignored[OF _ _ aborts_settled_end] ends_settled ends_done) auto
qed

lemma conflict_quarantine_ends:
  assumes seal: "Seal c (ci_nonce i) (cn_sealer cn) body (conflict_aad result) = Inr encrypted"
    and d: "d = db\<lparr>check_result_conflicts := X\<rparr>" "\<exists>x\<in>set X. rc_result_id x = rt_ResultID result"
  shows "ends_in (\<lambda>h k. ignoring (InsertConflictingResultQuarantine job (rt_ResultID result) pool hash encrypted)
      (ignoring (InsertMonitoringOperationalEvent type j p details) (settled (\<lambda>h k. k ()) h k))) d
    (\<lambda>_. True) (\<lambda>_ d. conflict_into c cn i body result db d)"
proof (cases "InsertConflictingResultQuarantine job (rt_ResultID result) pool hash encrypted d")
  case (Inl e)
  then show ?thesis by (rule ends_ignored_violation[OF _ aborts_ignored[OF aborts_settled_end]])
next
  case (Inr v)
  let ?q = "quarantine_row_of (fresh_uuid d) (Some job) (Some (rt_ResultID result)) (Some pool) (Some hash)
    ''conflicting valid result'' encrypted"
  let ?d = "(drawn_uuid db)\<lparr>check_result_conflicts := X, monitoring_quarantine := monitoring_quarantine db @ [?q]\<rparr>"
  have "v = ((), (drawn_uuid d)\<lparr>monitoring_quarantine := monitoring_quarantine d @ [?q]\<rparr>)"
    using Inr by (auto simp: InsertConflictingResultQuarantine_def Let_def split: if_splits)
  also have "(drawn_uuid d)\<lparr>monitoring_quarantine := monitoring_quarantine d @ [?q]\<rparr> = ?d"
    by (rule database.equality) (simp_all add: d(1) drawn_uuid_def fresh_uuid_def)
  finally have run: "InsertConflictingResultQuarantine job (rt_ResultID result) pool hash encrypted d = Inr ((), ?d)"
    using Inr by simp
  show ?thesis
    by (rule ends_ignored[where s = "InsertConflictingResultQuarantine job (rt_ResultID result) pool hash encrypted", OF run])
      (rule conflict_event_ends[where q = ?q, OF _ _ d(2) refl],
       simp_all add: seal quarantine_row_of_def quarantined_result_def aborts_ignored[OF aborts_settled_end])
qed

lemma InsertResultConflict_result:
  assumes "InsertResultConflict r db = Inr v"
  obtains X where "v = ((), db\<lparr>check_result_conflicts := X\<rparr>)" "\<exists>x\<in>set X. rc_result_id x = rc_result_id r"
proof (cases "exists_where (\<lambda>x. rc_result_id x = rc_result_id r) (check_result_conflicts db)")
  case True
  with assms show thesis
    by (intro that[of "check_result_conflicts db"]) (auto simp: InsertResultConflict_def exists_where_def list_ex_iff)
next
  case False
  with assms show thesis
    by (intro that[of "check_result_conflicts db @ [r]"]) (auto simp: InsertResultConflict_def split: if_splits)
qed

lemma record_conflict_ends:
  "ends_in (settled (record_conflict c cn i body job result)) db (\<lambda>_. True) (\<lambda>_ d. conflict_into c cn i body result db d)"
proof (cases "Seal c (ci_nonce i) (cn_sealer cn) body (conflict_aad result)")
  case (Inl e)
  show ?thesis
    by (rule ends_settled) (unfold record_conflict_def[abs_def] Inl sum.case, rule ends_fail, simp)
next
  case seal: (Inr encrypted)
  let ?s = "InsertResultConflict \<lparr>rc_job_id = rt_JobID result, rc_result_id = rt_ResultID result,
      rc_worker_pool_id = lj_WorkerPoolID job, rc_snapshot_hash = lj_SnapshotHash job,
      rc_safe_reason = ''conflicting valid result'', rc_encrypted_payload = encrypted\<rparr>"
  consider (bad) e where "?s db = Inl e"
    | (good) X where "?s db = Inr ((), db\<lparr>check_result_conflicts := X\<rparr>)" "\<exists>x\<in>set X. rc_result_id x = rt_ResultID result"
  proof (cases "?s db")
    case (Inl e)
    then show thesis by (rule bad)
  next
    case (Inr v)
    then show thesis
      by (rule InsertResultConflict_result) (use Inr good in auto)
  qed
  then show ?thesis
  proof cases
    case bad
    then show ?thesis
      unfolding record_conflict_def[abs_def] seal sum.case settled_ignoring
      by (rule ends_ignored_violation[where s = ?s, OF _ aborts_ignored[OF aborts_ignored[OF aborts_settled_end]]])
  next
    case good
    then show ?thesis
      unfolding record_conflict_def[abs_def] seal sum.case settled_ignoring
      by (intro ends_ignored[where s = ?s, OF _ conflict_quarantine_ends[OF seal] aborts_ignored[OF aborts_ignored[OF aborts_settled_end]]])
        auto
  qed
qed

lemma verified_resultD:
  assumes "verified_result c body job now = Some result"
  shows "PeekResult c body = Inr result" "validateResult result" "VerifyResult c body (lj_ResultPublicKey job) = Inr result"
    "rt_SnapshotHash result = hex_encode (lj_SnapshotHash job)" "rt_WorkerPoolID result = lj_WorkerPoolID job"
proof -
  show v: "VerifyResult c body (lj_ResultPublicKey job) = Inr result"
    "rt_SnapshotHash result = hex_encode (lj_SnapshotHash job)" "rt_WorkerPoolID result = lj_WorkerPoolID job"
    using assms by (auto simp: verified_result_def split: sum.splits if_splits)
  show p: "PeekResult c body = Inr result"
    using v(1) by (auto simp: VerifyResult_def Let_def split: sum.splits if_splits option.splits)
  then show "validateResult result"
    by (auto simp: PeekResult_def split: if_splits option.splits)
qed

lemma validateResult_job: "validateResult result \<Longrightarrow> rt_JobID result \<noteq> []"
  by (simp add: validateResult_def)

lemma LockResultCheckJob_job:
  assumes "LockResultCheckJob keyID jobID db = Inr (Some job, d)"
  obtains j p where "j \<in> set (check_jobs db)" "cj_id j = jobID" "p \<in> set (worker_pools db)" "wp_id p = cj_worker_pool_id j"
    "job = locked_of keyID j p db" "d = db"
proof -
  obtain j where j: "select_one (\<lambda>j. cj_id j = jobID) (check_jobs db) = Some j"
    using assms by (cases "select_one (\<lambda>j. cj_id j = jobID) (check_jobs db)") (simp_all add: LockResultCheckJob_def reading_def)
  obtain p where p: "select_one (\<lambda>p. wp_id p = cj_worker_pool_id j) (worker_pools db) = Some p"
    using assms j by (cases "select_one (\<lambda>p. wp_id p = cj_worker_pool_id j) (worker_pools db)")
      (simp_all add: LockResultCheckJob_def reading_def)
  have "job = locked_of keyID j p db" "d = db"
    using assms j p by (auto simp: LockResultCheckJob_def reading_def)
  then show thesis
    using that[of j p] select_one_Some[OF j] select_one_Some[OF p] by simp
qed

lemma record_result_ends:
  assumes inv: "results_wf db" "incident_inv db" and aligned: "databaseTimestamp (lj_ScheduledAt job) = lj_ScheduledAt job"
    and j: "rt_JobID result \<noteq> []"
  shows "ends_in (settled (record_result c cn i body job result)) db (\<lambda>_. True)
    (\<lambda>_ d. storable job result db \<and> accepted_into i job result db d \<or>
       stored_result result db \<and> d = repaired (rt_JobID result) db \<or>
       rt_JobID result \<in> hc_job_id ` set (health_checks db) \<and> \<not> stored_result result db \<and> conflict_into c cn i body result db d)"
    (is "ends_in _ _ _ (\<lambda>_ d. ?Q d)")
proof (cases "select_one (\<lambda>x. hc_job_id x = rt_JobID result) (health_checks db)")
  case None
  then have "GetAcceptedHealthCheck (rt_JobID result) db = Inr (None, db)"
    by (simp add: GetAcceptedHealthCheck_def)
  moreover have "ends_in (accept_new i job result) db (\<lambda>_. True) (\<lambda>_ d. ?Q d)"
  proof (cases "storable job result db")
    case True
    show ?thesis
      by (rule ends_weaken[OF accept_new_into[OF inv aligned j]]) (use True in auto)
  next
    case False
    then show ?thesis
      by (intro ends_weaken[OF accept_new_refused]) auto
  qed
  ultimately show ?thesis
    unfolding record_result_def[abs_def] settled_query
    by (intro ends_query[where s = "GetAcceptedHealthCheck (rt_JobID result)"]) (auto intro: ends_settled)
next
  case (Some row)
  then have stored: "rt_JobID result \<in> hc_job_id ` set (health_checks db)"
    using select_one_Some[OF Some] by force
  show ?thesis
  proof (cases "hc_result_id row")
    case None
    then show ?thesis
      unfolding record_result_def[abs_def] settled_query using Some
      by (intro ends_violation[where s = "GetAcceptedHealthCheck (rt_JobID result)"]) (simp_all add: GetAcceptedHealthCheck_def)
  next
    case id: (Some r)
    let ?e = "(hc_snapshot_hash row, hc_execution_attempt_id row, r)"
    have same: "same_accepted result ?e = stored_result result db"
      using Some id by (auto simp: same_accepted_def stored_result_def)
    have run: "GetAcceptedHealthCheck (rt_JobID result) db = Inr (Some ?e, db)"
      using Some id by (simp add: GetAcceptedHealthCheck_def)
    have "ends_in (settled (\<lambda>h k. if \<not> same_accepted result ?e then record_conflict c cn i body job result h k
         else ignoring (MarkDispatchRepaired (rt_JobID result)) (k ()))) db (\<lambda>_. True) (\<lambda>_ d. ?Q d)"
    proof (cases "stored_result result db")
      case True
      then show ?thesis
        unfolding same
        by (simp add: settled_ignoring)
          (rule ends_ignored[where d' = "repaired (rt_JobID result) db" and a = "()"],
           auto simp: MarkDispatchRepaired_def writing_def repaired_def aborts_settled_end intro!: ends_settled ends_done)
    next
      case False
      then show ?thesis
        unfolding same using stored by (auto intro: ends_weaken[OF record_conflict_ends])
    qed
    with run show ?thesis
      unfolding record_result_def[abs_def] settled_query
      by (intro ends_query[where s = "GetAcceptedHealthCheck (rt_JobID result)"]) auto
  qed
qed

lemma consume_fragment_ends:
  assumes inv: "consume_inv db"
  shows "ends_in (settled (consume_fragment c cn i body peeked)) db (\<lambda>_. True) (\<lambda>_ d. consumed c cn i body peeked db d)"
proof -
  let ?s = "LockResultCheckJob (rt_ResultKeyID peeked) (rt_JobID peeked)"
  obtain locked where locked: "?s db = Inr (locked, db)"
    by (auto simp: LockResultCheckJob_def reading_def)
  have "ends_in (settled (\<lambda>h k. case locked of None \<Rightarrow> h ErrEnvelope
     | Some job \<Rightarrow> (case verified_result c body job (ci_now i) of None \<Rightarrow> h ErrEnvelope
          | Some result \<Rightarrow> record_result c cn i body job result h k))) db (\<lambda>_. True) (\<lambda>_ d. consumed c cn i body peeked db d)"
  proof (cases locked)
    case None
    show ?thesis
      unfolding None option.case by (intro ends_settled ends_fail) simp
  next
    case (Some job)
    obtain j p where j: "j \<in> set (check_jobs db)" "job = locked_of (rt_ResultKeyID peeked) j p db"
      using locked Some by (auto elim: LockResultCheckJob_job)
    then have aligned: "databaseTimestamp (lj_ScheduledAt job) = lj_ScheduledAt job"
      using inv by (simp add: consume_inv_def locked_of_def)
    show ?thesis
    proof (cases "verified_result c body job (ci_now i)")
      case None
      show ?thesis
        unfolding Some option.case None by (intro ends_settled ends_fail) simp
    next
      case result: (Some result)
      have "rt_JobID result \<noteq> []"
        using verified_resultD(2)[OF result] by (rule validateResult_job)
      with inv aligned have "ends_in (settled (record_result c cn i body job result)) db (\<lambda>_. True)
        (\<lambda>_ d. storable job result db \<and> accepted_into i job result db d \<or>
           stored_result result db \<and> d = repaired (rt_JobID result) db \<or>
           rt_JobID result \<in> hc_job_id ` set (health_checks db) \<and> \<not> stored_result result db \<and> conflict_into c cn i body result db d)"
        by (intro record_result_ends) (simp_all add: consume_inv_def)
      then show ?thesis
        unfolding Some option.case result
        by (rule ends_weaken) (use locked Some result in \<open>auto simp: consumed_def\<close>)
    qed
  qed
  then show ?thesis
    unfolding consume_fragment_def[abs_def] settled_query by (intro ends_query[where s = ?s, OF locked])
qed

lemma databaseReady_run:
  obtains r v where "databaseReady w = (r, v)" "durable v = durable w" "outside v = outside w" "r \<noteq> Inr False"
    "faults w = [] \<Longrightarrow> r = Inr True \<and> faults v = []"
proof -
  let ?r = "fst (databaseReady w)" and ?v = "snd (databaseReady w)"
  have "durable ?v = durable w \<and> outside ?v = outside w \<and> ?r \<noteq> Inr False \<and> (faults w = [] \<longrightarrow> ?r = Inr True \<and> faults ?v = [])"
    by (auto simp: databaseReady_def begin_tx_def query_def DatabasePing_def reading_def ret_def Let_def)
  then show thesis
    by (intro that[of ?r ?v]) auto
qed

subsection \<open>The invariant\<close>

lemma consume_inv_accepted:
  assumes "consume_inv db" "accepted_into i job result db d"
  shows "consume_inv d"
proof -
  have "check_jobs d = check_jobs (ledger_completed job result db)"
    using assms(2) by (simp add: accepted_into_def evaluation_frame_def)
  then have "\<forall>j\<in>set (check_jobs d). databaseTimestamp (cj_scheduled_at j) = cj_scheduled_at j"
    using assms(1) by (auto simp: consume_inv_def ledger_completed_def update_where_def complete_job_def)
  with assms(2) show ?thesis
    by (simp add: consume_inv_def accepted_into_def)
qed

lemma consume_inv_cong:
  assumes "consume_inv db" "health_checks d = health_checks db" "monitor_result_evaluations d = monitor_result_evaluations db"
    "check_jobs d = check_jobs db" "db_rand d = db_rand db" "db_drawn db \<le> db_drawn d" "incidents d = incidents db"
    "incident_events d = incident_events db" "notification_outbox d = notification_outbox db"
    "notification_attempts d = notification_attempts db"
  shows "consume_inv d"
proof -
  have "enqueue_inv d"
    using assms by (intro enqueue_inv_frame[of db d]) (simp_all add: consume_inv_def incident_inv_def)
  moreover have "was_drawn d x" if "was_drawn db x" for x
    using was_drawn_mono[OF that assms(5,6)] .
  ultimately have "incident_inv d"
    using assms by (auto simp: consume_inv_def incident_inv_def incidents_ok_def timeline_ok_def)
  with assms show ?thesis
    by (simp add: consume_inv_def results_wf_cong[of d db])
qed

lemma consume_inv_consumed:
  assumes "consume_inv db" "consumed c cn i body peeked db d"
  shows "consume_inv d"
proof -
  consider (accepted) job result where "accepted_into i job result db d" | (again) j where "d = repaired j db"
    | (conflict) result where "conflict_into c cn i body result db d"
    using assms(2) by (auto simp: consumed_def)
  then show ?thesis
  proof cases
    case accepted
    with assms(1) show ?thesis by (rule consume_inv_accepted)
  next
    case again
    then show ?thesis by (intro consume_inv_cong[OF assms(1)]) (simp_all add: repaired_def)
  next
    case conflict
    then show ?thesis by (intro consume_inv_cong[OF assms(1)]) (auto simp: conflict_into_def)
  qed
qed

lemma remote_run:
  obtains (answered) v where "remote f h k w = k (fst (f (outside w))) v" "durable v = durable w"
      "outside v = snd (f (outside w))" "faults w = [] \<Longrightarrow> faults v = []"
  | (failed) v where "remote f h k w = h v" "durable v = durable w" "outside v \<in> {outside w, snd (f (outside w))}" "faults w \<noteq> []"
proof (cases "next_fault w")
  case Fine
  then show thesis
    by (intro answered[of "(pop_fault w)\<lparr>outside := snd (f (outside w))\<rparr>"]) (simp_all add: remote_def Let_def case_prod_beta)
next
  case Refused
  then show thesis
    by (intro failed[of "pop_fault w"]) (auto simp: remote_def Let_def case_prod_beta)
next
  case Lost_Reply
  then show thesis
    by (intro failed[of "(pop_fault w)\<lparr>outside := snd (f (outside w))\<rparr>"]) (auto simp: remote_def Let_def case_prod_beta)
qed

lemma consume_tx:
  assumes "consume_inv (durable w)"
  shows "case transaction Some (\<lambda>_. None) (consume_fragment c cn i body peeked) w of (r, w') \<Rightarrow>
    outside w' = outside w \<and>
    (if r = None then consumed c cn i body peeked (durable w) (durable w') 
     else durable w' = durable w \<or> consumed c cn i body peeked (durable w) (durable w'))"
  unfolding transaction_settled[of Some _ "consume_fragment c cn i body peeked"]
  by (rule transactionI[OF consume_fragment_ends[OF assms]]) auto

text \<open>What one call does to the queue and to the database: nothing but perhaps receiving a message, or
  consuming the received delivery and then perhaps acknowledging it.\<close>

definition consume_step ::
  "primitives \<Rightarrow> ResultConsumer \<Rightarrow> ('x \<Rightarrow> (go_error + ResultDelivery) \<times> 'x) \<Rightarrow> (ResultDelivery \<Rightarrow> 'x \<Rightarrow> go_error option \<times> 'x)
   \<Rightarrow> consume_inputs \<Rightarrow> 'x \<times> database \<Rightarrow> 'x \<times> database \<Rightarrow> bool" where
  "consume_step c cn pull acknowledge i s s' \<longleftrightarrow>
     (case (s, s') of ((x, db), (x', db')) \<Rightarrow>
        db' = db \<and> x' \<in> {x, snd (pull x)} \<or>
        (\<exists>delivery peeked. fst (pull x) = Inr delivery \<and> peeked_delivery c delivery = Some peeked \<and>
           consumed c cn i (rd_Body delivery) peeked db db' \<and>
           x' \<in> {snd (pull x), snd (acknowledge delivery (snd (pull x)))}))"

definition acknowledged_step ::
  "primitives \<Rightarrow> ResultConsumer \<Rightarrow> ('x \<Rightarrow> (go_error + ResultDelivery) \<times> 'x) \<Rightarrow> (ResultDelivery \<Rightarrow> 'x \<Rightarrow> go_error option \<times> 'x)
   \<Rightarrow> consume_inputs \<Rightarrow> 'x \<times> database \<Rightarrow> 'x \<times> database \<Rightarrow> bool" where
  "acknowledged_step c cn pull acknowledge i s s' \<longleftrightarrow>
     (case (s, s') of ((x, db), (x', db')) \<Rightarrow>
        (\<exists>delivery peeked. fst (pull x) = Inr delivery \<and> peeked_delivery c delivery = Some peeked \<and>
           consumed c cn i (rd_Body delivery) peeked db db' \<and> acknowledge delivery (snd (pull x)) = (None, x')))"

lemma consume_delivery_run:
  assumes inv: "consume_inv (durable v)"
  shows "case consume_delivery c cn acknowledge i delivery v of (r, w') \<Rightarrow>
    durable w' = durable v \<and> outside w' = outside v \<and> r \<noteq> (True, None) \<and> fst r \<or>
    fst r \<and> (\<exists>peeked. peeked_delivery c delivery = Some peeked \<and>
       consumed c cn i (rd_Body delivery) peeked (durable v) (durable w') \<and>
       (if r = (True, None) then acknowledge delivery (outside v) = (None, outside w')
        else outside w' \<in> {outside v, snd (acknowledge delivery (outside v))}))"
    (is "case _ of (r, w') \<Rightarrow> ?P r w'")
proof (cases "peeked_delivery c delivery")
  case None
  then show ?thesis
    by (simp add: consume_delivery_def ret_def)
next
  case (Some peeked)
  let ?tx = "transaction Some (\<lambda>_. None) (consume_fragment c cn i (rd_Body delivery) peeked)"
  obtain r u where tx: "?tx v = (r, u)"
    by (cases "?tx v")
  with consume_tx[OF inv, of c cn i "rd_Body delivery" peeked]
  have u: "outside u = outside v" "if r = None then consumed c cn i (rd_Body delivery) peeked (durable v) (durable u)
      else durable u = durable v \<or> consumed c cn i (rd_Body delivery) peeked (durable v) (durable u)"
    by simp_all
  show ?thesis
  proof (cases r)
    case failed: (Some e)
    have "consume_delivery c cn acknowledge i delivery v = ((True, Some e), u)"
      using Some tx failed by (simp add: consume_delivery_def and_then_def ret_def)
    then show ?thesis
      using Some u failed by auto
  next
    case None
    let ?ack = "remote (acknowledge delivery) (ret (True, Some (Err ''delete failed''))) (\<lambda>e. ret (True, e))"
    have run: "consume_delivery c cn acknowledge i delivery v = ?ack u"
      using Some tx None by (simp add: consume_delivery_def and_then_def)
    show ?thesis
    proof (cases rule: remote_run[of "acknowledge delivery" "ret (True, Some (Err ''delete failed''))" "\<lambda>e. ret (True, e)" u])
      case (answered x)
      then show ?thesis
        using run Some u None by (auto simp: ret_def prod_eq_iff)
    next
      case (failed x)
      then show ?thesis
        using run Some u None by (auto simp: ret_def)
    qed
  qed
qed

lemma ConsumeNext_cases:
  obtains (idle) r w' where "ConsumeNext c cn pull acknowledge i w = (r, w')" "durable w' = durable w"
      "outside w' \<in> {outside w, snd (pull (outside w))}" "\<not> fst r" "snd r \<noteq> None \<or> fst (pull (outside w)) = Inl ErrNoMessage"
  | (delivered) delivery v where "fst (pull (outside w)) = Inr delivery"
      "ConsumeNext c cn pull acknowledge i w = consume_delivery c cn acknowledge i delivery v"
      "durable v = durable w" "outside v = snd (pull (outside w))"
proof -
  obtain r v where ready: "databaseReady w = (r, v)" "durable v = durable w" "outside v = outside w" "r \<noteq> Inr False"
    by (rule databaseReady_run)
  show thesis
  proof (cases r)
    case (Inl e)
    then show thesis
      using ready by (intro idle[of "(False, Some e)" v]) (simp_all add: ConsumeNext_def and_then_def ret_def)
  next
    case (Inr b)
    let ?answer = "\<lambda>reply. case reply of
           Inl e \<Rightarrow> if e = ErrNoMessage then ret (False, None) else ret (False, Some e)
         | Inr delivery \<Rightarrow> consume_delivery c cn acknowledge i delivery"
    let ?h = "ret (False, Some (Err ''receive failed''))"
    have run: "ConsumeNext c cn pull acknowledge i w = remote pull ?h ?answer v"
      using Inr ready by (simp add: ConsumeNext_def and_then_def)
    show thesis
    proof (cases rule: remote_run[of pull ?h ?answer v])
      case (failed u)
      then show thesis
        using run ready by (intro idle[of "(False, Some (Err ''receive failed''))" u]) (simp_all add: ret_def)
    next
      case (answered u)
      then show thesis
        using run ready by (cases "fst (pull (outside w))") (auto simp: ret_def split: if_splits intro: idle delivered)
    qed
  qed
qed

lemma ConsumeNext_run:
  assumes inv: "consume_inv (durable w)"
  shows "case ConsumeNext c cn pull acknowledge i w of (r, w') \<Rightarrow>
    consume_step c cn pull acknowledge i (outside w, durable w) (outside w', durable w') \<and>
    (r = (True, None) \<longrightarrow> acknowledged_step c cn pull acknowledge i (outside w, durable w) (outside w', durable w')) \<and>
    (\<not> fst r \<longrightarrow> durable w' = durable w)"
proof (cases rule: ConsumeNext_cases[of c cn pull acknowledge i w])
  case (idle r w')
  then show ?thesis
    by (auto simp: consume_step_def)
next
  case (delivered delivery v)
  then have "consume_inv (durable v)"
    using inv by simp
  from consume_delivery_run[OF this, where c = c and cn = cn and acknowledge = acknowledge and i = i and delivery = delivery]
  show ?thesis
    using delivered by (auto simp: consume_step_def acknowledged_step_def split: prod.splits if_splits)
qed

subsection \<open>The loop\<close>

text \<open>A stored result is genuine when its message verifies under the key of the pool of its job, which is
  the job that the message names with the snapshot that was dispatched.\<close>

definition genuine :: "primitives \<Rightarrow> database \<Rightarrow> health_check_row \<Rightarrow> bool" where
  "genuine c db row \<longleftrightarrow>
     (\<exists>body keyID j p result. j \<in> set (check_jobs db) \<and> cj_id j = rt_JobID result \<and>
        p \<in> set (worker_pools db) \<and> wp_id p = cj_worker_pool_id j \<and>
        VerifyResult c body (result_public_key keyID p db) = Inr result \<and>
        rt_SnapshotHash result = hex_encode (cj_snapshot_hash j) \<and>
        hc_job_id row = rt_JobID result \<and> hc_result_id row = Some (rt_ResultID result) \<and>
        hc_succeeded row = rt_Succeeded result \<and> hc_monitor_id row = cj_monitor_id j)"

definition ledger_step :: "primitives \<Rightarrow> database \<Rightarrow> database \<Rightarrow> bool" where
  "ledger_step c db db' \<longleftrightarrow>
     worker_pools db' = worker_pools db \<and> worker_pool_credentials db' = worker_pool_credentials db \<and>
     (\<forall>j'\<in>set (check_jobs db'). \<exists>j\<in>set (check_jobs db). cj_id j = cj_id j' \<and> cj_worker_pool_id j = cj_worker_pool_id j' \<and>
        cj_snapshot_hash j = cj_snapshot_hash j' \<and> cj_monitor_id j = cj_monitor_id j') \<and>
     (\<exists>new. health_checks db' = health_checks db @ new \<and> (\<forall>row\<in>set new. genuine c db row))"

lemma ledger_step_refl: "ledger_step c db db"
  by (auto simp: ledger_step_def)

lemma genuine_before:
  assumes "ledger_step c db db'" "genuine c db' row"
  shows "genuine c db row"
proof -
  obtain body keyID j p result where g: "j \<in> set (check_jobs db')" "cj_id j = rt_JobID result" "p \<in> set (worker_pools db')"
    "wp_id p = cj_worker_pool_id j" "VerifyResult c body (result_public_key keyID p db') = Inr result"
    "rt_SnapshotHash result = hex_encode (cj_snapshot_hash j)" "hc_job_id row = rt_JobID result"
    "hc_result_id row = Some (rt_ResultID result)" "hc_succeeded row = rt_Succeeded result" "hc_monitor_id row = cj_monitor_id j"
    using assms(2) unfolding genuine_def by blast
  obtain k where "k \<in> set (check_jobs db)" "cj_id k = cj_id j" "cj_worker_pool_id k = cj_worker_pool_id j"
    "cj_snapshot_hash k = cj_snapshot_hash j" "cj_monitor_id k = cj_monitor_id j"
    using assms(1) g(1) unfolding ledger_step_def by blast
  moreover have "result_public_key keyID p db' = result_public_key keyID p db" "p \<in> set (worker_pools db)"
    using assms(1) g(3) by (simp_all add: ledger_step_def result_public_key_def credential_key_def)
  ultimately show ?thesis
    using g unfolding genuine_def by metis
qed

lemma ledger_step_trans:
  assumes "ledger_step c a b" "ledger_step c b d"
  shows "ledger_step c a d"
proof -
  obtain new new' where "health_checks b = health_checks a @ new" "\<forall>row\<in>set new. genuine c a row"
    "health_checks d = health_checks b @ new'" "\<forall>row\<in>set new'. genuine c b row"
    using assms by (auto simp: ledger_step_def)
  then have "health_checks d = health_checks a @ (new @ new')" "\<forall>row\<in>set (new @ new'). genuine c a row"
    using genuine_before[OF assms(1)] by auto
  moreover have "\<forall>j'\<in>set (check_jobs d). \<exists>j\<in>set (check_jobs a). cj_id j = cj_id j' \<and> cj_worker_pool_id j = cj_worker_pool_id j' \<and>
      cj_snapshot_hash j = cj_snapshot_hash j' \<and> cj_monitor_id j = cj_monitor_id j'"
    using assms unfolding ledger_step_def by metis
  ultimately show ?thesis
    using assms unfolding ledger_step_def by auto
qed

lemma consumed_ledger_step:
  assumes "consumed c cn i body peeked db d" "PeekResult c body = Inr peeked"
  shows "ledger_step c db d"
proof -
  obtain job result where job: "LockResultCheckJob (rt_ResultKeyID peeked) (rt_JobID peeked) db = Inr (Some job, db)"
    and result: "verified_result c body job (ci_now i) = Some result"
    and outcome: "accepted_into i job result db d \<or> d = repaired (rt_JobID result) db \<or> conflict_into c cn i body result db d"
    using assms(1) unfolding consumed_def by blast
  note v = verified_resultD[OF result]
  have peeked: "peeked = result"
    using v(1) assms(2) by simp
  obtain j p where j: "j \<in> set (check_jobs db)" "cj_id j = rt_JobID peeked" "p \<in> set (worker_pools db)"
    "wp_id p = cj_worker_pool_id j" "job = locked_of (rt_ResultKeyID peeked) j p db"
    using job by (rule LockResultCheckJob_job)
  have genuine: "genuine c db (accepted_check job result)"
    unfolding genuine_def using j v peeked
    by (intro exI[of _ body] exI[of _ "rt_ResultKeyID peeked"] exI[of _ j] exI[of _ p] exI[of _ result])
      (simp add: locked_of_def accepted_check_def)
  from outcome show ?thesis
  proof (elim disjE)
    assume "accepted_into i job result db d"
    then have d: "check_jobs d = check_jobs (ledger_completed job result db)" "worker_pools d = worker_pools db"
      "worker_pool_credentials d = worker_pool_credentials db" "health_checks d = health_checks db @ [accepted_check job result]"
      by (simp_all add: accepted_into_def evaluation_frame_def add_check_def ledger_completed_def)
    then show ?thesis
      using genuine by (auto simp: ledger_step_def ledger_completed_def update_where_def complete_job_def)
  qed (auto simp: ledger_step_def repaired_def conflict_into_def)
qed

lemma ConsumeNext_ledger:
  assumes "consume_inv (durable w)"
  shows "case ConsumeNext c cn pull acknowledge i w of (r, w') \<Rightarrow> consume_inv (durable w') \<and> ledger_step c (durable w) (durable w')"
proof -
  have "consume_inv db' \<and> ledger_step c (durable w) db'"
    if "consume_step c cn pull acknowledge i (outside w, durable w) (x', db')" for x' db'
  proof -
    note step = that
    consider "db' = durable w" | delivery peeked where "peeked_delivery c delivery = Some peeked"
      "consumed c cn i (rd_Body delivery) peeked (durable w) db'"
      using step by (auto simp: consume_step_def)
    then show ?thesis
    proof cases
      case 1
      with assms show ?thesis by (simp add: ledger_step_refl)
    next
      case 2
      then have "PeekResult c (rd_Body delivery) = Inr peeked"
        by (auto simp: peeked_delivery_def split: sum.splits if_splits)
      with 2(2) show ?thesis
        using consumed_ledger_step consume_inv_consumed[OF assms] by blast
    qed
  qed
  then show ?thesis
    using ConsumeNext_run[OF assms, of c cn pull acknowledge i] by (auto split: prod.splits)
qed

lemma runConsumer_ledger:
  assumes "consume_inv (durable w)"
  shows "case runConsumer c cn pull acknowledge inputs w of (rs, w') \<Rightarrow>
    consume_inv (durable w') \<and> ledger_step c (durable w) (durable w')"
  using assms
proof (induction inputs arbitrary: w)
  case Nil
  then show ?case by (simp add: ret_def ledger_step_refl)
next
  case (Cons i inputs)
  obtain r v where v: "ConsumeNext c cn pull acknowledge i w = (r, v)"
    by (cases "ConsumeNext c cn pull acknowledge i w")
  with ConsumeNext_ledger[OF Cons.prems, of c cn pull acknowledge i]
  have inv: "consume_inv (durable v)" and step: "ledger_step c (durable w) (durable v)"
    by simp_all
  obtain rs u where u: "runConsumer c cn pull acknowledge inputs v = (rs, u)"
    by (cases "runConsumer c cn pull acknowledge inputs v")
  with Cons.IH[OF inv] have "consume_inv (durable u)" "ledger_step c (durable v) (durable u)"
    by simp_all
  with v u step show ?case
    by (auto simp: and_then_def ret_def intro: ledger_step_trans)
qed

text \<open>C26: a result is recorded before it is acknowledged.  Whatever round trip to the database or to the
  queue fails, one call leaves the database and the queue as they were (but for a received message),
  or consumes the received delivery in one piece: it is accepted, or recognised as the stored result
  of its job, or put into quarantine as a conflict.  Only a consumed delivery is ever acknowledged, a
  reported success means that it was, and the results, their evaluations and the incidents stay
  consistent.\<close>

theorem ConsumeNext_records_before_acknowledging:
  assumes "consume_inv (durable w)"
  shows "case ConsumeNext c cn pull acknowledge i w of (r, w') \<Rightarrow>
    consume_inv (durable w') \<and>
    consume_step c cn pull acknowledge i (outside w, durable w) (outside w', durable w') \<and>
    (r = (True, None) \<longrightarrow> acknowledged_step c cn pull acknowledge i (outside w, durable w) (outside w', durable w')) \<and>
    (\<not> fst r \<longrightarrow> durable w' = durable w)"
  using ConsumeNext_run[OF assms, of c cn pull acknowledge i] ConsumeNext_ledger[OF assms, of c cn pull acknowledge i]
  by (auto split: prod.splits)

text \<open>C27: however the loop of the consumer is interrupted and whatever the queue delivers, every job keeps
  at most one accepted result and the first one stays: the loop only appends results of jobs that have
  none, and each of them verifies under a key of the worker pool that the job was dispatched to.\<close>

theorem runConsumer_first_result_stays:
  assumes "consume_inv (durable w)"
  shows "case runConsumer c cn pull acknowledge inputs w of (rs, w') \<Rightarrow>
    consume_inv (durable w') \<and> distinct (map hc_job_id (health_checks (durable w'))) \<and>
    (\<exists>new. health_checks (durable w') = health_checks (durable w) @ new \<and> (\<forall>row\<in>set new. genuine c (durable w) row))"
  using runConsumer_ledger[OF assms, of c cn pull acknowledge inputs]
  by (auto simp: ledger_step_def consume_inv_def results_wf_def split: prod.splits)


subsection \<open>Runs without faults\<close>

lemma consume_delivery_calm:
  fixes v :: "(database, 'x) world"
  assumes "faults v = []" "peeked_delivery c delivery = Some peeked"
    and y: "yields (settled (consume_fragment c cn i (rd_Body delivery) peeked) :: (database, 'x, go_error option, go_error, unit) fragment) (durable v) Q"
  obtains w' where "consume_delivery c cn acknowledge i delivery v = ((True, fst (acknowledge delivery (outside v))), w')"
    "outside w' = snd (acknowledge delivery (outside v))" "Q () (durable w')"
proof -
  let ?tx = "transaction Some (\<lambda>_. None) (consume_fragment c cn i (rd_Body delivery) peeked)"
  have "case ?tx v of (r, u) \<Rightarrow> r = None \<and> Q () (durable u) \<and> outside u = outside v \<and> faults u = []"
    unfolding transaction_settled[of Some _ "consume_fragment c cn i (rd_Body delivery) peeked"]
    by (rule transactionI[OF y]) (use assms(1) in auto)
  then obtain u where u: "?tx v = (None, u)" "Q () (durable u)" "outside u = outside v" "faults u = []"
    by (cases "?tx v") auto
  then have "next_fault u = Fine"
    by simp
  then have "consume_delivery c cn acknowledge i delivery v = ((True, fst (acknowledge delivery (outside v))),
      (pop_fault u)\<lparr>outside := snd (acknowledge delivery (outside v))\<rparr>)"
    using assms(2) u by (simp add: consume_delivery_def and_then_def remote_def ret_def Let_def case_prod_beta)
  then show thesis
    by (rule that) (use u in simp_all)
qed

lemma ConsumeNext_calm:
  fixes w :: "(database, 'x) world"
  assumes "faults w = []" "pull (outside w) = (Inr delivery, x)" "peeked_delivery c delivery = Some peeked"
    and y: "yields (settled (consume_fragment c cn i (rd_Body delivery) peeked) :: (database, 'x, go_error option, go_error, unit) fragment) (durable w) Q"
  shows "case ConsumeNext c cn pull acknowledge i w of (r, w') \<Rightarrow>
    r = (True, fst (acknowledge delivery x)) \<and> outside w' = snd (acknowledge delivery x) \<and> Q () (durable w')"
proof -
  obtain r v where ready: "databaseReady w = (r, v)" "durable v = durable w" "outside v = outside w" "r = Inr True" "faults v = []"
    using databaseReady_run[of w] assms(1) by metis
  let ?u = "(pop_fault v)\<lparr>outside := x\<rparr>"
  have run: "ConsumeNext c cn pull acknowledge i w = consume_delivery c cn acknowledge i delivery ?u"
    using ready assms(2) by (simp add: ConsumeNext_def and_then_def remote_def Let_def)
  show ?thesis
    by (rule consume_delivery_calm[of ?u c delivery peeked cn i Q acknowledge])
      (use assms ready y run in auto)
qed

lemma consume_fragment_known:
  assumes "LockResultCheckJob (rt_ResultKeyID peeked) (rt_JobID peeked) db = Inr (Some job, db)"
    "verified_result c body job (ci_now i) = Some result"
    "ends_in (settled (record_result c cn i body job result) :: (database, 'x, 'r, go_error, unit) fragment) db E Q"
  shows "ends_in (settled (consume_fragment c cn i body peeked) :: (database, 'x, 'r, go_error, unit) fragment) db E Q"
  unfolding consume_fragment_def[abs_def] settled_query
  by (rule ends_query[where s = "LockResultCheckJob (rt_ResultKeyID peeked) (rt_JobID peeked)", OF assms(1)]) (simp add: assms(2,3))


text \<open>C29: consuming is idempotent.  When a delivery of an accepted result arrives again, it is acknowledged
  and nothing changes but the dispatch of its job, which needs no repair any more.\<close>

theorem ConsumeNext_repeated_delivery:
  fixes w :: "(database, 'x) world"
  assumes "faults w = []" "pull (outside w) = (Inr delivery, x)" "peeked_delivery c delivery = Some peeked"
    and "LockResultCheckJob (rt_ResultKeyID peeked) (rt_JobID peeked) (durable w) = Inr (Some job, durable w)"
    and "verified_result c (rd_Body delivery) job (ci_now i) = Some result"
    and "stored_result result (durable w)"
  shows "case ConsumeNext c cn pull acknowledge i w of (r, w') \<Rightarrow>
    r = (True, fst (acknowledge delivery x)) \<and> outside w' = snd (acknowledge delivery x) \<and>
    durable w' = repaired (rt_JobID result) (durable w)"
proof -
  have run: "GetAcceptedHealthCheck (rt_JobID result) (durable w) = Inr (Some e, durable w) \<and> same_accepted result e" if
    "e = (hc_snapshot_hash row, hc_execution_attempt_id row, rt_ResultID result)"
    "select_one (\<lambda>c. hc_job_id c = rt_JobID result) (health_checks (durable w)) = Some row"
    "hc_result_id row = Some (rt_ResultID result)" "hc_execution_attempt_id row = rt_AttemptID result"
    "hex_encode (hc_snapshot_hash row) = rt_SnapshotHash result" for e row
    using that by (simp add: GetAcceptedHealthCheck_def same_accepted_def)
  obtain e where e: "GetAcceptedHealthCheck (rt_JobID result) (durable w) = Inr (Some e, durable w)" "same_accepted result e"
    using assms(6) run unfolding stored_result_def by blast
  have "yields (settled (\<lambda>h k. ignoring (MarkDispatchRepaired (rt_JobID result)) (k ())) :: (database, 'x, go_error option, go_error, unit) fragment) (durable w)
      (\<lambda>_ d. d = repaired (rt_JobID result) (durable w))"
    unfolding settled_ignoring
    by (rule ends_ignored[where d' = "repaired (rt_JobID result) (durable w)" and a = "()"])
      (auto simp: MarkDispatchRepaired_def writing_def repaired_def aborts_settled_end intro!: ends_settled ends_done)
  then have "yields (settled (record_result c cn i (rd_Body delivery) job result) :: (database, 'x, go_error option, go_error, unit) fragment) (durable w)
      (\<lambda>_ d. d = repaired (rt_JobID result) (durable w))"
    unfolding record_result_def[abs_def] settled_query
    by (intro ends_query[where s = "GetAcceptedHealthCheck (rt_JobID result)", OF e(1)]) (simp add: e(2))
  then show ?thesis
    by (intro ConsumeNext_calm[where pull = pull and w = w and x = x, OF assms(1-3)] consume_fragment_known[OF assms(4,5)])
qed

subsection \<open>A repeated conflict\<close>

lemma record_conflict_again:
  assumes "exists_where (quarantined_result (rt_ResultID result)) (monitoring_quarantine db)"
  shows "ends_in (settled (record_conflict c cn i body job result)) db (\<lambda>_. True) (\<lambda>_ _. False)"
proof (cases "Seal c (ci_nonce i) (cn_sealer cn) body (conflict_aad result)")
  case (Inl e)
  show ?thesis
    by (rule ends_settled) (unfold record_conflict_def[abs_def] Inl sum.case, rule ends_fail, simp)
next
  case seal: (Inr encrypted)
  let ?s = "InsertResultConflict \<lparr>rc_job_id = rt_JobID result, rc_result_id = rt_ResultID result,
      rc_worker_pool_id = lj_WorkerPoolID job, rc_snapshot_hash = lj_SnapshotHash job,
      rc_safe_reason = ''conflicting valid result'', rc_encrypted_payload = encrypted\<rparr>"
  let ?q = "InsertConflictingResultQuarantine (rt_JobID result) (rt_ResultID result) (lj_WorkerPoolID job) (lj_SnapshotHash job) encrypted"
  have again: "\<exists>e. ?q (db\<lparr>check_result_conflicts := X\<rparr>) = Inl e" for X
    using assms by (auto simp: InsertConflictingResultQuarantine_def Let_def)
  consider (bad) e where "?s db = Inl e" | (good) X where "?s db = Inr ((), db\<lparr>check_result_conflicts := X\<rparr>)"
  proof (cases "?s db")
    case (Inr v)
    then show thesis
      by (rule InsertResultConflict_result) (use Inr good in auto)
  qed (rule bad)
  then show ?thesis
  proof cases
    case bad
    then show ?thesis
      unfolding record_conflict_def[abs_def] seal sum.case settled_ignoring
      by (rule ends_ignored_violation[where s = ?s, OF _ aborts_ignored[OF aborts_ignored[OF aborts_settled_end]]])
  next
    case good
    obtain e where "?q (db\<lparr>check_result_conflicts := X\<rparr>) = Inl e"
      using again by blast
    then show ?thesis
      unfolding record_conflict_def[abs_def] seal sum.case settled_ignoring
      by (intro ends_ignored[where s = ?s, OF good _ aborts_ignored[OF aborts_ignored[OF aborts_settled_end]]]
          ends_ignored_violation[where s = ?q, OF _ aborts_ignored[OF aborts_settled_end]])
  qed
qed

lemma record_result_conflict:
  assumes "rt_JobID result \<in> hc_job_id ` set (health_checks db)" "\<not> stored_result result db"
    and "ends_in (settled (record_conflict c cn i body job result) :: (database, 'x, 'r, go_error, unit) fragment) db (\<lambda>_. True) Q"
  shows "ends_in (settled (record_result c cn i body job result) :: (database, 'x, 'r, go_error, unit) fragment) db (\<lambda>_. True) Q"
proof -
  let ?s = "GetAcceptedHealthCheck (rt_JobID result)"
  obtain row where row: "select_one (\<lambda>x. hc_job_id x = rt_JobID result) (health_checks db) = Some row"
    using assms(1) by (cases "select_one (\<lambda>x. hc_job_id x = rt_JobID result) (health_checks db)") (auto simp: select_one_None)
  show ?thesis
  proof (cases "hc_result_id row")
    case None
    with row show ?thesis
      unfolding record_result_def[abs_def] settled_query
      by (intro ends_violation[where s = ?s]) (simp_all add: GetAcceptedHealthCheck_def)
  next
    case (Some r)
    let ?e = "(hc_snapshot_hash row, hc_execution_attempt_id row, r)"
    have "\<not> same_accepted result ?e"
      using row Some assms(2) by (auto simp: same_accepted_def stored_result_def)
    moreover have "?s db = Inr (Some ?e, db)"
      using row Some by (simp add: GetAcceptedHealthCheck_def)
    ultimately show ?thesis
      unfolding record_result_def[abs_def] settled_query
      by (intro ends_query[where s = ?s]) (use assms(3) in auto)
  qed
qed

lemma consume_delivery_refused:
  fixes v :: "(database, 'x) world"
  assumes "peeked_delivery c delivery = Some peeked"
    and y: "ends_in (settled (consume_fragment c cn i (rd_Body delivery) peeked) :: (database, 'x, go_error option, go_error, unit) fragment)
      (durable v) (\<lambda>_. True) (\<lambda>_ _. False)"
  obtains e w' where "consume_delivery c cn acknowledge i delivery v = ((True, Some e), w')" "durable w' = durable v" "outside w' = outside v"
proof -
  let ?tx = "transaction Some (\<lambda>_. None) (consume_fragment c cn i (rd_Body delivery) peeked)"
  have "case ?tx v of (r, u) \<Rightarrow> r \<noteq> None \<and> durable u = durable v \<and> outside u = outside v"
    unfolding transaction_settled[of Some _ "consume_fragment c cn i (rd_Body delivery) peeked"]
    by (rule transactionI[OF y]) auto
  then obtain e u where "?tx v = (Some e, u)" "durable u = durable v" "outside u = outside v"
    by (cases "?tx v") auto
  then show thesis
    using assms(1) by (intro that[of e u]) (simp_all add: consume_delivery_def and_then_def ret_def)
qed

text \<open>C30: a conflict can be recorded once only.  When the acknowledgement of a quarantined conflict is
  lost and the message is delivered again, its insertion into the quarantine violates the unique index,
  the ignored error has aborted the transaction, and so the commit fails: whatever happens the call
  reports an error, changes nothing and never acknowledges the message.\<close>

theorem ConsumeNext_conflict_never_acknowledged:
  fixes w :: "(database, 'x) world"
  assumes "pull (outside w) = (Inr delivery, x)" "peeked_delivery c delivery = Some peeked"
    and "LockResultCheckJob (rt_ResultKeyID peeked) (rt_JobID peeked) (durable w) = Inr (Some job, durable w)"
    and "verified_result c (rd_Body delivery) job (ci_now i) = Some result"
    and "rt_JobID result \<in> hc_job_id ` set (health_checks (durable w))" "\<not> stored_result result (durable w)"
    and "exists_where (quarantined_result (rt_ResultID result)) (monitoring_quarantine (durable w))"
  shows "case ConsumeNext c cn pull acknowledge i w of (r, w') \<Rightarrow>
    snd r \<noteq> None \<and> durable w' = durable w \<and> outside w' \<in> {outside w, x}"
proof -
  have "ends_in (settled (record_result c cn i (rd_Body delivery) job result) :: (database, 'x, go_error option, go_error, unit) fragment)
      (durable w) (\<lambda>_. True) (\<lambda>_ _. False)"
    by (rule record_result_conflict[OF assms(5,6)]) (rule record_conflict_again[OF assms(7)])
  then have y: "ends_in (settled (consume_fragment c cn i (rd_Body delivery) peeked) :: (database, 'x, go_error option, go_error, unit) fragment)
      (durable w) (\<lambda>_. True) (\<lambda>_ _. False)"
    by (rule consume_fragment_known[OF assms(3,4)])
  show ?thesis
  proof (cases rule: ConsumeNext_cases[of c cn pull acknowledge i w])
    case (idle r w')
    with assms(1) show ?thesis by auto
  next
    case (delivered d v)
    then have d: "d = delivery" "durable v = durable w" "outside v = x"
      using assms(1) by simp_all
    obtain e w' where "consume_delivery c cn acknowledge i delivery v = ((True, Some e), w')" "durable w' = durable v" "outside w' = outside v"
      by (rule consume_delivery_refused[OF assms(2), where v = v]) (use y d in simp_all)
    with delivered d show ?thesis by simp
  qed
qed

subsection \<open>A concrete delivery\<close>

definition sample_delivery :: ResultDelivery where
  "sample_delivery = \<lparr>rd_Body = ''signed'', rd_Attributes = ResultAttributes sample_result, rd_Receipt = ''t'', rd_ReceiveCount = 1\<rparr>"

definition sample_job_row :: check_job_row where
  "sample_job_row = \<lparr>cj_id = ''j'', cj_organization_id = ''o'', cj_environment_id = ''e'', cj_monitor_id = ''m'',
     cj_job_type = ''scheduled'', cj_state = ''published'', cj_scheduled_at = minute, cj_monitor_version = 1,
     cj_worker_pool_id = ''p'', cj_snapshot_hash = replicate 32 (CHR 0x00), cj_expires_at = 180000000000, cj_started_at = None,
     cj_completed_at = None, cj_worker_id = None, cj_execution_attempt_id = None, cj_sqs_message_id = None,
     cj_last_safe_error = None, cj_created_at = minute\<rparr>"

definition sample_signing_pool :: worker_pool_row where
  "sample_signing_pool = sample_pool\<lparr>wp_result_key_id := Some ''q'', wp_result_public_key := Some (replicate 32 CHR ''k'')\<rparr>"

definition sample_inputs :: consume_inputs where
  "sample_inputs = \<lparr>ci_ts = 120000000000, ci_now = 120000000000, ci_evaluatedAt = 120000000000, ci_nonce = Some (replicate 12 CHR ''n'')\<rparr>"

definition sample_results :: "health_check_row list \<Rightarrow> quarantine_row list \<Rightarrow> database" where
  "sample_results checks quarantine = (empty_database sample_uuid)\<lparr>monitors := [Scheduler.sample_monitor],
     worker_pools := [sample_signing_pool], check_jobs := [sample_job_row], health_checks := checks,
     monitoring_quarantine := quarantine\<rparr>"

definition sample_locked :: locked_job where
  "sample_locked = locked_of ''q'' sample_job_row sample_signing_pool (sample_results [] [])"

text \<open>A queue that holds the deliveries still to come and the receipts of the acknowledged ones.\<close>

type_synonym sample_queue = "ResultDelivery list \<times> string list"

definition sample_pull :: "sample_queue \<Rightarrow> (go_error + ResultDelivery) \<times> sample_queue" where
  "sample_pull q = (case fst q of [] \<Rightarrow> (Inl ErrNoMessage, q) | d # ds \<Rightarrow> (Inr d, (ds, snd q)))"

definition sample_acknowledge :: "ResultDelivery \<Rightarrow> sample_queue \<Rightarrow> go_error option \<times> sample_queue" where
  "sample_acknowledge d q = (None, (fst q, rd_Receipt d # snd q))"

definition sample_consumer :: ResultConsumer where
  "sample_consumer = \<lparr>cn_sealer = Some (replicate 32 CHR ''s'')\<rparr>"

lemma sample_inj: "inj sample_uuid"
  by (auto simp: inj_def sample_uuid_def)

lemma sample_results_sel [simp]:
  "monitors (sample_results cs qs) = [Scheduler.sample_monitor]" "worker_pools (sample_results cs qs) = [sample_signing_pool]"
  "check_jobs (sample_results cs qs) = [sample_job_row]" "health_checks (sample_results cs qs) = cs"
  "monitoring_quarantine (sample_results cs qs) = qs" "worker_pool_credentials (sample_results cs qs) = []"
  by (simp_all add: sample_results_def empty_database_def)

lemma sample_job_row_sel [simp]:
  "cj_id sample_job_row = ''j''" "cj_worker_pool_id sample_job_row = ''p''" "cj_scheduled_at sample_job_row = minute"
  "wp_id sample_signing_pool = ''p''"
  by (simp_all add: sample_job_row_def sample_signing_pool_def sample_pool_def)

lemma sample_results_inv:
  "consume_inv (sample_results [] qs)" "consume_inv (sample_results [accepted_check sample_locked sample_result] qs)"
proof -
  have "databaseTimestamp minute = minute"
    by (rule databaseTimestamp_fixed) simp
  moreover have "incident_inv (sample_results cs qs)" for cs
    using sample_inj by (simp add: incident_inv_def enqueue_inv_def outbox_inv_def deliveries_drawn_def incidents_ok_def timeline_ok_def
        sample_results_def empty_database_def)
  ultimately show "consume_inv (sample_results [] qs)" "consume_inv (sample_results [accepted_check sample_locked sample_result] qs)"
    by (simp_all add: consume_inv_def results_wf_def) (simp_all add: sample_results_def empty_database_def sample_result_def)
qed

lemma sample_peeked: "peeked_delivery sample_primitives sample_delivery = Some sample_result"
  by (simp add: peeked_delivery_def sample_delivery_def PeekResult_def sample_primitives_def MaxMessageBytes_def delivery_matches_def
      ResultAttributes_def) (simp add: validateResult_def SupportsSchema_def SchemaVersion_def sample_result_def)

lemma sample_lock:
  "LockResultCheckJob (rt_ResultKeyID sample_result) (rt_JobID sample_result) (sample_results cs qs) =
     Inr (Some sample_locked, sample_results cs qs)"
  by (simp add: LockResultCheckJob_def reading_def select_one_def sample_result_def sample_locked_def locked_of_def
      result_public_key_def credential_key_def last_by_def)

lemma sample_verified: "verified_result sample_primitives ''signed'' sample_locked (ci_now sample_inputs) = Some sample_result"
proof -
  have key: "lj_ResultPublicKey sample_locked = replicate 32 CHR ''k''"
    by (simp add: sample_locked_def locked_of_def result_public_key_def credential_key_def last_by_def sample_signing_pool_def coalesce_empty_def)
  have peek: "PeekResult sample_primitives ''signed'' = Inr sample_result"
    using sample_peeked by (simp add: peeked_delivery_def sample_delivery_def split: sum.splits if_splits)
  have "VerifyResult sample_primitives ''signed'' (replicate 32 CHR ''k'') = Inr sample_result"
    unfolding VerifyResult_def peek by (simp add: sample_primitives_def)
  moreover have "hex_encode (replicate 32 (CHR 0x00)) = replicate 64 CHR ''0''"
    by code_simp
  ultimately show ?thesis
    unfolding verified_result_def key
    by (simp add: sample_locked_def locked_of_def sample_job_row_def sample_result_def sample_inputs_def)
qed


theorem ConsumeNext_records_before_acknowledging_witness:
  "case ConsumeNext sample_primitives sample_consumer sample_pull sample_acknowledge sample_inputs
      (world_with (sample_results [] []) [Fine, Fine, Fine, Fine, Fine, Refused] ([sample_delivery], [])) of (r, w') \<Rightarrow>
    consume_inv (durable w') \<and> (\<not> fst r \<longrightarrow> health_checks (durable w') = [])"
  using ConsumeNext_records_before_acknowledging[where c = sample_primitives and cn = sample_consumer and pull = sample_pull
      and acknowledge = sample_acknowledge and i = sample_inputs
      and w = "world_with (sample_results [] []) [Fine, Fine, Fine, Fine, Fine, Refused] ([sample_delivery], [])"]
    sample_results_inv(1)
  by (auto split: prod.splits)

theorem runConsumer_first_result_stays_witness:
  "case runConsumer sample_primitives sample_consumer sample_pull sample_acknowledge [sample_inputs, sample_inputs]
      (world_with (sample_results [accepted_check sample_locked sample_result] []) [Fine, Lost_Reply]
        ([sample_delivery, sample_delivery], [])) of (rs, w') \<Rightarrow>
    \<exists>new. health_checks (durable w') = accepted_check sample_locked sample_result # new"
  using runConsumer_first_result_stays[where c = sample_primitives and cn = sample_consumer and pull = sample_pull
      and acknowledge = sample_acknowledge and inputs = "[sample_inputs, sample_inputs]"
      and w = "world_with (sample_results [accepted_check sample_locked sample_result] []) [Fine, Lost_Reply]
        ([sample_delivery, sample_delivery], [])"]
    sample_results_inv(2)
  by (auto split: prod.splits)


lemma sample_stored: "stored_result sample_result (sample_results [accepted_check sample_locked sample_result] qs)"
proof -
  have "hex_encode (replicate 32 (CHR 0x00)) = replicate 64 CHR ''0''"
    by code_simp
  then show ?thesis
    by (simp add: stored_result_def select_one_def) (simp add: sample_locked_def locked_of_def sample_job_row_def sample_result_def)
qed

theorem ConsumeNext_repeated_delivery_witness:
  "case ConsumeNext sample_primitives sample_consumer sample_pull sample_acknowledge sample_inputs
      (world_with (sample_results [accepted_check sample_locked sample_result] []) [] ([sample_delivery], [])) of (r, w') \<Rightarrow>
    r = (True, None) \<and> outside w' = ([], [''t'']) \<and>
    health_checks (durable w') = [accepted_check sample_locked sample_result]"
proof -
  let ?w = "world_with (sample_results [accepted_check sample_locked sample_result] []) [] ([sample_delivery], []) :: (database, sample_queue) world"
  have "case ConsumeNext sample_primitives sample_consumer sample_pull sample_acknowledge sample_inputs ?w of (r, w') \<Rightarrow>
    r = (True, fst (sample_acknowledge sample_delivery ([], []))) \<and> outside w' = snd (sample_acknowledge sample_delivery ([], [])) \<and>
    durable w' = repaired (rt_JobID sample_result) (durable ?w)"
    by (rule ConsumeNext_repeated_delivery[where peeked = sample_result])
      (use sample_peeked sample_lock sample_verified sample_stored in \<open>simp_all add: sample_pull_def sample_delivery_def\<close>)
  then show ?thesis
    by (auto simp: repaired_def sample_acknowledge_def sample_delivery_def split: prod.splits)
qed

theorem ConsumeNext_conflict_never_acknowledged_witness:
  "case ConsumeNext sample_primitives sample_consumer sample_pull sample_acknowledge sample_inputs
      (world_with (sample_results [accepted_check sample_locked (sample_result\<lparr>rt_ResultID := ''other''\<rparr>)]
        [quarantine_row_of ''i'' None (Some ''r'') None None ''conflicting valid result'' ''x'']) [] ([sample_delivery], [])) of (r, w') \<Rightarrow>
    snd r \<noteq> None \<and> snd (outside w') = []"
proof -
  let ?cs = "[accepted_check sample_locked (sample_result\<lparr>rt_ResultID := ''other''\<rparr>)]"
  let ?qs = "[quarantine_row_of ''i'' None (Some ''r'') None None ''conflicting valid result'' ''x'']"
  let ?w = "world_with (sample_results ?cs ?qs) [] ([sample_delivery], []) :: (database, sample_queue) world"
  have "\<not> stored_result sample_result (sample_results ?cs ?qs)"
    by (simp add: stored_result_def select_one_def) (simp add: sample_result_def)
  moreover have "exists_where (quarantined_result (rt_ResultID sample_result)) ?qs"
    by (simp add: exists_where_def quarantined_result_def quarantine_row_of_def sample_result_def)
  ultimately have "case ConsumeNext sample_primitives sample_consumer sample_pull sample_acknowledge sample_inputs ?w of (r, w') \<Rightarrow>
    snd r \<noteq> None \<and> durable w' = durable ?w \<and> outside w' \<in> {outside ?w, ([], [])}"
    by (intro ConsumeNext_conflict_never_acknowledged[where peeked = sample_result and job = sample_locked
          and delivery = sample_delivery and result = sample_result])
      (use sample_peeked sample_lock sample_verified in \<open>simp_all add: sample_pull_def sample_delivery_def\<close>)
  then show ?thesis
    by (auto split: prod.splits)
qed

end
