(* ===== verification/Ledger.thy ===== *)
theory Ledger
  imports Consumer
begin

text \<open>
  The upkeep of the job ledger: the sweep of overdue jobs, the cleanup of old ones and the metrics in
  \<open>internal/fifo/maintenance.go\<close>, and the reconciliation of the dead-letter queues in
  \<open>internal/fifo/dlq.go\<close>, with their statements in \<open>sqlc/fifo.sql.go\<close> and the loop of
  \<open>cmd/monitor-engine\<close>.  The dead-letter queues are functions on the state of the remote services.
\<close>

subsection \<open>Statements\<close>









definition count_jobs :: "string list \<Rightarrow> database \<Rightarrow> int" where
  "count_jobs states db = int (count_where (\<lambda>j. cj_state j \<in> set states) (check_jobs db))"

definition GetCheckJobStateCounts :: "(int \<times> int \<times> int \<times> int \<times> int) sql" where
  "GetCheckJobStateCounts = reading (\<lambda>db.
     (count_jobs [''pending'', ''pending_publish''] db, count_jobs [''published''] db, count_jobs [''running''] db,
      count_jobs [''dead''] db, count_jobs [''expired''] db))"

definition count_dispatches :: "string list \<Rightarrow> database \<Rightarrow> int" where
  "count_dispatches states db = int (count_where (\<lambda>r. do_publish_state r \<in> set states) (check_dispatch_outbox db))"

definition GetDispatchStateCounts :: "(int \<times> int) sql" where
  "GetDispatchStateCounts = reading (\<lambda>db. (count_dispatches [''pending'', ''publishing''] db, count_dispatches [''ambiguous''] db))"

definition GetOldestNonterminalDispatch :: "time option sql" where
  "GetOldestNonterminalDispatch = reading (\<lambda>db. map_option do_created_at
     (first_by do_created_at (\<lambda>r. do_publish_state r \<in> set [''pending'', ''publishing'', ''ambiguous'']) (check_dispatch_outbox db)))"

definition GetOldestActiveCheckJob :: "time option sql" where
  "GetOldestActiveCheckJob = reading (\<lambda>db. map_option cj_created_at
     (first_by cj_created_at (\<lambda>j. active_state (cj_state j)) (check_jobs db)))"

definition dead_candidate :: "uuid \<Rightarrow> string \<Rightarrow> check_job_row \<Rightarrow> bool" where
  "dead_candidate jobID pool j \<longleftrightarrow> cj_id j = jobID \<and> cj_worker_pool_id j = pool \<and> cj_state j \<noteq> ''completed''"

definition kill_job :: "time \<Rightarrow> check_job_row \<Rightarrow> check_job_row" where
  "kill_job ts j = j\<lparr>cj_state := ''dead'', cj_completed_at := Some ts, cj_last_safe_error := Some ''job_dlq''\<rparr>"

definition MarkCheckJobDead :: "time \<Rightarrow> uuid \<Rightarrow> string \<Rightarrow> int sql" where
  "MarkCheckJobDead ts jobID pool db =
     Inr (int (count_where (dead_candidate jobID pool) (check_jobs db)),
          db\<lparr>check_jobs := update_where (dead_candidate jobID pool) (kill_job ts) (check_jobs db)\<rparr>)"

definition InsertDeadCoverageGapFromJob :: "uuid \<Rightarrow> unit sql" where
  "InsertDeadCoverageGapFromJob jobID = writing (\<lambda>db. db\<lparr>monitoring_coverage_gaps :=
     fold (add_gap \<circ> gap_of_job ''dead'') (filter (\<lambda>j. cj_id j = jobID) (check_jobs db)) (monitoring_coverage_gaps db)\<rparr>)"

definition InsertInvalidResultQuarantine :: "bytes \<Rightarrow> unit sql" where
  "InsertInvalidResultQuarantine payload db =
     (let q = quarantine_row_of (fresh_uuid db) None None None None ''invalid result DLQ envelope'' payload in
      if \<not> quarantine_columns_ok q then Inl ''monitoring_quarantine_check''
      else Inr ((), (drawn_uuid db)\<lparr>monitoring_quarantine := monitoring_quarantine db @ [q]\<rparr>))"

definition InsertResultDLQQuarantine :: "uuid \<Rightarrow> uuid \<Rightarrow> string \<Rightarrow> string \<Rightarrow> bytes \<Rightarrow> unit sql" where
  "InsertResultDLQQuarantine job result pool hash payload db =
     (case hex_decode hash of
        None \<Rightarrow> Inl ''invalid hexadecimal''
      | Some digest \<Rightarrow>
          (let q = quarantine_row_of (fresh_uuid db) (Some job) (Some result) (Some pool) (Some digest) ''result DLQ recovery'' payload in
           if \<not> quarantine_columns_ok q then Inl ''monitoring_quarantine_check''
           else if exists_where (quarantined_result result) (monitoring_quarantine db) then Inr ((), drawn_uuid db)
           else Inr ((), (drawn_uuid db)\<lparr>monitoring_quarantine := monitoring_quarantine db @ [q]\<rparr>)))"

subsection \<open>Maintenance\<close>



record Metrics =
  me_PendingJobs :: int
  me_PublishedJobs :: int
  me_RunningJobs :: int
  me_DeadJobs :: int
  me_ExpiredJobs :: int
  me_OutboxPending :: int
  me_OutboxAmbiguous :: int
  me_OldestOutboxAge :: duration
  me_OldestOutboxAgeSeconds :: int
  me_OldestNonterminalJobAgeSeconds :: int

definition no_metrics :: Metrics where
  "no_metrics = \<lparr>me_PendingJobs = 0, me_PublishedJobs = 0, me_RunningJobs = 0, me_DeadJobs = 0, me_ExpiredJobs = 0,
     me_OutboxPending = 0, me_OutboxAmbiguous = 0, me_OldestOutboxAge = 0, me_OldestOutboxAgeSeconds = 0,
     me_OldestNonterminalJobAgeSeconds = 0\<rparr>"

text \<open>The age of an entry in whole seconds, which is never negative.\<close>

definition age_seconds :: "time \<Rightarrow> time \<Rightarrow> int" where
  "age_seconds now t = max 0 (now - t) div second"

definition ReadMetrics :: "time \<Rightarrow> ('x, Metrics \<times> go_error option) handler" where
  "ReadMetrics now =
     begin_tx (\<lambda>e. ret (no_metrics, Some (Db e)))
       (query GetCheckJobStateCounts (\<lambda>e. ret (no_metrics, Some (Db e))) (\<lambda>(pending, published, running, dead, expired).
        query GetDispatchStateCounts (\<lambda>e. ret (no_metrics, Some (Db e))) (\<lambda>(outbox, ambiguous).
        let m = no_metrics\<lparr>me_PendingJobs := pending, me_PublishedJobs := published, me_RunningJobs := running, me_DeadJobs := dead,
                  me_ExpiredJobs := expired, me_OutboxPending := outbox, me_OutboxAmbiguous := ambiguous\<rparr> in
        query GetOldestNonterminalDispatch (\<lambda>e. ret (m, Some (Db e))) (\<lambda>oldest.
        let m = (case oldest of None \<Rightarrow> m
                 | Some t \<Rightarrow> m\<lparr>me_OldestOutboxAge := max 0 (now - t), me_OldestOutboxAgeSeconds := age_seconds now t\<rparr>) in
        query GetOldestActiveCheckJob (\<lambda>e. ret (m, Some (Db e))) (\<lambda>oldestJob.
        ret (case oldestJob of None \<Rightarrow> m | Some t \<Rightarrow> m\<lparr>me_OldestNonterminalJobAgeSeconds := age_seconds now t\<rparr>, None))))))"

subsection \<open>Dead letters\<close>

record DLQDelivery =
  dl_Kind :: string
  dl_Body :: string
  dl_Attributes :: Attributes
  dl_Receipt :: string

record DLQReconciler =
  dq_sealer :: "string option"

definition NewDLQReconciler :: "bool \<Rightarrow> bool \<Rightarrow> string option \<Rightarrow> go_error + DLQReconciler" where
  "NewDLQReconciler has_db has_source sealer =
     (if \<not> has_db \<or> \<not> has_source \<or> sealer = None
      then Inl (Err ''fifo: DLQ database, source, and quarantine sealer are required'')
      else Inr \<lparr>dq_sealer = sealer\<rparr>)"

definition job_dlq_fragment ::
  "time \<Rightarrow> uuid \<Rightarrow> string \<Rightarrow> (go_error \<Rightarrow> ('x, 'r) handler) \<Rightarrow> (unit \<Rightarrow> ('x, 'r) handler) \<Rightarrow> ('x, 'r) handler" where
  "job_dlq_fragment ts jobID pool h k =
     query (MarkCheckJobDead ts jobID pool) (h \<circ> Db) (\<lambda>rowsAffected.
       if rowsAffected > 0
       then ignoring (InsertDeadCoverageGapFromJob jobID)
              (ignoring (InsertMonitoringOperationalEvent ''job_dlq'' jobID pool ''job receive limit'') (k ()))
       else k ())"

definition reconcileJobDLQ :: "time \<Rightarrow> uuid \<Rightarrow> string \<Rightarrow> ('x, go_error option) handler" where
  "reconcileJobDLQ ts jobID pool = transaction Some (\<lambda>_. None) (job_dlq_fragment ts jobID pool)"

definition dlq_aad :: "Result option \<Rightarrow> string" where
  "dlq_aad peeked = (case peeked of None \<Rightarrow> ''result:invalid'' | Some result \<Rightarrow> ''result:'' @ rt_ResultID result)"

definition result_dlq_fragment ::
  "Result option \<Rightarrow> bytes \<Rightarrow> (go_error \<Rightarrow> ('x, 'r) handler) \<Rightarrow> (unit \<Rightarrow> ('x, 'r) handler) \<Rightarrow> ('x, 'r) handler" where
  "result_dlq_fragment peeked sealed h k =
     (case peeked of
        None \<Rightarrow> query (InsertInvalidResultQuarantine sealed) (h \<circ> Db) k
      | Some result \<Rightarrow>
          query (InsertResultDLQQuarantine (rt_JobID result) (rt_ResultID result) (rt_WorkerPoolID result) (rt_SnapshotHash result) sealed)
            (h \<circ> Db) (\<lambda>_.
          query (InsertMonitoringOperationalEvent ''result_dlq'' (rt_JobID result) (rt_WorkerPoolID result) ''recoverable result quarantined'')
            (h \<circ> Db) k))"

definition peeked_letter :: "primitives \<Rightarrow> DLQDelivery \<Rightarrow> Result option" where
  "peeked_letter c delivery = (case PeekResult c (dl_Body delivery) of Inl _ \<Rightarrow> None | Inr result \<Rightarrow> Some result)"

definition reconcileResultDLQ ::
  "primitives \<Rightarrow> DLQReconciler \<Rightarrow> string option \<Rightarrow> DLQDelivery \<Rightarrow> ('x, go_error option) handler" where
  "reconcileResultDLQ c r nonce delivery =
     (case Seal c nonce (dq_sealer r) (dl_Body delivery) (dlq_aad (peeked_letter c delivery)) of
        Inl e \<Rightarrow> ret (Some (quarantine_text e))
      | Inr sealed \<Rightarrow> transaction Some (\<lambda>_. None) (result_dlq_fragment (peeked_letter c delivery) sealed))"

definition record_letter ::
  "primitives \<Rightarrow> DLQReconciler \<Rightarrow> time \<Rightarrow> string option \<Rightarrow> string \<Rightarrow> DLQDelivery \<Rightarrow> ('x, go_error option) handler" where
  "record_letter c r ts nonce kind delivery =
     (if kind = ''job''
      then reconcileJobDLQ ts (at_JobID (dl_Attributes delivery)) (at_WorkerPoolID (dl_Attributes delivery))
      else reconcileResultDLQ c r nonce delivery)"

fun reconcile_kinds ::
  "primitives \<Rightarrow> DLQReconciler \<Rightarrow> (string \<Rightarrow> 'x \<Rightarrow> (go_error + DLQDelivery) \<times> 'x) \<Rightarrow> (DLQDelivery \<Rightarrow> 'x \<Rightarrow> go_error option \<times> 'x)
   \<Rightarrow> time \<Rightarrow> string option \<Rightarrow> string list \<Rightarrow> ('x, bool \<times> go_error option) handler" where
  "reconcile_kinds c r pull acknowledge ts nonce [] = ret (False, None)"
| "reconcile_kinds c r pull acknowledge ts nonce (kind # kinds) =
     remote (pull kind) (ret (False, Some (Err ''receive failed''))) (\<lambda>reply. case reply of
       Inl e \<Rightarrow> if e = ErrNoMessage then reconcile_kinds c r pull acknowledge ts nonce kinds else ret (False, Some e)
     | Inr delivery \<Rightarrow>
         and_then (record_letter c r ts nonce kind delivery) (\<lambda>failed. case failed of
           Some e \<Rightarrow> ret (True, Some e)
         | None \<Rightarrow> remote (acknowledge delivery) (ret (True, Some (Err ''delete failed''))) (\<lambda>e. ret (True, e))))"

definition ReconcileNext ::
  "primitives \<Rightarrow> DLQReconciler \<Rightarrow> (string \<Rightarrow> 'x \<Rightarrow> (go_error + DLQDelivery) \<times> 'x) \<Rightarrow> (DLQDelivery \<Rightarrow> 'x \<Rightarrow> go_error option \<times> 'x)
   \<Rightarrow> time \<Rightarrow> string option \<Rightarrow> ('x, bool \<times> go_error option) handler" where
  "ReconcileNext c r pull acknowledge ts nonce = reconcile_kinds c r pull acknowledge ts nonce [''job'', ''result'']"

definition RecordResultDLQ :: "uuid \<Rightarrow> string \<Rightarrow> ('x, go_error option) handler" where
  "RecordResultDLQ jobID pool =
     transaction Some (\<lambda>_. None) (\<lambda>h k.
       query (InsertMonitoringOperationalEvent ''result_dlq'' jobID pool ''recoverable result requires redrive'') (h \<circ> Db) k)"

text \<open>The loop of \<open>cmd/monitor-engine\<close>, one call per entry; waiting and logging are left out.\<close>

fun runDLQ ::
  "primitives \<Rightarrow> DLQReconciler \<Rightarrow> (string \<Rightarrow> 'x \<Rightarrow> (go_error + DLQDelivery) \<times> 'x) \<Rightarrow> (DLQDelivery \<Rightarrow> 'x \<Rightarrow> go_error option \<times> 'x)
   \<Rightarrow> (time \<times> string option) list \<Rightarrow> ('x, (bool \<times> go_error option) list) handler" where
  "runDLQ c r pull acknowledge [] = ret []"
| "runDLQ c r pull acknowledge ((ts, nonce) # is) =
     and_then (ReconcileNext c r pull acknowledge ts nonce)
       (\<lambda>o1. and_then (runDLQ c r pull acknowledge is) (\<lambda>os. ret (o1 # os)))"

subsection \<open>Coverage gaps\<close>





subsection \<open>The sweep\<close>





subsection \<open>Dead letters\<close>











subsection \<open>Properties\<close>




subsection \<open>Concrete runs\<close>









end
