(* ===== verification/WorkerPool.thy ===== *)
theory WorkerPool
  imports Consumer
begin

text \<open>
  The operator's lifecycle of worker pools: \<open>internal/workerpool/service.go\<close> with its statements in
  \<open>sqlc/workerpool.sql.go\<close>, and the command \<open>cmd/worker-pool\<close> that calls it.  The properties compose the
  lifecycle with the parts that depend on it: the scheduler, which only takes jobs for an active pool, the
  publisher, and the consumer, which verifies results under the keys of a pool.

  The files that the command reads, the parsers of JSON and of times, and the clock are arguments.  Wrapping
  an error in text keeps it the same error.
\<close>

subsection \<open>Data\<close>

text \<open>A certificate without an expiry has Go's zero time, which is \<open>None\<close> here.\<close>

record Registration =
  rg_ID :: string
  rg_Mode :: string
  rg_JobQueueURL :: string
  rg_JobQueueARN :: string
  rg_JobDLQURL :: string
  rg_JobDLQARN :: string
  rg_EncryptionKeyID :: string
  rg_ResultKeyID :: string
  rg_EncryptionPublic :: bytes
  rg_ResultPublic :: bytes
  rg_SchemaMin :: int
  rg_SchemaMax :: int
  rg_MTLSFingerprint :: string
  rg_MTLSNotAfter :: "time option"

record DeletionReadiness =
  dr_SourceQueueEmpty :: bool
  dr_DeadLetterQueueEmpty :: bool
  dr_GatewayMappingRemoved :: bool

definition registration_ok :: "time \<Rightarrow> Registration \<Rightarrow> string \<Rightarrow> string \<Rightarrow> bool" where
  "registration_ok now r actor reason \<longleftrightarrow>
     rg_ID r \<noteq> [] \<and> (rg_Mode r = ''hosted'' \<or> rg_Mode r = ''customer_vpc'') \<and>
     rg_JobQueueURL r \<noteq> [] \<and> rg_JobQueueARN r \<noteq> [] \<and> rg_JobDLQURL r \<noteq> [] \<and> rg_JobDLQARN r \<noteq> [] \<and>
     length (rg_EncryptionPublic r) = 32 \<and> length (rg_ResultPublic r) = 32 \<and>
     rg_EncryptionKeyID r \<noteq> [] \<and> rg_ResultKeyID r \<noteq> [] \<and>
     1 \<le> rg_SchemaMin r \<and> rg_SchemaMax r \<le> 2 \<and> rg_SchemaMin r \<le> rg_SchemaMax r \<and> actor \<noteq> [] \<and> reason \<noteq> [] \<and>
     (rg_Mode r = ''customer_vpc'' \<longrightarrow>
        rg_MTLSFingerprint r \<noteq> [] \<and>
        (case rg_MTLSNotAfter r of None \<Rightarrow> False | Some t \<Rightarrow> t \<le> now + 31 * 24 * hour))"

subsection \<open>Constraints\<close>

definition lifecycle_states :: "string list" where
  "lifecycle_states = [''provisioning'', ''active'', ''draining'', ''revoked'', ''deleting'', ''failed'']"

definition pool_id_first :: "char \<Rightarrow> bool" where
  "pool_id_first c \<longleftrightarrow> (CHR ''a'' \<le> c \<and> c \<le> CHR ''z'') \<or> (CHR ''0'' \<le> c \<and> c \<le> CHR ''9'')"

definition pool_id_ok :: "string \<Rightarrow> bool" where
  "pool_id_ok i =
     (case i of [] \<Rightarrow> False
      | c # cs \<Rightarrow> pool_id_first c \<and> length cs \<le> 62 \<and> list_all (\<lambda>x. pool_id_first x \<or> x = CHR ''_'' \<or> x = CHR ''-'') cs)"

definition key_length_ok :: "bytes option \<Rightarrow> bool" where
  "key_length_ok key = (case key of None \<Rightarrow> True | Some k \<Rightarrow> length k = 32)"

definition pool_columns_ok :: "worker_pool_row \<Rightarrow> bool" where
  "pool_columns_ok p \<longleftrightarrow>
     pool_id_ok (wp_id p) \<and> wp_mode p \<in> set [''hosted'', ''customer_vpc''] \<and>
     wp_lifecycle_state p \<in> set lifecycle_states \<and>
     wp_schema_min p \<in> set [1, 2] \<and> wp_schema_max p \<in> set [1, 2] \<and> wp_schema_min p \<le> wp_schema_max p \<and>
     0 < wp_network_policy_version p \<and> key_length_ok (wp_manifest_digest p) \<and>
     (wp_encryption_key_id p = None \<longleftrightarrow> wp_encryption_public_key p = None) \<and>
     (wp_result_key_id p = None \<longleftrightarrow> wp_result_public_key p = None) \<and>
     key_length_ok (wp_encryption_public_key p) \<and> key_length_ok (wp_result_public_key p)"

definition credential_columns_ok :: "credential_row \<Rightarrow> bool" where
  "credential_columns_ok c \<longleftrightarrow>
     cr_purpose c \<in> set [''job_encryption'', ''result_signing'', ''mtls_certificate''] \<and>
     1 \<le> length (cr_key_id c) \<and> length (cr_key_id c) \<le> 64 \<and>
     1 \<le> length (cr_fingerprint c) \<and> length (cr_fingerprint c) \<le> 128 \<and>
     cr_status c \<in> set [''pending'', ''active'', ''retired'', ''revoked''] \<and>
     (cr_status c = ''revoked'' \<longrightarrow> cr_revoked_at c \<noteq> None)"

definition audit_actions :: "string list" where
  "audit_actions = [''register'', ''activate'', ''drain'', ''revoke'', ''delete_start'', ''delete_complete'', ''fail'',
     ''reconcile'', ''rotate'', ''redrive'']"

subsection \<open>Statements\<close>

definition registered_pool :: "Registration \<Rightarrow> worker_pool_row" where
  "registered_pool r =
     \<lparr>wp_id = rg_ID r, wp_mode = rg_Mode r, wp_enabled = False, wp_lifecycle_state = ''provisioning'',
      wp_schema_min = rg_SchemaMin r, wp_schema_max = rg_SchemaMax r, wp_network_policy_version = 1,
      wp_encryption_key_id = Some (rg_EncryptionKeyID r), wp_encryption_public_key = Some (rg_EncryptionPublic r),
      wp_result_key_id = Some (rg_ResultKeyID r), wp_result_public_key = Some (rg_ResultPublic r),
      wp_job_queue_url = Some (rg_JobQueueURL r), wp_job_queue_arn = Some (rg_JobQueueARN r),
      wp_job_dlq_url = Some (rg_JobDLQURL r), wp_job_dlq_arn = Some (rg_JobDLQARN r), wp_manifest_digest = None\<rparr>"

definition RegisterWorkerPool :: "worker_pool_row \<Rightarrow> unit sql" where
  "RegisterWorkerPool p db =
     (if \<not> pool_columns_ok p then Inl ''worker_pools_check''
      else if exists_where (\<lambda>x. wp_id x = wp_id p) (worker_pools db) then Inl ''worker_pools_pkey''
      else Inr ((), db\<lparr>worker_pools := worker_pools db @ [p]\<rparr>))"

definition same_credential :: "credential_row \<Rightarrow> credential_row \<Rightarrow> bool" where
  "same_credential c x \<longleftrightarrow>
     cr_worker_pool_id x = cr_worker_pool_id c \<and> cr_purpose x = cr_purpose c \<and> cr_key_id x = cr_key_id c"

definition insert_credential :: "credential_row \<Rightarrow> unit sql" where
  "insert_credential c db =
     (if \<not> credential_columns_ok c then Inl ''worker_pool_credentials_check''
      else if exists_where (same_credential c) (worker_pool_credentials db)
        then Inl ''worker_pool_credentials_worker_pool_id_purpose_key_id_key''
      else if \<not> exists_where (\<lambda>p. wp_id p = cr_worker_pool_id c) (worker_pools db)
        then Inl ''worker_pool_credentials_worker_pool_id_fkey''
      else Inr ((), db\<lparr>worker_pool_credentials := worker_pool_credentials db @ [c]\<rparr>))"

definition pending_credential ::
  "time \<Rightarrow> string \<Rightarrow> string \<Rightarrow> string \<Rightarrow> bytes option \<Rightarrow> string \<Rightarrow> time option \<Rightarrow> credential_row" where
  "pending_credential ts pool purpose keyID public fingerprint notAfter =
     \<lparr>cr_worker_pool_id = pool, cr_purpose = purpose, cr_key_id = keyID, cr_public_material = public,
      cr_fingerprint = fingerprint, cr_status = ''pending'', cr_activates_at = ts, cr_revoked_at = None,
      cr_not_after = notAfter\<rparr>"

definition InsertWorkerPoolCredential :: "time \<Rightarrow> string \<Rightarrow> string \<Rightarrow> string \<Rightarrow> bytes \<Rightarrow> string \<Rightarrow> unit sql" where
  "InsertWorkerPoolCredential ts pool purpose keyID public fingerprint =
     insert_credential (pending_credential ts pool purpose keyID (Some public) fingerprint None)"

definition InsertWorkerPoolMTLSCredential :: "time \<Rightarrow> string \<Rightarrow> string \<Rightarrow> string \<Rightarrow> time option \<Rightarrow> unit sql" where
  "InsertWorkerPoolMTLSCredential ts pool keyID fingerprint notAfter =
     insert_credential (pending_credential ts pool ''mtls_certificate'' keyID None fingerprint notAfter)"

text \<open>The pool's row and whether it is ready; a certificate counts while it is valid for ten more days.\<close>

definition counted_credential :: "time \<Rightarrow> string \<Rightarrow> credential_row \<Rightarrow> bool" where
  "counted_credential ts pool c \<longleftrightarrow>
     cr_worker_pool_id c = pool \<and> cr_status c = ''pending'' \<and>
     (cr_purpose c \<noteq> ''mtls_certificate'' \<or> (case cr_not_after c of None \<Rightarrow> False | Some t \<Rightarrow> ts + 10 * day < t))"

definition activation_ready :: "time \<Rightarrow> database \<Rightarrow> worker_pool_row \<Rightarrow> bool" where
  "activation_ready ts db p \<longleftrightarrow>
     wp_lifecycle_state p = ''provisioning'' \<and> wp_job_queue_url p \<noteq> None \<and> wp_job_queue_arn p \<noteq> None \<and>
     wp_job_dlq_url p \<noteq> None \<and> wp_job_dlq_arn p \<noteq> None \<and> wp_encryption_public_key p \<noteq> None \<and>
     wp_result_public_key p \<noteq> None \<and>
     count_where (counted_credential ts (wp_id p)) (worker_pool_credentials db) =
       (if wp_mode p = ''customer_vpc'' then 3 else 2)"

definition pool_named :: "string \<Rightarrow> database \<Rightarrow> worker_pool_row option" where
  "pool_named i db = select_one (\<lambda>p. wp_id p = i) (worker_pools db)"

definition LockWorkerPoolActivationReadiness :: "time \<Rightarrow> string \<Rightarrow> bool option sql" where
  "LockWorkerPoolActivationReadiness ts i = reading (\<lambda>db. map_option (activation_ready ts db) (pool_named i db))"

definition change_pool :: "string \<Rightarrow> (worker_pool_row \<Rightarrow> worker_pool_row) \<Rightarrow> unit sql" where
  "change_pool i f db =
     (if exists_where (\<lambda>p. wp_id p = i \<and> \<not> pool_columns_ok (f p)) (worker_pools db) then Inl ''worker_pools_check''
      else Inr ((), db\<lparr>worker_pools := update_where (\<lambda>p. wp_id p = i) f (worker_pools db)\<rparr>))"

definition activate_row :: "bytes \<Rightarrow> worker_pool_row \<Rightarrow> worker_pool_row" where
  "activate_row digest p = p\<lparr>wp_enabled := True, wp_lifecycle_state := ''active'', wp_manifest_digest := Some digest\<rparr>"

definition ActivateWorkerPool :: "string \<Rightarrow> bytes \<Rightarrow> unit sql" where
  "ActivateWorkerPool i digest = change_pool i (activate_row digest)"

definition ActivatePendingWorkerPoolCredentials :: "string \<Rightarrow> unit sql" where
  "ActivatePendingWorkerPoolCredentials i = writing (\<lambda>db. db\<lparr>worker_pool_credentials :=
     update_where (\<lambda>c. cr_worker_pool_id c = i \<and> cr_status c = ''pending'') (\<lambda>c. c\<lparr>cr_status := ''active''\<rparr>)
       (worker_pool_credentials db)\<rparr>)"

definition LockWorkerPoolLifecycleState :: "string \<Rightarrow> string option sql" where
  "LockWorkerPoolLifecycleState i = reading (\<lambda>db. map_option wp_lifecycle_state (pool_named i db))"

definition move_row :: "string \<Rightarrow> worker_pool_row \<Rightarrow> worker_pool_row" where
  "move_row target p = p\<lparr>wp_lifecycle_state := target, wp_enabled := False\<rparr>"

definition UpdateWorkerPoolLifecycle :: "string \<Rightarrow> string \<Rightarrow> unit sql" where
  "UpdateWorkerPoolLifecycle i target = change_pool i (move_row target)"

definition revoke_credential :: "time \<Rightarrow> credential_row \<Rightarrow> credential_row" where
  "revoke_credential ts c = c\<lparr>cr_status := ''revoked'', cr_revoked_at := Some ts\<rparr>"

definition RevokeWorkerPoolCredentials :: "time \<Rightarrow> string \<Rightarrow> unit sql" where
  "RevokeWorkerPoolCredentials ts i = writing (\<lambda>db. db\<lparr>worker_pool_credentials :=
     update_where (\<lambda>c. cr_worker_pool_id c = i \<and> cr_status c \<in> set [''pending'', ''active'', ''retired''])
       (revoke_credential ts) (worker_pool_credentials db)\<rparr>)"

definition LockWorkerPoolManifestDigest :: "string \<Rightarrow> bytes option option sql" where
  "LockWorkerPoolManifestDigest i = reading (\<lambda>db. map_option wp_manifest_digest (pool_named i db))"

definition FailWorkerPool :: "string \<Rightarrow> unit sql" where
  "FailWorkerPool i = change_pool i (move_row ''failed'')"

definition trusted_credential :: "time \<Rightarrow> string \<Rightarrow> credential_row \<Rightarrow> bool" where
  "trusted_credential ts i c \<longleftrightarrow>
     cr_worker_pool_id c = i \<and> cr_status c \<noteq> ''revoked'' \<and> (case cr_not_after c of None \<Rightarrow> True | Some t \<Rightarrow> ts < t)"

definition deletion_state :: "time \<Rightarrow> database \<Rightarrow> worker_pool_row \<Rightarrow> string \<times> nat \<times> nat" where
  "deletion_state ts db p =
     (wp_lifecycle_state p,
      count_where (\<lambda>j. cj_worker_pool_id j = wp_id p \<and> active_state (cj_state j)) (check_jobs db),
      count_where (trusted_credential ts (wp_id p)) (worker_pool_credentials db))"

definition LockWorkerPoolDeletionState :: "time \<Rightarrow> string \<Rightarrow> (string \<times> nat \<times> nat) option sql" where
  "LockWorkerPoolDeletionState ts i = reading (\<lambda>db. map_option (deletion_state ts db) (pool_named i db))"

text \<open>The tables that refer to a pool.  Its credentials go with it; the other references forbid its deletion.\<close>

definition pool_referenced :: "string \<Rightarrow> database \<Rightarrow> bool" where
  "pool_referenced i db \<longleftrightarrow>
     exists_where (\<lambda>m. mon_worker_pool_id m = i) (monitors db) \<or>
     exists_where (\<lambda>j. cj_worker_pool_id j = i) (check_jobs db) \<or>
     exists_where (\<lambda>r. do_worker_pool_id r = i) (check_dispatch_outbox db) \<or>
     exists_where (\<lambda>c. hc_worker_pool_id c = i) (health_checks db) \<or>
     exists_where (\<lambda>p. sp_worker_pool_id p = i) (monitor_schedule_periods db)"

definition DeleteWorkerPool :: "string \<Rightarrow> unit sql" where
  "DeleteWorkerPool i db =
     (if exists_where (\<lambda>p. wp_id p = i) (worker_pools db) \<and> pool_referenced i db then Inl ''worker_pool_id_fkey''
      else Inr ((), db\<lparr>worker_pools := filter (\<lambda>p. wp_id p \<noteq> i) (worker_pools db),
             worker_pool_credentials := filter (\<lambda>c. cr_worker_pool_id c \<noteq> i) (worker_pool_credentials db)\<rparr>))"

definition InsertWorkerPoolAudit :: "pool_audit_row \<Rightarrow> unit sql" where
  "InsertWorkerPoolAudit a db =
     (if pa_action a \<notin> set audit_actions \<or> pa_actor a = [] \<or> length (pa_actor a) > 128 \<or> pa_reason a = [] \<or>
         length (pa_reason a) > 240 then Inl ''worker_pool_audit_events_check''
      else Inr ((), db\<lparr>worker_pool_audit_events := worker_pool_audit_events db @ [a]\<rparr>))"

definition InsertWorkerPoolDriftEvent :: "string \<Rightarrow> string \<Rightarrow> unit sql" where
  "InsertWorkerPoolDriftEvent i details db =
     (if length details > 120 then Inl ''monitoring_operational_events_safe_details_check''
      else Inr ((), db\<lparr>monitoring_operational_events := monitoring_operational_events db @
        [\<lparr>oe_event_type = ''pool_drift'', oe_job_id = None, oe_worker_pool_id = Some i, oe_safe_details = details\<rparr>]\<rparr>))"

subsection \<open>The service\<close>

definition audit_row :: "string \<Rightarrow> string \<Rightarrow> string \<Rightarrow> string \<Rightarrow> pool_audit_row" where
  "audit_row i action actor reason =
     \<lparr>pa_worker_pool_id = i, pa_action = action, pa_actor = actor, pa_reason = reason\<rparr>"

definition audit_ok :: "string \<Rightarrow> string \<Rightarrow> bool" where
  "audit_ok actor reason \<longleftrightarrow> \<not> (actor = [] \<or> length actor > 128 \<or> reason = [] \<or> length reason > 240)"

definition audit ::
  "string \<Rightarrow> string \<Rightarrow> string \<Rightarrow> string \<Rightarrow> (go_error \<Rightarrow> ('x, 'r) handler) \<Rightarrow> (unit \<Rightarrow> ('x, 'r) handler) \<Rightarrow> ('x, 'r) handler" where
  "audit i action actor reason h k =
     (if \<not> audit_ok actor reason then h (Err ''invalid audit identity or reason'')
      else query (InsertWorkerPoolAudit (audit_row i action actor reason)) (h \<circ> Db) k)"

definition registered_keys :: "Registration \<Rightarrow> (string \<times> string \<times> bytes) list" where
  "registered_keys r =
     [(''job_encryption'', rg_EncryptionKeyID r, rg_EncryptionPublic r), (''result_signing'', rg_ResultKeyID r, rg_ResultPublic r)]"

fun insert_keys ::
  "primitives \<Rightarrow> time \<Rightarrow> string \<Rightarrow> (string \<times> string \<times> bytes) list
   \<Rightarrow> (go_error \<Rightarrow> ('x, 'r) handler) \<Rightarrow> (unit \<Rightarrow> ('x, 'r) handler) \<Rightarrow> ('x, 'r) handler" where
  "insert_keys c ts i [] h k = k ()"
| "insert_keys c ts i ((purpose, keyID, public) # rest) h k =
     query (InsertWorkerPoolCredential ts i purpose keyID public (hex_encode (sha256 c public))) (h \<circ> Db)
       (\<lambda>_. insert_keys c ts i rest h k)"

definition register_fragment ::
  "primitives \<Rightarrow> time \<Rightarrow> Registration \<Rightarrow> string \<Rightarrow> string
   \<Rightarrow> (go_error \<Rightarrow> ('x, 'r) handler) \<Rightarrow> (unit \<Rightarrow> ('x, 'r) handler) \<Rightarrow> ('x, 'r) handler" where
  "register_fragment c ts r actor reason h k =
     query (RegisterWorkerPool (registered_pool r)) (h \<circ> Db) (\<lambda>_.
     insert_keys c ts (rg_ID r) (registered_keys r) h (\<lambda>_.
     (if rg_Mode r = ''customer_vpc''
      then query (InsertWorkerPoolMTLSCredential ts (rg_ID r) (''mtls-'' @ rg_EncryptionKeyID r) (rg_MTLSFingerprint r)
             (map_option databaseTimestamp (rg_MTLSNotAfter r))) (h \<circ> Db)
      else (\<lambda>k. k ())) (\<lambda>_.
     audit (rg_ID r) ''register'' actor reason h k)))"

definition Register :: "primitives \<Rightarrow> time \<Rightarrow> time \<Rightarrow> Registration \<Rightarrow> string \<Rightarrow> string \<Rightarrow> ('x, go_error option) handler" where
  "Register c now ts r actor reason =
     (if \<not> registration_ok now r actor reason then ret (Some (Err ''invalid worker-pool registration''))
      else transaction Some (\<lambda>_. None) (register_fragment c ts r actor reason))"

definition activate_fragment ::
  "time \<Rightarrow> string \<Rightarrow> bytes \<Rightarrow> string \<Rightarrow> string
   \<Rightarrow> (go_error \<Rightarrow> ('x, 'r) handler) \<Rightarrow> (unit \<Rightarrow> ('x, 'r) handler) \<Rightarrow> ('x, 'r) handler" where
  "activate_fragment ts i digest actor reason h k =
     query (LockWorkerPoolActivationReadiness ts i) (h \<circ> Db) (\<lambda>ready. case ready of
       None \<Rightarrow> h (Db NoRows)
     | Some False \<Rightarrow> h (Err ''pool is incomplete'')
     | Some True \<Rightarrow>
         query (ActivateWorkerPool i digest) (h \<circ> Db) (\<lambda>_.
         query (ActivatePendingWorkerPoolCredentials i) (h \<circ> Db) (\<lambda>_.
         audit i ''activate'' actor reason h k)))"

definition Activate :: "time \<Rightarrow> string \<Rightarrow> bytes \<Rightarrow> bool \<Rightarrow> string \<Rightarrow> string \<Rightarrow> ('x, go_error option) handler" where
  "Activate ts i digest gatewayMapped actor reason =
     (if length digest \<noteq> 32 \<or> \<not> gatewayMapped then ret (Some (Err ''pool dependencies are not verified''))
      else transaction Some (\<lambda>_. None) (activate_fragment ts i digest actor reason))"

definition transition_actions :: "(string \<times> string) list" where
  "transition_actions = [(''draining'', ''drain''), (''revoked'', ''revoke''), (''failed'', ''fail''), (''deleting'', ''delete_start'')]"

definition transition_targets :: "(string \<times> string list) list" where
  "transition_targets =
     [(''active'', [''draining'', ''revoked'', ''failed'']), (''provisioning'', [''failed'', ''revoked'']),
      (''draining'', [''revoked'', ''deleting'']), (''revoked'', [''deleting'']), (''failed'', [''deleting''])]"

definition transition_allowed :: "string \<Rightarrow> string \<Rightarrow> bool" where
  "transition_allowed current target =
     (case map_of transition_targets current of None \<Rightarrow> False | Some targets \<Rightarrow> target \<in> set targets)"

definition transition_fragment ::
  "time \<Rightarrow> string \<Rightarrow> string \<Rightarrow> string \<Rightarrow> string \<Rightarrow> string
   \<Rightarrow> (go_error \<Rightarrow> ('x, 'r) handler) \<Rightarrow> (unit \<Rightarrow> ('x, 'r) handler) \<Rightarrow> ('x, 'r) handler" where
  "transition_fragment ts i target action actor reason h k =
     query (LockWorkerPoolLifecycleState i) (h \<circ> Db) (\<lambda>found. case found of
       None \<Rightarrow> h (Db NoRows)
     | Some current \<Rightarrow>
         if \<not> transition_allowed current target then h (Err ''invalid lifecycle transition'')
         else
           query (UpdateWorkerPoolLifecycle i target) (h \<circ> Db) (\<lambda>_.
           (if target = ''revoked'' \<or> target = ''deleting'' then query (RevokeWorkerPoolCredentials ts i) (h \<circ> Db)
            else (\<lambda>k. k ())) (\<lambda>_.
           audit i action actor reason h k)))"

definition Transition :: "time \<Rightarrow> string \<Rightarrow> string \<Rightarrow> string \<Rightarrow> string \<Rightarrow> ('x, go_error option) handler" where
  "Transition ts i target actor reason =
     (case map_of transition_actions target of
        None \<Rightarrow> ret (Some (Err ''invalid lifecycle target''))
      | Some action \<Rightarrow> transaction Some (\<lambda>_. None) (transition_fragment ts i target action actor reason))"

definition drift_details :: "bool \<Rightarrow> string" where
  "drift_details drift = (if drift then ''pool manifest drift'' else ''pool manifest verified'')"

definition reconcile_fragment ::
  "string \<Rightarrow> bytes \<Rightarrow> bool \<Rightarrow> string \<Rightarrow> string
   \<Rightarrow> (go_error \<Rightarrow> ('x, 'r) handler) \<Rightarrow> (bool \<Rightarrow> ('x, 'r) handler) \<Rightarrow> ('x, 'r) handler" where
  "reconcile_fragment i expectedDigest gatewayMapped actor reason h k =
     query (LockWorkerPoolManifestDigest i) (h \<circ> Db) (\<lambda>found. case found of
       None \<Rightarrow> h (Db NoRows)
     | Some current \<Rightarrow>
         (let drift = (\<not> gatewayMapped \<or> coalesce_empty current \<noteq> expectedDigest) in
          (if drift then query (FailWorkerPool i) (h \<circ> Db) else (\<lambda>k. k ())) (\<lambda>_.
          audit i ''reconcile'' actor reason h (\<lambda>_.
          query (InsertWorkerPoolDriftEvent i (drift_details drift)) (h \<circ> Db) (\<lambda>_. k drift)))))"

definition Reconcile :: "string \<Rightarrow> bytes \<Rightarrow> bool \<Rightarrow> string \<Rightarrow> string \<Rightarrow> ('x, go_error option) handler" where
  "Reconcile i expectedDigest gatewayMapped actor reason =
     (if length expectedDigest \<noteq> 32 then ret (Some (Err ''invalid manifest digest''))
      else transaction Some (\<lambda>drift. if drift then Some (Err ''worker-pool drift detected'') else None)
             (reconcile_fragment i expectedDigest gatewayMapped actor reason))"

definition delete_fragment ::
  "time \<Rightarrow> string \<Rightarrow> string \<Rightarrow> string
   \<Rightarrow> (go_error \<Rightarrow> ('x, 'r) handler) \<Rightarrow> (unit \<Rightarrow> ('x, 'r) handler) \<Rightarrow> ('x, 'r) handler" where
  "delete_fragment ts i actor reason h k =
     query (LockWorkerPoolDeletionState ts i) (h \<circ> Db) (\<lambda>found. case found of
       None \<Rightarrow> h (Db NoRows)
     | Some (state, jobs, trusted) \<Rightarrow>
         if state \<noteq> ''deleting'' \<or> jobs \<noteq> 0 \<or> trusted \<noteq> 0 then h (Err ''pool is not drained and deleting'')
         else
           audit i ''delete_complete'' actor reason h (\<lambda>_.
           query (DeleteWorkerPool i) (h \<circ> Db) k))"

definition deletion_confirmed :: "string \<Rightarrow> string \<Rightarrow> DeletionReadiness \<Rightarrow> bool" where
  "deletion_confirmed i confirmation readiness \<longleftrightarrow>
     confirmation = ''delete:'' @ i \<and> dr_SourceQueueEmpty readiness \<and> dr_DeadLetterQueueEmpty readiness \<and>
     dr_GatewayMappingRemoved readiness"

definition Delete_pool ::
  "time \<Rightarrow> string \<Rightarrow> string \<Rightarrow> string \<Rightarrow> string \<Rightarrow> DeletionReadiness \<Rightarrow> ('x, go_error option) handler" where
  "Delete_pool ts i confirmation actor reason readiness =
     (if \<not> deletion_confirmed i confirmation readiness then ret (Some (Err ''exact deletion confirmation required''))
      else transaction Some (\<lambda>_. None) (delete_fragment ts i actor reason))"

subsection \<open>The command\<close>

record publicBundle =
  pb_PoolID :: string
  pb_EncryptionKeyID :: string
  pb_ResultKeyID :: string
  pb_EncryptionPublicKey :: string
  pb_ResultPublicKey :: string

text \<open>
  The flags of the command and what it reads: the environment variable with the URL of the database, the
  contents of its two files where they can be read, and the parsers.
\<close>

record pool_command =
  pc_mode :: string
  pc_pool :: string
  pc_poolMode :: string
  pc_queueURL :: string
  pc_queueARN :: string
  pc_dlqURL :: string
  pc_dlqARN :: string
  pc_mtlsFingerprint :: string
  pc_mtlsExpiry :: string
  pc_gatewayMapped :: bool
  pc_actor :: string
  pc_reason :: string
  pc_confirmation :: string
  pc_readiness :: DeletionReadiness
  pc_databaseURL :: string
  pc_bundle_file :: "string option"
  pc_manifest_file :: "string option"
  pc_now :: time
  pc_ts :: time

record pool_parsers =
  pp_primitives :: primitives
  pp_bundle :: "string \<Rightarrow> publicBundle option"
  pp_time :: "string \<Rightarrow> time option"

definition manifestDigest :: "primitives \<Rightarrow> string option \<Rightarrow> go_error + bytes" where
  "manifestDigest c contents =
     (case contents of None \<Rightarrow> Inl (Err ''read failed'') | Some data \<Rightarrow> Inr (sha256 c data))"

definition bundled_registration :: "pool_parsers \<Rightarrow> pool_command \<Rightarrow> go_error + Registration" where
  "bundled_registration g a =
     (case pc_bundle_file a of
        None \<Rightarrow> Inl (Err ''read failed'')
      | Some data \<Rightarrow>
          (case pp_bundle g data of
             None \<Rightarrow> Inl (Err ''invalid public bundle'')
           | Some b \<Rightarrow>
               if pb_PoolID b \<noteq> pc_pool a then Inl (Err ''invalid public bundle'')
               else (case base64_decode (pb_EncryptionPublicKey b) of
                 None \<Rightarrow> Inl (Err ''illegal base64 data'')
               | Some enc \<Rightarrow>
                   (case base64_decode (pb_ResultPublicKey b) of
                      None \<Rightarrow> Inl (Err ''illegal base64 data'')
                    | Some result \<Rightarrow>
                        if pc_mtlsExpiry a \<noteq> [] \<and> pp_time g (pc_mtlsExpiry a) = None then Inl (Err ''invalid mTLS expiry'')
                        else Inr \<lparr>rg_ID = pc_pool a, rg_Mode = pc_poolMode a, rg_JobQueueURL = pc_queueURL a,
                               rg_JobQueueARN = pc_queueARN a, rg_JobDLQURL = pc_dlqURL a, rg_JobDLQARN = pc_dlqARN a,
                               rg_EncryptionKeyID = pb_EncryptionKeyID b, rg_ResultKeyID = pb_ResultKeyID b,
                               rg_EncryptionPublic = enc, rg_ResultPublic = result, rg_SchemaMin = 1, rg_SchemaMax = 2,
                               rg_MTLSFingerprint = pc_mtlsFingerprint a,
                               rg_MTLSNotAfter = (if pc_mtlsExpiry a = [] then None else pp_time g (pc_mtlsExpiry a))\<rparr>))))"

definition operate :: "pool_parsers \<Rightarrow> pool_command \<Rightarrow> ('x, go_error option) handler" where
  "operate g a =
     (if pc_pool a = [] \<or> TrimSpace (pc_actor a) = [] \<or> TrimSpace (pc_reason a) = []
      then ret (Some (Err ''pool, actor, and reason required''))
      else if TrimSpace (pc_databaseURL a) = [] then ret (Some (Err ''database URL required''))
      else if pc_mode a = ''register'' then
        (case bundled_registration g a of
           Inl e \<Rightarrow> ret (Some e)
         | Inr r \<Rightarrow> Register (pp_primitives g) (pc_now a) (pc_ts a) r (pc_actor a) (pc_reason a))
      else if pc_mode a = ''activate'' \<or> pc_mode a = ''reconcile'' then
        (case manifestDigest (pp_primitives g) (pc_manifest_file a) of
           Inl e \<Rightarrow> ret (Some e)
         | Inr digest \<Rightarrow>
             if pc_mode a = ''activate''
             then Activate (pc_ts a) (pc_pool a) digest (pc_gatewayMapped a) (pc_actor a) (pc_reason a)
             else Reconcile (pc_pool a) digest (pc_gatewayMapped a) (pc_actor a) (pc_reason a))
      else if pc_mode a = ''drain'' then Transition (pc_ts a) (pc_pool a) ''draining'' (pc_actor a) (pc_reason a)
      else if pc_mode a = ''revoke'' then Transition (pc_ts a) (pc_pool a) ''revoked'' (pc_actor a) (pc_reason a)
      else if pc_mode a = ''fail'' then Transition (pc_ts a) (pc_pool a) ''failed'' (pc_actor a) (pc_reason a)
      else if pc_mode a = ''delete''
        then Delete_pool (pc_ts a) (pc_pool a) (pc_confirmation a) (pc_actor a) (pc_reason a) (pc_readiness a)
      else ret (Some (Err ''unknown mode'')))"

subsection \<open>What the operations leave behind\<close>

definition new_credentials :: "primitives \<Rightarrow> time \<Rightarrow> Registration \<Rightarrow> credential_row list" where
  "new_credentials c ts r =
     map (\<lambda>(purpose, keyID, public).
            pending_credential ts (rg_ID r) purpose keyID (Some public) (hex_encode (sha256 c public)) None) (registered_keys r) @
     (if rg_Mode r = ''customer_vpc''
      then [pending_credential ts (rg_ID r) ''mtls_certificate'' (''mtls-'' @ rg_EncryptionKeyID r) None (rg_MTLSFingerprint r)
              (map_option databaseTimestamp (rg_MTLSNotAfter r))]
      else [])"

definition audited :: "string \<Rightarrow> string \<Rightarrow> string \<Rightarrow> string \<Rightarrow> database \<Rightarrow> database" where
  "audited i action actor reason d =
     d\<lparr>worker_pool_audit_events := worker_pool_audit_events d @ [audit_row i action actor reason]\<rparr>"

definition can_register :: "primitives \<Rightarrow> time \<Rightarrow> Registration \<Rightarrow> string \<Rightarrow> string \<Rightarrow> database \<Rightarrow> bool" where
  "can_register c ts r actor reason d \<longleftrightarrow>
     pool_columns_ok (registered_pool r) \<and> pool_named (rg_ID r) d = None \<and>
     list_all credential_columns_ok (new_credentials c ts r) \<and> audit_ok actor reason"

definition registered :: "primitives \<Rightarrow> time \<Rightarrow> Registration \<Rightarrow> database \<Rightarrow> database" where
  "registered c ts r d =
     d\<lparr>worker_pools := worker_pools d @ [registered_pool r],
       worker_pool_credentials := worker_pool_credentials d @ new_credentials c ts r\<rparr>"

definition changed_pool :: "string \<Rightarrow> (worker_pool_row \<Rightarrow> worker_pool_row) \<Rightarrow> database \<Rightarrow> database" where
  "changed_pool i f d = d\<lparr>worker_pools := update_where (\<lambda>p. wp_id p = i) f (worker_pools d)\<rparr>"

definition activated :: "string \<Rightarrow> bytes \<Rightarrow> database \<Rightarrow> database" where
  "activated i digest d =
     (changed_pool i (activate_row digest) d)\<lparr>worker_pool_credentials :=
        update_where (\<lambda>c. cr_worker_pool_id c = i \<and> cr_status c = ''pending'') (\<lambda>c. c\<lparr>cr_status := ''active''\<rparr>)
          (worker_pool_credentials d)\<rparr>"

definition transitioned :: "time \<Rightarrow> string \<Rightarrow> string \<Rightarrow> database \<Rightarrow> database" where
  "transitioned ts i target d =
     (changed_pool i (move_row target) d)\<lparr>worker_pool_credentials :=
        (if target = ''revoked'' \<or> target = ''deleting''
         then update_where (\<lambda>c. cr_worker_pool_id c = i \<and> cr_status c \<in> set [''pending'', ''active'', ''retired''])
                (revoke_credential ts) (worker_pool_credentials d)
         else worker_pool_credentials d)\<rparr>"

definition drifted :: "string \<Rightarrow> bytes \<Rightarrow> bool \<Rightarrow> database \<Rightarrow> bool" where
  "drifted i expectedDigest gatewayMapped d \<longleftrightarrow>
     \<not> gatewayMapped \<or> coalesce_empty (Option.bind (pool_named i d) wp_manifest_digest) \<noteq> expectedDigest"

definition reconciled :: "string \<Rightarrow> bool \<Rightarrow> database \<Rightarrow> database" where
  "reconciled i drift d =
     (if drift then changed_pool i (move_row ''failed'') d else d)
       \<lparr>monitoring_operational_events := monitoring_operational_events d @
          [\<lparr>oe_event_type = ''pool_drift'', oe_job_id = None, oe_worker_pool_id = Some i,
            oe_safe_details = drift_details drift\<rparr>]\<rparr>"

definition removed :: "string \<Rightarrow> database \<Rightarrow> database" where
  "removed i d =
     d\<lparr>worker_pools := filter (\<lambda>p. wp_id p \<noteq> i) (worker_pools d),
       worker_pool_credentials := filter (\<lambda>c. cr_worker_pool_id c \<noteq> i) (worker_pool_credentials d)\<rparr>"

lemma ends_guarded:
  assumes "s d = (if g then Inr (a, d') else Inl v)" "\<not> g \<Longrightarrow> E (f (Violation v))" "g \<Longrightarrow> ends_in (q a) d' E Q"
  shows "ends_in (\<lambda>h k. query s (h \<circ> f) (\<lambda>a. q a h k)) d E Q"
proof (cases g)
  case True
  with assms show ?thesis by (intro ends_query[where a = a and d' = d']) simp_all
next
  case False
  with assms show ?thesis by (intro ends_violation[where c = v]) simp_all
qed

lemma audit_ends:
  assumes "action \<in> set audit_actions" "\<not> audit_ok actor reason \<Longrightarrow> E (Err ''invalid audit identity or reason'')"
    "audit_ok actor reason \<Longrightarrow> Q () (audited i action actor reason d)"
  shows "ends_in (audit i action actor reason) d E Q"
proof (cases "audit_ok actor reason")
  case False
  then show ?thesis
    unfolding audit_def[abs_def] by simp (rule ends_fail, rule assms(2), rule False)
next
  case True
  have "ends_in (\<lambda>h k. query (InsertWorkerPoolAudit (audit_row i action actor reason)) (h \<circ> Db) (\<lambda>a. k a)) d E Q"
    by (rule ends_query[where s = "InsertWorkerPoolAudit (audit_row i action actor reason)" and a = "()"
          and d' = "audited i action actor reason d" and q = "\<lambda>a h k. k a"])
      (use True assms in \<open>auto simp: InsertWorkerPoolAudit_def audit_row_def audit_ok_def audited_def intro: ends_done\<close>)
  with True show ?thesis
    unfolding audit_def[abs_def] by simp
qed

lemma audit_then:
  fixes q :: "(database, 'x, 'r, go_error, 'a) fragment"
  assumes "action \<in> set audit_actions" "\<not> audit_ok actor reason \<Longrightarrow> E (Err ''invalid audit identity or reason'')"
    "audit_ok actor reason \<Longrightarrow> ends_in q (audited i action actor reason d) E Q"
  shows "ends_in (\<lambda>h k. audit i action actor reason h (\<lambda>_. q h k)) d E Q"
  by (rule ends_bind[where p = "audit i action actor reason" and q = "\<lambda>_. q", OF audit_ends[where Q =
        "\<lambda>_ d'. audit_ok actor reason \<and> d' = audited i action actor reason d"]])
    (use assms in auto)

lemma pool_named_None: "pool_named i d = None \<longleftrightarrow> (\<forall>p\<in>set (worker_pools d). wp_id p \<noteq> i)"
  by (simp add: pool_named_def select_one_None)

lemma pool_named_Some: "pool_named i d = Some p \<Longrightarrow> p \<in> set (worker_pools d) \<and> wp_id p = i"
  by (auto simp: pool_named_def dest: select_one_Some)

text \<open>The credentials of a pool that is registered are its first, so that only the form of a row can refuse it.\<close>

definition credentials_owned :: "database \<Rightarrow> bool" where
  "credentials_owned d \<longleftrightarrow>
     (\<forall>c\<in>set (worker_pool_credentials d). \<exists>p\<in>set (worker_pools d). wp_id p = cr_worker_pool_id c)"

lemma insert_credential_step:
  assumes "\<forall>x\<in>set (worker_pool_credentials d). \<not> same_credential c x" "\<exists>p\<in>set (worker_pools d). wp_id p = cr_worker_pool_id c"
  shows "insert_credential c d =
     (if credential_columns_ok c then Inr ((), d\<lparr>worker_pool_credentials := worker_pool_credentials d @ [c]\<rparr>)
      else Inl ''worker_pool_credentials_check'')"
  using assms by (auto simp: insert_credential_def)

lemma register_ends:
  fixes d :: database
  assumes owned: "credentials_owned d"
  shows "ends_in (register_fragment c ts r actor reason :: (database, 'x, 'r, go_error, unit) fragment) d
     (\<lambda>_. \<not> can_register c ts r actor reason d)
     (\<lambda>_ d'. can_register c ts r actor reason d \<and> d' = audited (rg_ID r) ''register'' actor reason (registered c ts r d))"
    (is "ends_in _ _ ?E ?Q")
proof -
  let ?enc = "pending_credential ts (rg_ID r) ''job_encryption'' (rg_EncryptionKeyID r) (Some (rg_EncryptionPublic r))
      (hex_encode (sha256 c (rg_EncryptionPublic r))) None"
  let ?res = "pending_credential ts (rg_ID r) ''result_signing'' (rg_ResultKeyID r) (Some (rg_ResultPublic r))
      (hex_encode (sha256 c (rg_ResultPublic r))) None"
  let ?mtls = "pending_credential ts (rg_ID r) ''mtls_certificate'' (''mtls-'' @ rg_EncryptionKeyID r) None (rg_MTLSFingerprint r)
      (map_option databaseTimestamp (rg_MTLSNotAfter r))"
  let ?d1 = "d\<lparr>worker_pools := worker_pools d @ [registered_pool r]\<rparr>"
  let ?d2 = "?d1\<lparr>worker_pool_credentials := worker_pool_credentials d @ [?enc]\<rparr>"
  let ?d3 = "?d1\<lparr>worker_pool_credentials := worker_pool_credentials d @ [?enc, ?res]\<rparr>"
  let ?g = "pool_columns_ok (registered_pool r) \<and> pool_named (rg_ID r) d = None"
  have fresh: "cr_worker_pool_id x \<noteq> rg_ID r" if "?g" "x \<in> set (worker_pool_credentials d)" for x
    using that owned by (auto simp: credentials_owned_def pool_named_None)
  have listed: "new_credentials c ts r = [?enc, ?res] @ (if rg_Mode r = ''customer_vpc'' then [?mtls] else [])"
    by (simp add: new_credentials_def registered_keys_def)
  have can: "can_register c ts r actor reason d \<longleftrightarrow> ?g \<and> credential_columns_ok ?enc \<and> credential_columns_ok ?res \<and>
      (rg_Mode r = ''customer_vpc'' \<longrightarrow> credential_columns_ok ?mtls) \<and> audit_ok actor reason"
    by (auto simp: can_register_def listed)
  have pool: "RegisterWorkerPool (registered_pool r) d = (if ?g then Inr ((), ?d1)
      else Inl (if pool_columns_ok (registered_pool r) then ''worker_pools_pkey'' else ''worker_pools_check''))"
    by (auto simp: RegisterWorkerPool_def pool_named_None registered_pool_def)
  have enc: "insert_credential ?enc ?d1 = (if credential_columns_ok ?enc then Inr ((), ?d2) else Inl ''worker_pool_credentials_check'')"
    if ?g
    by (subst insert_credential_step) (use fresh[OF that] in \<open>auto simp: same_credential_def pending_credential_def registered_pool_def\<close>)
  have res: "insert_credential ?res ?d2 = (if credential_columns_ok ?res then Inr ((), ?d3) else Inl ''worker_pool_credentials_check'')"
    if ?g
    by (subst insert_credential_step) (use fresh[OF that] in \<open>auto simp: same_credential_def pending_credential_def registered_pool_def\<close>)
  have mtls: "insert_credential ?mtls ?d3 = (if credential_columns_ok ?mtls
      then Inr ((), ?d1\<lparr>worker_pool_credentials := worker_pool_credentials d @ [?enc, ?res, ?mtls]\<rparr>)
      else Inl ''worker_pool_credentials_check'')" if ?g
    by (subst insert_credential_step) (use fresh[OF that] in \<open>auto simp: same_credential_def pending_credential_def registered_pool_def\<close>)
  have last: "ends_in (\<lambda>h k. audit (rg_ID r) ''register'' actor reason h k :: (database, 'x, 'r) program)
      (registered c ts r d) ?E ?Q"
    if "?g" "credential_columns_ok ?enc" "credential_columns_ok ?res" "rg_Mode r = ''customer_vpc'' \<longrightarrow> credential_columns_ok ?mtls"
    by (rule audit_ends) (use that can in \<open>auto simp: audit_actions_def\<close>)
  have third: "ends_in (\<lambda>h k. (if rg_Mode r = ''customer_vpc'' then query (insert_credential ?mtls) (h \<circ> Db) else (\<lambda>k. k ()))
      (\<lambda>_. audit (rg_ID r) ''register'' actor reason h k) :: (database, 'x, 'r) program) ?d3 ?E ?Q"
    if g: "?g" "credential_columns_ok ?enc" "credential_columns_ok ?res"
  proof (cases "rg_Mode r = ''customer_vpc''")
    case True
    have "ends_in (\<lambda>h k. query (insert_credential ?mtls) (h \<circ> Db) (\<lambda>_. audit (rg_ID r) ''register'' actor reason h k)
        :: (database, 'x, 'r) program) ?d3 ?E ?Q"
    proof (rule ends_guarded[where s = "insert_credential ?mtls", OF mtls[OF g(1)]])
      assume "credential_columns_ok ?mtls"
      with last[OF g] True show "ends_in (\<lambda>h k. audit (rg_ID r) ''register'' actor reason h k :: (database, 'x, 'r) program)
          (?d1\<lparr>worker_pool_credentials := worker_pool_credentials d @ [?enc, ?res, ?mtls]\<rparr>) ?E ?Q"
        by (simp add: registered_def listed)
    qed (use True can in simp)
    with True show ?thesis by simp
  next
    case False
    with last[OF g] show ?thesis by (simp add: registered_def listed)
  qed
  show ?thesis
    unfolding register_fragment_def[abs_def] registered_keys_def insert_keys.simps InsertWorkerPoolCredential_def
      InsertWorkerPoolMTLSCredential_def
    by (rule ends_guarded[where s = "RegisterWorkerPool (registered_pool r)", OF pool], simp add: can, rule ends_guarded[where s = "insert_credential ?enc", OF enc], assumption, simp add: can,
        rule ends_guarded[where s = "insert_credential ?res", OF res], assumption, simp add: can, rule third)
qed

lemma change_pool_step:
  assumes "\<forall>p\<in>set (worker_pools d). wp_id p = i \<longrightarrow> pool_columns_ok (f p)"
  shows "change_pool i f d = Inr ((), changed_pool i f d)"
  using assms by (auto simp: change_pool_def changed_pool_def)

lemma audited_sel [simp]:
  "worker_pools (audited i action actor reason d) = worker_pools d"
  "worker_pool_credentials (audited i action actor reason d) = worker_pool_credentials d"
  "worker_pool_audit_events (audited i action actor reason d) =
     worker_pool_audit_events d @ [audit_row i action actor reason]"
  by (simp_all add: audited_def)

lemma pool_named_audited [simp]: "pool_named j (audited i action actor reason d) = pool_named j d"
  by (simp add: pool_named_def)

definition pool_satisfies :: "(worker_pool_row \<Rightarrow> bool) \<Rightarrow> string \<Rightarrow> database \<Rightarrow> bool" where
  "pool_satisfies P i d = (case pool_named i d of None \<Rightarrow> False | Some p \<Rightarrow> P p)"

definition can_activate :: "time \<Rightarrow> string \<Rightarrow> string \<Rightarrow> string \<Rightarrow> database \<Rightarrow> bool" where
  "can_activate ts i actor reason d \<longleftrightarrow> pool_satisfies (activation_ready ts d) i d \<and> audit_ok actor reason"

definition can_move :: "string \<Rightarrow> string \<Rightarrow> string \<Rightarrow> string \<Rightarrow> database \<Rightarrow> bool" where
  "can_move i target actor reason d \<longleftrightarrow>
     pool_satisfies (\<lambda>p. transition_allowed (wp_lifecycle_state p) target) i d \<and> audit_ok actor reason"

definition can_reconcile :: "string \<Rightarrow> string \<Rightarrow> string \<Rightarrow> database \<Rightarrow> bool" where
  "can_reconcile i actor reason d \<longleftrightarrow> pool_named i d \<noteq> None \<and> audit_ok actor reason"

definition can_remove :: "time \<Rightarrow> string \<Rightarrow> string \<Rightarrow> string \<Rightarrow> database \<Rightarrow> bool" where
  "can_remove ts i actor reason d \<longleftrightarrow>
     pool_satisfies (\<lambda>p. deletion_state ts d p = (''deleting'', 0, 0)) i d \<and> \<not> pool_referenced i d \<and> audit_ok actor reason"

definition pool_rows_ok :: "database \<Rightarrow> bool" where
  "pool_rows_ok d \<longleftrightarrow> (\<forall>p\<in>set (worker_pools d). pool_columns_ok p)"

lemma activate_row_columns: "pool_columns_ok p \<Longrightarrow> length digest = 32 \<Longrightarrow> pool_columns_ok (activate_row digest p)"
  by (simp add: pool_columns_ok_def activate_row_def lifecycle_states_def key_length_ok_def)

lemma move_row_columns: "pool_columns_ok p \<Longrightarrow> target \<in> set lifecycle_states \<Longrightarrow> pool_columns_ok (move_row target p)"
  by (simp add: pool_columns_ok_def move_row_def)

lemma activate_ends:
  fixes d :: database
  assumes rows: "pool_rows_ok d" and digest: "length digest = 32"
  shows "ends_in (activate_fragment ts i digest actor reason :: (database, 'x, 'r, go_error, unit) fragment) d
     (\<lambda>_. \<not> can_activate ts i actor reason d)
     (\<lambda>_ d'. can_activate ts i actor reason d \<and> d' = audited i ''activate'' actor reason (activated i digest d))"
    (is "ends_in _ _ ?E ?Q")
proof -
  have change: "ActivateWorkerPool i digest d = Inr ((), changed_pool i (activate_row digest) d)"
    unfolding ActivateWorkerPool_def
    by (rule change_pool_step) (use rows digest in \<open>auto simp: pool_rows_ok_def intro: activate_row_columns\<close>)
  have rest: "ends_in (\<lambda>h k. query (ActivateWorkerPool i digest) (h \<circ> Db) (\<lambda>_.
      query (ActivatePendingWorkerPoolCredentials i) (h \<circ> Db) (\<lambda>_. audit i ''activate'' actor reason h k))
      :: (database, 'x, 'r) program) d ?E ?Q" if "pool_satisfies (activation_ready ts d) i d"
    unfolding ActivatePendingWorkerPoolCredentials_def
    by (rule ends_query[where s = "ActivateWorkerPool i digest", OF change], rule ends_writing, rule audit_ends)
      (use that in \<open>auto simp: audit_actions_def can_activate_def activated_def changed_pool_def\<close>)
  show ?thesis
  proof (cases "pool_satisfies (activation_ready ts d) i d")
    case True
    with rest show ?thesis
      unfolding activate_fragment_def[abs_def] LockWorkerPoolActivationReadiness_def
      by (intro ends_reading) (auto simp: pool_satisfies_def split: option.splits)
  next
    case False
    then show ?thesis
      unfolding activate_fragment_def[abs_def] LockWorkerPoolActivationReadiness_def
      by (intro ends_reading, cases "pool_named i d")
        (auto simp: pool_satisfies_def can_activate_def intro: ends_fail)
  qed
qed

lemma transition_action_known:
  assumes "map_of transition_actions target = Some action"
  shows "target \<in> set lifecycle_states" "action \<in> set audit_actions"
  using assms by (auto simp: transition_actions_def lifecycle_states_def audit_actions_def split: if_splits)

lemma transition_ends:
  fixes d :: database
  assumes rows: "pool_rows_ok d" and action: "map_of transition_actions target = Some action"
  shows "ends_in (transition_fragment ts i target action actor reason :: (database, 'x, 'r, go_error, unit) fragment) d
     (\<lambda>_. \<not> can_move i target actor reason d)
     (\<lambda>_ d'. can_move i target actor reason d \<and> d' = audited i action actor reason (transitioned ts i target d))"
    (is "ends_in _ _ ?E ?Q")
proof -
  have change: "UpdateWorkerPoolLifecycle i target d = Inr ((), changed_pool i (move_row target) d)"
    unfolding UpdateWorkerPoolLifecycle_def
    by (rule change_pool_step)
      (use rows transition_action_known(1)[OF action] in \<open>auto simp: pool_rows_ok_def intro: move_row_columns\<close>)
  have last: "ends_in (\<lambda>h k. audit i action actor reason h k :: (database, 'x, 'r) program) (transitioned ts i target d) ?E ?Q"
    if "pool_satisfies (\<lambda>p. transition_allowed (wp_lifecycle_state p) target) i d"
    by (rule audit_ends) (use that transition_action_known(2)[OF action] in \<open>auto simp: can_move_def\<close>)
  have revoke: "ends_in (\<lambda>h k. (if target = ''revoked'' \<or> target = ''deleting'' then query (RevokeWorkerPoolCredentials ts i) (h \<circ> Db)
      else (\<lambda>k. k ())) (\<lambda>_. audit i action actor reason h k) :: (database, 'x, 'r) program)
      (changed_pool i (move_row target) d) ?E ?Q"
    if sat: "pool_satisfies (\<lambda>p. transition_allowed (wp_lifecycle_state p) target) i d"
  proof (cases "target = ''revoked'' \<or> target = ''deleting''")
    case True
    have "ends_in (\<lambda>h k. query (RevokeWorkerPoolCredentials ts i) (h \<circ> Db) (\<lambda>_. audit i action actor reason h k)
        :: (database, 'x, 'r) program) (changed_pool i (move_row target) d) ?E ?Q"
      unfolding RevokeWorkerPoolCredentials_def
      by (rule ends_writing)
        (rule back_subst[where P = "\<lambda>d. ends_in _ d _ _", OF last[OF sat]],
         use True in \<open>simp add: transitioned_def changed_pool_def\<close>)
    with True show ?thesis by simp
  next
    case False
    then have "transitioned ts i target d = changed_pool i (move_row target) d"
      by (simp add: transitioned_def changed_pool_def)
    with False last[OF sat] show ?thesis by simp
  qed
  show ?thesis
  proof (cases "pool_satisfies (\<lambda>p. transition_allowed (wp_lifecycle_state p) target) i d")
    case True
    then obtain p where p: "pool_named i d = Some p" "transition_allowed (wp_lifecycle_state p) target"
      by (auto simp: pool_satisfies_def split: option.splits)
    show ?thesis
      unfolding transition_fragment_def[abs_def] LockWorkerPoolLifecycleState_def
      by (rule ends_reading, simp add: p)
        (rule ends_query[where s = "UpdateWorkerPoolLifecycle i target", OF change], rule revoke[OF True, simplified])
  next
    case False
    then show ?thesis
      unfolding transition_fragment_def[abs_def] LockWorkerPoolLifecycleState_def
      by (intro ends_reading, cases "pool_named i d")
        (auto simp: pool_satisfies_def can_move_def intro: ends_fail)
  qed
qed

lemma reconcile_ends:
  fixes d :: database
  assumes rows: "pool_rows_ok d"
  shows "ends_in (reconcile_fragment i expectedDigest gatewayMapped actor reason :: (database, 'x, 'r, go_error, bool) fragment) d
     (\<lambda>_. \<not> can_reconcile i actor reason d)
     (\<lambda>drift d'. can_reconcile i actor reason d \<and> drift = drifted i expectedDigest gatewayMapped d \<and>
        d' = audited i ''reconcile'' actor reason (reconciled i drift d))"
    (is "ends_in _ _ ?E ?Q")
proof (cases "pool_named i d")
  case None
  then show ?thesis
    unfolding reconcile_fragment_def[abs_def] LockWorkerPoolManifestDigest_def
    by (intro ends_reading) (simp, rule ends_fail, simp add: can_reconcile_def)
next
  case (Some p)
  let ?drift = "drifted i expectedDigest gatewayMapped d"
  have drift: "(\<not> gatewayMapped \<or> coalesce_empty (wp_manifest_digest p) \<noteq> expectedDigest) = ?drift"
    by (simp add: drifted_def Some)
  have change: "FailWorkerPool i d = Inr ((), changed_pool i (move_row ''failed'') d)"
    unfolding FailWorkerPool_def
    by (rule change_pool_step) (use rows in \<open>auto simp: pool_rows_ok_def lifecycle_states_def intro!: move_row_columns\<close>)
  have event: "InsertWorkerPoolDriftEvent i (drift_details b) e = Inr ((), e\<lparr>monitoring_operational_events :=
      monitoring_operational_events e @ [\<lparr>oe_event_type = ''pool_drift'', oe_job_id = None, oe_worker_pool_id = Some i,
        oe_safe_details = drift_details b\<rparr>]\<rparr>)" for b e
    by (simp add: InsertWorkerPoolDriftEvent_def drift_details_def)
  have last: "ends_in (\<lambda>h k. audit i ''reconcile'' actor reason h (\<lambda>_.
      query (InsertWorkerPoolDriftEvent i (drift_details ?drift)) (h \<circ> Db) (\<lambda>_. k ?drift)) :: (database, 'x, 'r) program)
      (if ?drift then changed_pool i (move_row ''failed'') d else d) ?E ?Q" (is "ends_in _ ?d _ _")
  proof (rule audit_then)
    show "ends_in (\<lambda>h k. query (InsertWorkerPoolDriftEvent i (drift_details ?drift)) (h \<circ> Db) (\<lambda>_. k ?drift)
        :: (database, 'x, 'r) program) (audited i ''reconcile'' actor reason ?d) ?E ?Q" if "audit_ok actor reason"
      by (rule ends_query[where s = "InsertWorkerPoolDriftEvent i (drift_details ?drift)", OF event], rule ends_done)
        (use that in \<open>simp add: can_reconcile_def Some reconciled_def audited_def changed_pool_def\<close>)
  qed (auto simp: audit_actions_def can_reconcile_def Some)
  have body: "ends_in (\<lambda>h k. (if ?drift then query (FailWorkerPool i) (h \<circ> Db) else (\<lambda>k. k ())) (\<lambda>_.
      audit i ''reconcile'' actor reason h (\<lambda>_.
      query (InsertWorkerPoolDriftEvent i (drift_details ?drift)) (h \<circ> Db) (\<lambda>_. k ?drift))) :: (database, 'x, 'r) program) d ?E ?Q"
  proof (cases ?drift)
    case True
    show ?thesis
      unfolding if_P[OF True]
      by (rule ends_query[where s = "FailWorkerPool i", OF change]) (use last in \<open>simp only: if_P[OF True]\<close>)
  next
    case False
    with last show ?thesis by (simp only: if_False)
  qed
  show ?thesis
    unfolding reconcile_fragment_def[abs_def] LockWorkerPoolManifestDigest_def Let_def
    by (rule ends_reading) (unfold Some option.map option.case drift, rule body)
qed

lemma delete_ends:
  fixes d :: database
  shows "ends_in (delete_fragment ts i actor reason :: (database, 'x, 'r, go_error, unit) fragment) d
     (\<lambda>_. \<not> can_remove ts i actor reason d)
     (\<lambda>_ d'. can_remove ts i actor reason d \<and> d' = audited i ''delete_complete'' actor reason (removed i d))"
    (is "ends_in _ _ ?E ?Q")
proof (cases "pool_satisfies (\<lambda>p. deletion_state ts d p = (''deleting'', 0, 0)) i d")
  case True
  then obtain p where p: "pool_named i d = Some p" "deletion_state ts d p = (''deleting'', 0, 0)"
    by (auto simp: pool_satisfies_def split: option.splits)
  have known: "\<exists>p\<in>set (worker_pools d). wp_id p = i"
    using pool_named_Some[OF p(1)] by blast
  have delete: "DeleteWorkerPool i (audited i ''delete_complete'' actor reason d) =
      (if \<not> pool_referenced i d then Inr ((), audited i ''delete_complete'' actor reason (removed i d)) else Inl ''worker_pool_id_fkey'')"
    using known by (auto simp: DeleteWorkerPool_def pool_referenced_def audited_def removed_def)
  have "ends_in (\<lambda>h k. audit i ''delete_complete'' actor reason h (\<lambda>_. query (DeleteWorkerPool i) (h \<circ> Db) (\<lambda>a. k a))
      :: (database, 'x, 'r) program) d ?E ?Q"
  proof (rule audit_then)
    show "ends_in (\<lambda>h k. query (DeleteWorkerPool i) (h \<circ> Db) (\<lambda>a. k a) :: (database, 'x, 'r) program)
        (audited i ''delete_complete'' actor reason d) ?E ?Q" if "audit_ok actor reason"
      by (rule ends_guarded[where s = "DeleteWorkerPool i" and q = "\<lambda>a h k. k a", OF delete])
        (use that True in \<open>auto simp: can_remove_def intro: ends_done\<close>)
  qed (auto simp: audit_actions_def can_remove_def)
  then show ?thesis
    unfolding delete_fragment_def[abs_def] LockWorkerPoolDeletionState_def
    by (intro ends_reading) (simp add: p)
next
  case False
  then have E: "\<not> can_remove ts i actor reason d"
    by (simp add: can_remove_def)
  show ?thesis
  proof (cases "pool_named i d")
    case None
    show ?thesis
      unfolding delete_fragment_def[abs_def] LockWorkerPoolDeletionState_def
      by (rule ends_reading) (simp only: None option.map option.case, rule ends_fail, rule E)
  next
    case (Some p)
    obtain state jobs trusted where s: "deletion_state ts d p = (state, jobs, trusted)"
      by (cases "deletion_state ts d p")
    with False Some have bad: "(state \<noteq> ''deleting'' \<or> jobs \<noteq> 0 \<or> trusted \<noteq> 0) = True"
      by (simp add: pool_satisfies_def)
    show ?thesis
      unfolding delete_fragment_def[abs_def] LockWorkerPoolDeletionState_def
      by (rule ends_reading) (simp only: Some option.map option.case s prod.case bad if_True, rule ends_fail, rule E)
  qed
qed

subsection \<open>The lifecycle as a state machine\<close>

text \<open>
  The events of a pool's life and the steps they allow between its states, where \<open>None\<close> is a pool that does
  not exist.  A drift moves a pool to \<open>failed\<close> from whatever state it is in.
\<close>

datatype pool_event = Registered | Activated | Moved string | Verified | Drifted | Removed

inductive pool_step :: "pool_event \<Rightarrow> string option \<Rightarrow> string option \<Rightarrow> bool" where
  register: "pool_step Registered None (Some ''provisioning'')"
| activate: "pool_step Activated (Some ''provisioning'') (Some ''active'')"
| drain: "pool_step (Moved ''draining'') (Some ''active'') (Some ''draining'')"
| revoke: "s \<in> set [''provisioning'', ''active'', ''draining''] \<Longrightarrow> pool_step (Moved ''revoked'') (Some s) (Some ''revoked'')"
| fail: "s \<in> set [''provisioning'', ''active''] \<Longrightarrow> pool_step (Moved ''failed'') (Some s) (Some ''failed'')"
| dismantle: "s \<in> set [''draining'', ''revoked'', ''failed''] \<Longrightarrow> pool_step (Moved ''deleting'') (Some s) (Some ''deleting'')"
| verify: "pool_step Verified (Some s) (Some s)"
| drift: "pool_step Drifted (Some s) (Some ''failed'')"
| remove: "pool_step Removed (Some ''deleting'') None"

inductive_cases pool_stepE: "pool_step e s s'"
inductive_simps pool_step_simps:
  "pool_step Registered s s'" "pool_step Activated s s'" "pool_step Removed s s'" "pool_step Drifted s s'" "pool_step Verified s s'"

definition event_action :: "pool_event \<Rightarrow> string" where
  "event_action e = (case e of
     Registered \<Rightarrow> ''register'' | Activated \<Rightarrow> ''activate'' | Verified \<Rightarrow> ''reconcile'' | Drifted \<Rightarrow> ''reconcile''
   | Removed \<Rightarrow> ''delete_complete''
   | Moved target \<Rightarrow> (case map_of transition_actions target of None \<Rightarrow> [] | Some action \<Rightarrow> action))"

definition pool_state :: "string \<Rightarrow> database \<Rightarrow> string option" where
  "pool_state i d = map_option wp_lifecycle_state (pool_named i d)"

lemma transition_allowed_step:
  assumes "map_of transition_actions target = Some action" "transition_allowed s target"
  shows "pool_step (Moved target) (Some s) (Some target)"
  using assms by (auto simp: transition_actions_def transition_allowed_def transition_targets_def
      intro: pool_step.intros split: if_splits option.splits)

text \<open>
  An operation on a pool moves the pool along a step of the machine, records the step under the operator's
  name, and changes no other pool and no other table but the operational events.
\<close>

definition only_pool :: "string \<Rightarrow> database \<Rightarrow> database \<Rightarrow> bool" where
  "only_pool i d d' \<longleftrightarrow>
     filter (\<lambda>p. wp_id p \<noteq> i) (worker_pools d') = filter (\<lambda>p. wp_id p \<noteq> i) (worker_pools d) \<and>
     filter (\<lambda>c. cr_worker_pool_id c \<noteq> i) (worker_pool_credentials d') =
       filter (\<lambda>c. cr_worker_pool_id c \<noteq> i) (worker_pool_credentials d) \<and>
     d' = d\<lparr>worker_pools := worker_pools d', worker_pool_credentials := worker_pool_credentials d',
            worker_pool_audit_events := worker_pool_audit_events d',
            monitoring_operational_events := monitoring_operational_events d'\<rparr>"

definition performed :: "string \<Rightarrow> pool_event \<Rightarrow> string \<Rightarrow> string \<Rightarrow> database \<Rightarrow> database \<Rightarrow> bool" where
  "performed i e actor reason d d' \<longleftrightarrow>
     pool_step e (pool_state i d) (pool_state i d') \<and> only_pool i d d' \<and>
     worker_pool_audit_events d' = worker_pool_audit_events d @ [audit_row i (event_action e) actor reason]"

lemma pool_state_audited [simp]: "pool_state j (audited i action actor reason d) = pool_state j d"
  by (simp add: pool_state_def)

lemma filter_update_other:
  assumes "\<And>x. p x \<Longrightarrow> \<not> q x" "\<And>x. p x \<Longrightarrow> \<not> q (f x)"
  shows "filter q (update_where p f rows) = filter q rows"
  using assms by (induction rows) auto

lemma moved_state:
  assumes "\<And>p. wp_id (f p) = wp_id p"
  shows "pool_named i (changed_pool i f d) = map_option f (pool_named i d)"
  unfolding pool_named_def changed_pool_def by (simp, rule select_one_update) (simp add: assms)

lemma registered_performed:
  assumes "can_register c ts r actor reason d"
  shows "performed (rg_ID r) Registered actor reason d (audited (rg_ID r) ''register'' actor reason (registered c ts r d))"
proof -
  have none: "pool_named (rg_ID r) d = None"
    using assms by (simp add: can_register_def)
  have "pool_named (rg_ID r) (registered c ts r d) = Some (registered_pool r)"
    using none by (simp add: pool_named_def registered_def select_one_append) (simp add: select_one_def registered_pool_def)
  then have "pool_step Registered (pool_state (rg_ID r) d) (pool_state (rg_ID r) (registered c ts r d))"
    using none by (simp add: pool_state_def registered_pool_def pool_step.register)
  moreover have "\<forall>x\<in>set (new_credentials c ts r). cr_worker_pool_id x = rg_ID r"
    by (auto simp: new_credentials_def pending_credential_def)
  ultimately show ?thesis
    by (simp add: performed_def only_pool_def event_action_def registered_def audited_def registered_pool_def filter_empty_conv)
      (simp add: pool_state_def pool_named_def)
qed

lemma activated_performed:
  assumes "can_activate ts i actor reason d"
  shows "performed i Activated actor reason d (audited i ''activate'' actor reason (activated i digest d))"
proof -
  obtain p where p: "pool_named i d = Some p" "wp_lifecycle_state p = ''provisioning''"
    using assms by (auto simp: can_activate_def pool_satisfies_def activation_ready_def split: option.splits)
  have "pool_named i (activated i digest d) = pool_named i (changed_pool i (activate_row digest) d)"
    by (simp add: activated_def pool_named_def)
  then have "pool_step Activated (pool_state i d) (pool_state i (activated i digest d))"
    using p moved_state[of "activate_row digest" i d]
    by (simp add: pool_state_def activate_row_def pool_step.activate)
  moreover have "only_pool i d (audited i ''activate'' actor reason (activated i digest d))"
    by (simp add: only_pool_def audited_def activated_def changed_pool_def)
      (intro conjI filter_update_other; simp add: activate_row_def)
  ultimately show ?thesis
    by (simp add: performed_def event_action_def) (simp add: activated_def changed_pool_def)
qed

lemma transitioned_performed:
  assumes "map_of transition_actions target = Some action" "can_move i target actor reason d"
  shows "performed i (Moved target) actor reason d (audited i action actor reason (transitioned ts i target d))"
proof -
  obtain p where p: "pool_named i d = Some p" "transition_allowed (wp_lifecycle_state p) target"
    using assms(2) by (auto simp: can_move_def pool_satisfies_def split: option.splits)
  have "pool_named i (transitioned ts i target d) = pool_named i (changed_pool i (move_row target) d)"
    by (simp add: transitioned_def pool_named_def)
  then have "pool_step (Moved target) (pool_state i d) (pool_state i (transitioned ts i target d))"
    using p moved_state[of "move_row target" i d] transition_allowed_step[OF assms(1) p(2)]
    by (simp add: pool_state_def move_row_def)
  moreover have "only_pool i d (audited i action actor reason (transitioned ts i target d))"
    by (simp add: only_pool_def audited_def transitioned_def changed_pool_def)
      (intro conjI impI filter_update_other; simp add: move_row_def revoke_credential_def)
  ultimately show ?thesis
    by (simp add: performed_def event_action_def assms(1)) (simp add: transitioned_def changed_pool_def)
qed

lemma reconciled_performed:
  assumes "can_reconcile i actor reason d"
  shows "performed i (if drift then Drifted else Verified) actor reason d (audited i ''reconcile'' actor reason (reconciled i drift d))"
proof -
  obtain p where p: "pool_named i d = Some p"
    using assms by (auto simp: can_reconcile_def)
  have named: "pool_named i (reconciled i drift d) = pool_named i (if drift then changed_pool i (move_row ''failed'') d else d)"
    by (simp add: reconciled_def pool_named_def)
  have "pool_step (if drift then Drifted else Verified) (pool_state i d) (pool_state i (reconciled i drift d))"
    using p moved_state[of "move_row ''failed''" i d]
    by (simp add: pool_state_def named) (simp add: move_row_def pool_step.intros)
  moreover have "only_pool i d (audited i ''reconcile'' actor reason (reconciled i drift d))"
    by (simp add: only_pool_def audited_def reconciled_def changed_pool_def)
      (intro conjI impI filter_update_other; simp add: move_row_def)
  ultimately show ?thesis
    by (simp add: performed_def event_action_def) (simp add: reconciled_def changed_pool_def)
qed

lemma removed_performed:
  assumes "can_remove ts i actor reason d"
  shows "performed i Removed actor reason d (audited i ''delete_complete'' actor reason (removed i d))"
proof -
  obtain p where p: "pool_named i d = Some p" "wp_lifecycle_state p = ''deleting''"
    using assms by (auto simp: can_remove_def pool_satisfies_def deletion_state_def split: option.splits)
  have "pool_named i (removed i d) = None"
    by (simp add: pool_named_None removed_def)
  then have "pool_step Removed (pool_state i d) (pool_state i (removed i d))"
    using p by (simp add: pool_state_def pool_step.remove)
  moreover have "only_pool i d (audited i ''delete_complete'' actor reason (removed i d))"
    by (simp add: only_pool_def audited_def removed_def)
  ultimately show ?thesis
    by (simp add: performed_def event_action_def) (simp add: removed_def)
qed

subsection \<open>Well-formed pools\<close>

definition credential_id :: "credential_row \<Rightarrow> string \<times> string \<times> string" where
  "credential_id c = (cr_worker_pool_id c, cr_purpose c, cr_key_id c)"

definition withdrawn :: "string \<Rightarrow> bool" where
  "withdrawn s \<longleftrightarrow> s = ''revoked'' \<or> s = ''deleting''"

definition pools_ok :: "database \<Rightarrow> bool" where
  "pools_ok d \<longleftrightarrow>
     distinct (map wp_id (worker_pools d)) \<and> distinct (map credential_id (worker_pool_credentials d)) \<and>
     pool_rows_ok d \<and> (\<forall>p\<in>set (worker_pools d). wp_enabled p \<longrightarrow> wp_lifecycle_state p = ''active'') \<and>
     credentials_owned d \<and> (\<forall>c\<in>set (worker_pool_credentials d). credential_columns_ok c) \<and>
     (\<forall>c\<in>set (worker_pool_credentials d). \<forall>p\<in>set (worker_pools d).
        wp_id p = cr_worker_pool_id c \<longrightarrow> withdrawn (wp_lifecycle_state p) \<longrightarrow> cr_status c = ''revoked'')"

lemma pools_okD:
  assumes "pools_ok d"
  shows "distinct (map wp_id (worker_pools d))" "pool_rows_ok d" "credentials_owned d"
    "p \<in> set (worker_pools d) \<Longrightarrow> wp_enabled p \<Longrightarrow> wp_lifecycle_state p = ''active''"
    "c \<in> set (worker_pool_credentials d) \<Longrightarrow> credential_columns_ok c"
    "c \<in> set (worker_pool_credentials d) \<Longrightarrow> p \<in> set (worker_pools d) \<Longrightarrow> wp_id p = cr_worker_pool_id c \<Longrightarrow>
       withdrawn (wp_lifecycle_state p) \<Longrightarrow> cr_status c = ''revoked''"
  using assms by (auto simp: pools_ok_def)

lemma pools_okI:
  assumes "distinct (map wp_id (worker_pools d))" "distinct (map credential_id (worker_pool_credentials d))"
    "\<And>p. p \<in> set (worker_pools d) \<Longrightarrow> pool_columns_ok p"
    "\<And>p. p \<in> set (worker_pools d) \<Longrightarrow> wp_enabled p \<Longrightarrow> wp_lifecycle_state p = ''active''"
    "\<And>c. c \<in> set (worker_pool_credentials d) \<Longrightarrow> \<exists>p\<in>set (worker_pools d). wp_id p = cr_worker_pool_id c"
    "\<And>c. c \<in> set (worker_pool_credentials d) \<Longrightarrow> credential_columns_ok c"
    "\<And>c p. c \<in> set (worker_pool_credentials d) \<Longrightarrow> p \<in> set (worker_pools d) \<Longrightarrow> wp_id p = cr_worker_pool_id c \<Longrightarrow>
       withdrawn (wp_lifecycle_state p) \<Longrightarrow> cr_status c = ''revoked''"
  shows "pools_ok d"
  using assms unfolding pools_ok_def pool_rows_ok_def credentials_owned_def by blast

lemma pools_ok_cong:
  "worker_pools d' = worker_pools d \<Longrightarrow> worker_pool_credentials d' = worker_pool_credentials d \<Longrightarrow> pools_ok d' = pools_ok d"
  by (simp add: pools_ok_def pool_rows_ok_def credentials_owned_def)

lemma pools_ok_audited [simp]: "pools_ok (audited i action actor reason d) = pools_ok d"
  by (rule pools_ok_cong) simp_all

lemma pools_ok_registered:
  assumes "pools_ok d" "can_register c ts r actor reason d"
  shows "pools_ok (registered c ts r d)"
proof -
  have can: "pool_columns_ok (registered_pool r)" "\<forall>p\<in>set (worker_pools d). wp_id p \<noteq> rg_ID r"
    "\<forall>x\<in>set (new_credentials c ts r). credential_columns_ok x"
    using assms(2) by (auto simp: can_register_def pool_named_None list_all_iff)
  have new: "cr_worker_pool_id x = rg_ID r" if "x \<in> set (new_credentials c ts r)" for x
    using that by (auto simp: new_credentials_def pending_credential_def)
  have old: "cr_worker_pool_id x \<noteq> rg_ID r" if "x \<in> set (worker_pool_credentials d)" for x
    using that pools_okD(3)[OF assms(1)] can(2) by (auto simp: credentials_owned_def)
  have "distinct (map credential_id (new_credentials c ts r))"
    by (simp add: new_credentials_def registered_keys_def credential_id_def pending_credential_def)
  moreover have "credential_id x \<noteq> credential_id y" if "x \<in> set (new_credentials c ts r)" "y \<in> set (worker_pool_credentials d)" for x y
    using new[OF that(1)] old[OF that(2)] by (auto simp: credential_id_def)
  ultimately have "distinct (map credential_id (worker_pool_credentials d @ new_credentials c ts r))"
    using assms(1) by (fastforce simp: pools_ok_def)
  then have creds: "distinct (map credential_id (worker_pool_credentials (registered c ts r d)))"
    by (simp add: registered_def)
  have pools: "worker_pools (registered c ts r d) = worker_pools d @ [registered_pool r]"
    "worker_pool_credentials (registered c ts r d) = worker_pool_credentials d @ new_credentials c ts r"
    by (simp_all add: registered_def)
  have row: "wp_id (registered_pool r) = rg_ID r" "\<not> wp_enabled (registered_pool r)" "\<not> withdrawn (wp_lifecycle_state (registered_pool r))"
    by (simp_all add: registered_pool_def withdrawn_def)
  show ?thesis
  proof (rule pools_okI)
    show "distinct (map wp_id (worker_pools (registered c ts r d)))"
      using pools_okD(1)[OF assms(1)] can(2) by (auto simp: pools row)
    fix x p
    assume x: "x \<in> set (worker_pool_credentials (registered c ts r d))" "p \<in> set (worker_pools (registered c ts r d))"
      "wp_id p = cr_worker_pool_id x" "withdrawn (wp_lifecycle_state p)"
    then have p: "p \<in> set (worker_pools d)"
      using row(3) by (auto simp: pools)
    with x(3) can(2) new have "x \<in> set (worker_pool_credentials d)"
      using x(1) by (auto simp: pools)
    then show "cr_status x = ''revoked''"
      using p x(3,4) by (rule pools_okD(6)[OF assms(1)])
  next
    fix p
    assume "p \<in> set (worker_pools (registered c ts r d))"
    then show "pool_columns_ok p" "wp_enabled p \<Longrightarrow> wp_lifecycle_state p = ''active''"
      using can(1) row(2) pools_okD(2,4)[OF assms(1)] by (auto simp: pools pool_rows_ok_def)
  next
    fix x
    assume "x \<in> set (worker_pool_credentials (registered c ts r d))"
    then show "\<exists>p\<in>set (worker_pools (registered c ts r d)). wp_id p = cr_worker_pool_id x" "credential_columns_ok x"
      using pools_okD(3,5)[OF assms(1)] can(3) new row(1) by (auto simp: pools credentials_owned_def)
  qed (rule creds)
qed

lemma pools_ok_changed:
  assumes ok: "pools_ok d"
    and f: "\<And>p. wp_id (f p) = wp_id p"
      "\<And>p. p \<in> set (worker_pools d) \<Longrightarrow> pool_columns_ok (f p)" "\<And>p. wp_enabled (f p) \<Longrightarrow> wp_lifecycle_state (f p) = ''active''"
    and g: "\<And>c. q c \<Longrightarrow> credential_id (g c) = credential_id c" "\<And>c. q c \<Longrightarrow> credential_columns_ok c \<Longrightarrow> credential_columns_ok (g c)"
      "\<And>c. q c \<Longrightarrow> cr_worker_pool_id c = i"
    and out: "\<And>p c. c \<in> set (worker_pool_credentials d) \<Longrightarrow> cr_worker_pool_id c = i \<Longrightarrow> withdrawn (wp_lifecycle_state (f p)) \<Longrightarrow>
      cr_status (if q c then g c else c) = ''revoked''"
  shows "pools_ok ((changed_pool i f d)\<lparr>worker_pool_credentials := update_where q g (worker_pool_credentials d)\<rparr>)"
    (is "pools_ok ?d")
proof -
  let ?F = "\<lambda>p. if wp_id p = i then f p else p" and ?G = "\<lambda>c. if q c then g c else c"
  have F: "worker_pools ?d = map ?F (worker_pools d)" and G: "worker_pool_credentials ?d = map ?G (worker_pool_credentials d)"
    by (simp_all add: changed_pool_def update_where_def)
  have ids: "wp_id \<circ> ?F = wp_id" "credential_id \<circ> ?G = credential_id"
    using f(1) g(1) by (auto simp: fun_eq_iff)
  have pool: "cr_worker_pool_id (?G c) = cr_worker_pool_id c" for c
    using g(1)[of c] by (simp add: credential_id_def)
  have kept: "cr_status (?G c) = ''revoked''"
    if "c \<in> set (worker_pool_credentials d)" "p \<in> set (worker_pools d)" "wp_id (?F p) = cr_worker_pool_id (?G c)"
      "withdrawn (wp_lifecycle_state (?F p))" for c p
  proof (cases "wp_id p = i")
    case True
    then have "cr_worker_pool_id c = i" "withdrawn (wp_lifecycle_state (f p))"
      using that(3,4) unfolding if_P[OF True] pool f(1) by simp_all
    with that(1) out show ?thesis by blast
  next
    case False
    then have c: "wp_id p = cr_worker_pool_id c" "withdrawn (wp_lifecycle_state p)"
      using that(3,4) unfolding if_not_P[OF False] pool by simp_all
    with g(3) False have "\<not> q c" by auto
    with pools_okD(6)[OF ok that(1,2) c] show ?thesis by simp
  qed
  show ?thesis
  proof (rule pools_okI)
    show "distinct (map wp_id (worker_pools ?d))" "distinct (map credential_id (worker_pool_credentials ?d))"
      using ok by (simp_all only: F G map_map ids pools_ok_def)
    fix c p
    assume "c \<in> set (worker_pool_credentials ?d)" "p \<in> set (worker_pools ?d)" "wp_id p = cr_worker_pool_id c"
      "withdrawn (wp_lifecycle_state p)"
    then show "cr_status c = ''revoked''"
      unfolding F G set_map using kept by blast
  next
    fix p
    assume "p \<in> set (worker_pools ?d)"
    then obtain p' where p': "p' \<in> set (worker_pools d)" "p = ?F p'"
      unfolding F set_map by blast
    then show "pool_columns_ok p" "wp_enabled p \<Longrightarrow> wp_lifecycle_state p = ''active''"
      using pools_okD(2,4)[OF ok] f(2,3) by (cases "wp_id p' = i"; simp add: pool_rows_ok_def)+
  next
    fix c
    assume "c \<in> set (worker_pool_credentials ?d)"
    then obtain c' where c': "c' \<in> set (worker_pool_credentials d)" "c = ?G c'"
      unfolding G set_map by blast
    then show "credential_columns_ok c"
      using pools_okD(5)[OF ok] g(2) by (cases "q c'") simp_all
    obtain p where p: "p \<in> set (worker_pools d)" "wp_id p = cr_worker_pool_id c'"
      using c'(1) pools_okD(3)[OF ok] by (auto simp: credentials_owned_def)
    then have "?F p \<in> set (worker_pools ?d)" "wp_id (?F p) = cr_worker_pool_id c"
      unfolding F set_map c'(2) pool by (blast, simp add: f(1))
    then show "\<exists>p\<in>set (worker_pools ?d). wp_id p = cr_worker_pool_id c" by blast
  qed
qed

lemma credential_status_columns:
  "credential_columns_ok c \<Longrightarrow> credential_columns_ok (c\<lparr>cr_status := ''active''\<rparr>)"
  "credential_columns_ok c \<Longrightarrow> credential_columns_ok (revoke_credential ts c)"
  by (auto simp: credential_columns_ok_def revoke_credential_def)

lemma pools_ok_activated:
  assumes "pools_ok d" "length digest = 32"
  shows "pools_ok (activated i digest d)"
  unfolding activated_def
  by (rule pools_ok_changed[OF assms(1)])
    (use pools_okD(2)[OF assms(1)] assms(2) in \<open>auto simp: pool_rows_ok_def credential_id_def credential_status_columns withdrawn_def
       intro: activate_row_columns, simp_all add: activate_row_def\<close>)

lemma pools_ok_transitioned:
  assumes ok: "pools_ok d" and "map_of transition_actions target = Some action"
  shows "pools_ok (transitioned ts i target d)"
proof -
  have target: "target \<in> set lifecycle_states"
    by (rule transition_action_known(1)[OF assms(2)])
  have rows: "pool_columns_ok (move_row target p)" if "p \<in> set (worker_pools d)" for p
    using pools_okD(2)[OF ok] that by (auto simp: pool_rows_ok_def intro: move_row_columns[OF _ target])
  let ?q = "\<lambda>c. (target = ''revoked'' \<or> target = ''deleting'') \<and> cr_worker_pool_id c = i \<and>
      cr_status c \<in> set [''pending'', ''active'', ''retired'']"
  have "transitioned ts i target d =
      (changed_pool i (move_row target) d)\<lparr>worker_pool_credentials := update_where ?q (revoke_credential ts) (worker_pool_credentials d)\<rparr>"
    by (simp add: transitioned_def update_where_none)
  also have "pools_ok \<dots>"
  proof (rule pools_ok_changed[OF ok])
    fix p c
    assume c: "c \<in> set (worker_pool_credentials d)" "cr_worker_pool_id c = i" "withdrawn (wp_lifecycle_state (move_row target p))"
    have "cr_status c \<in> set [''pending'', ''active'', ''retired'', ''revoked'']"
      using pools_okD(5)[OF ok c(1)] by (simp add: credential_columns_ok_def)
    with c(2,3) show "cr_status (if ?q c then revoke_credential ts c else c) = ''revoked''"
      by (auto simp: withdrawn_def move_row_def revoke_credential_def)
  qed (use rows in \<open>auto simp: credential_id_def credential_status_columns, simp_all add: move_row_def revoke_credential_def\<close>)
  finally show ?thesis .
qed

lemma pools_ok_reconciled:
  assumes ok: "pools_ok d"
  shows "pools_ok (reconciled i drift d)"
proof -
  have "pools_ok ((changed_pool i (move_row ''failed'') d)\<lparr>worker_pool_credentials := update_where (\<lambda>_. False) id (worker_pool_credentials d)\<rparr>)"
    by (rule pools_ok_changed[OF ok])
      (use pools_okD(2)[OF ok] in \<open>auto simp: pool_rows_ok_def lifecycle_states_def withdrawn_def intro!: move_row_columns,
        simp_all add: move_row_def\<close>)
  moreover have "worker_pools (reconciled i drift d) = worker_pools (if drift then changed_pool i (move_row ''failed'') d else d)"
    "worker_pool_credentials (reconciled i drift d) = worker_pool_credentials d"
    by (simp_all add: reconciled_def changed_pool_def)
  ultimately show ?thesis
    using ok by (cases drift) (simp_all add: pools_ok_def pool_rows_ok_def credentials_owned_def update_where_none)
qed

lemma pools_ok_removed:
  assumes ok: "pools_ok d"
  shows "pools_ok (removed i d)"
  using ok unfolding pools_ok_def removed_def pool_rows_ok_def credentials_owned_def
  by (simp add: distinct_map_filter) metis

subsection \<open>Sequences of operations\<close>

text \<open>A call of the service with its operator, its reason, and the clocks it reads.\<close>

datatype service_call =
  Call_Register Registration
| Call_Activate string bytes bool
| Call_Transition string string
| Call_Reconcile string bytes bool
| Call_Delete string string DeletionReadiness

record operator_call =
  oc_call :: service_call
  oc_actor :: string
  oc_reason :: string
  oc_now :: time
  oc_ts :: time

definition service :: "primitives \<Rightarrow> operator_call \<Rightarrow> ('x, go_error option) handler" where
  "service c a =
     (case oc_call a of
        Call_Register r \<Rightarrow> Register c (oc_now a) (oc_ts a) r (oc_actor a) (oc_reason a)
      | Call_Activate i digest mapped \<Rightarrow> Activate (oc_ts a) i digest mapped (oc_actor a) (oc_reason a)
      | Call_Transition i target \<Rightarrow> Transition (oc_ts a) i target (oc_actor a) (oc_reason a)
      | Call_Reconcile i digest mapped \<Rightarrow> Reconcile i digest mapped (oc_actor a) (oc_reason a)
      | Call_Delete i confirmation readiness \<Rightarrow> Delete_pool (oc_ts a) i confirmation (oc_actor a) (oc_reason a) readiness)"

definition call_pool :: "service_call \<Rightarrow> string" where
  "call_pool call = (case call of
     Call_Register r \<Rightarrow> rg_ID r | Call_Activate i _ _ \<Rightarrow> i | Call_Transition i _ \<Rightarrow> i | Call_Reconcile i _ _ \<Rightarrow> i
   | Call_Delete i _ _ \<Rightarrow> i)"

definition call_events :: "service_call \<Rightarrow> pool_event list" where
  "call_events call = (case call of
     Call_Register r \<Rightarrow> [Registered] | Call_Activate i _ _ \<Rightarrow> [Activated] | Call_Transition i target \<Rightarrow> [Moved target]
   | Call_Reconcile i _ _ \<Rightarrow> [Verified, Drifted] | Call_Delete i _ _ \<Rightarrow> [Removed])"

definition event_error :: "pool_event \<Rightarrow> go_error option" where
  "event_error e = (if e = Drifted then Some (Err ''worker-pool drift detected'') else None)"

text \<open>The contract of a call: it is refused and changes nothing, or it performs one of its events.\<close>

definition call_outcome ::
  "operator_call \<Rightarrow> (database, 'x) world \<Rightarrow> go_error option \<Rightarrow> (database, 'x) world \<Rightarrow> bool" where
  "call_outcome a w r w' \<longleftrightarrow>
     outside w' = outside w \<and> pools_ok (durable w') \<and>
     ((durable w' = durable w \<and> r \<noteq> None) \<or>
      (\<exists>e\<in>set (call_events (oc_call a)).
         performed (call_pool (oc_call a)) e (oc_actor a) (oc_reason a) (durable w) (durable w') \<and>
         (faults w = [] \<longrightarrow> r = event_error e)))"

lemma call_outcome_refused: "pools_ok (durable w) \<Longrightarrow> call_outcome a w (Some e) w"
  by (simp add: call_outcome_def)

lemma call_outcome_transaction:
  fixes p :: "(database, 'x, go_error option, go_error, 'a) fragment"
  assumes "pools_ok (durable w)" "ends_in p (durable w) E Q"
    and "\<And>v d'. Q v d' \<Longrightarrow> pools_ok d' \<and> (\<exists>e\<in>set (call_events (oc_call a)).
      performed (call_pool (oc_call a)) e (oc_actor a) (oc_reason a) (durable w) d' \<and> good v = event_error e)"
  shows "case transaction Some good p w of (r, w') \<Rightarrow> call_outcome a w r w'"
  by (rule transactionI[OF assms(2)]; use assms(1,3) in \<open>fastforce simp: call_outcome_def\<close>)

lemma service_outcome:
  fixes w :: "(database, 'x) world"
  assumes ok: "pools_ok (durable w)"
  shows "case service c a w of (r, w') \<Rightarrow> call_outcome a w r w'"
proof -
  note refused = call_outcome_refused[OF ok]
  note rows = pools_okD(2)[OF ok]
  show ?thesis
  proof (cases "oc_call a")
    case (Call_Register r)
    have "case transaction Some (\<lambda>_. None) (register_fragment c (oc_ts a) r (oc_actor a) (oc_reason a)) w of (r, w') \<Rightarrow> call_outcome a w r w'"
      by (rule call_outcome_transaction[OF ok register_ends[OF pools_okD(3)[OF ok]]])
        (auto simp: Call_Register call_events_def call_pool_def event_error_def intro: pools_ok_registered[OF ok] registered_performed)
    then show ?thesis
      by (simp add: service_def Call_Register Register_def ret_def refused)
  next
    case (Call_Activate i digest mapped)
    have "case transaction Some (\<lambda>_. None) (activate_fragment (oc_ts a) i digest (oc_actor a) (oc_reason a)) w of (r, w') \<Rightarrow> call_outcome a w r w'"
      if "length digest = 32"
      by (rule call_outcome_transaction[OF ok activate_ends[OF rows that]])
        (auto simp: Call_Activate call_events_def call_pool_def event_error_def intro: pools_ok_activated[OF ok that] activated_performed)
    then show ?thesis
      by (simp add: service_def Call_Activate Activate_def ret_def refused)
  next
    case (Call_Transition i target)
    have "case transaction Some (\<lambda>_. None) (transition_fragment (oc_ts a) i target action (oc_actor a) (oc_reason a)) w of
        (r, w') \<Rightarrow> call_outcome a w r w'"
      if "map_of transition_actions target = Some action" for action
      by (rule call_outcome_transaction[OF ok transition_ends[OF rows that]])
        (auto simp: Call_Transition call_events_def call_pool_def event_error_def intro: pools_ok_transitioned[OF ok that] transitioned_performed[OF that])
    then show ?thesis
      by (simp add: service_def Call_Transition Transition_def ret_def refused split: option.split)
  next
    case (Call_Reconcile i digest mapped)
    have "case transaction Some (\<lambda>drift. if drift then Some (Err ''worker-pool drift detected'') else None)
        (reconcile_fragment i digest mapped (oc_actor a) (oc_reason a)) w of (r, w') \<Rightarrow> call_outcome a w r w'"
    proof (rule call_outcome_transaction[OF ok reconcile_ends[OF rows]])
      fix drift d'
      assume d': "can_reconcile i (oc_actor a) (oc_reason a) (durable w) \<and> drift = drifted i digest mapped (durable w) \<and>
        d' = audited i ''reconcile'' (oc_actor a) (oc_reason a) (reconciled i drift (durable w))"
      have "pools_ok d'"
        using d' by (simp add: pools_ok_reconciled[OF ok])
      moreover have "performed i (if drift then Drifted else Verified) (oc_actor a) (oc_reason a) (durable w) d'"
        using d' reconciled_performed by blast
      ultimately show "pools_ok d' \<and> (\<exists>e\<in>set (call_events (oc_call a)).
          performed (call_pool (oc_call a)) e (oc_actor a) (oc_reason a) (durable w) d' \<and>
          (if drift then Some (Err ''worker-pool drift detected'') else None) = event_error e)"
        by (cases drift) (simp_all add: Call_Reconcile call_events_def call_pool_def event_error_def)
    qed
    then show ?thesis
      by (simp add: service_def Call_Reconcile Reconcile_def ret_def refused)
  next
    case (Call_Delete i confirmation readiness)
    have "case transaction Some (\<lambda>_. None) (delete_fragment (oc_ts a) i (oc_actor a) (oc_reason a)) w of (r, w') \<Rightarrow> call_outcome a w r w'"
      by (rule call_outcome_transaction[OF ok delete_ends])
        (auto simp: Call_Delete call_events_def call_pool_def event_error_def intro: pools_ok_removed[OF ok] removed_performed)
    then show ?thesis
      by (simp add: service_def Call_Delete Delete_pool_def ret_def refused)
  qed
qed

lemma serviceD:
  assumes "pools_ok (durable w)"
  shows "call_outcome a w (fst (service c a w)) (snd (service c a w))"
  using service_outcome[OF assms, of a c] by (simp add: case_prod_beta)

text \<open>What a call does to the state of a pool, and to the audit trail.\<close>

definition service_step :: "pool_event set \<Rightarrow> database \<Rightarrow> database \<Rightarrow> bool" where
  "service_step es d d' \<longleftrightarrow>
     (\<forall>i. pool_state i d' = pool_state i d \<or> (\<exists>e\<in>es. pool_step e (pool_state i d) (pool_state i d'))) \<and>
     (\<exists>more. worker_pool_audit_events d' = worker_pool_audit_events d @ more)"

lemma only_pool_state:
  assumes "only_pool i d d'" "j \<noteq> i"
  shows "pool_state j d' = pool_state j d"
proof -
  have other: "find (\<lambda>p. wp_id p = j) rows = find (\<lambda>p. wp_id p = j) (filter (\<lambda>p. wp_id p \<noteq> i) rows)" for rows
    using assms(2) by (induction rows) auto
  have "filter (\<lambda>p. wp_id p \<noteq> i) (worker_pools d') = filter (\<lambda>p. wp_id p \<noteq> i) (worker_pools d)"
    using assms(1) by (simp add: only_pool_def)
  then show ?thesis
    by (simp add: pool_state_def pool_named_def select_one_def other[of "worker_pools d'"] other[of "worker_pools d"])
qed

lemma outcome_step:
  assumes "call_outcome a w r w'" "set (call_events (oc_call a)) \<subseteq> es"
  shows "service_step es (durable w) (durable w')"
  using assms(1) unfolding call_outcome_def
proof (elim conjE disjE bexE)
  assume "durable w' = durable w"
  then show ?thesis by (simp add: service_step_def)
next
  fix e
  assume e: "e \<in> set (call_events (oc_call a))"
    "performed (call_pool (oc_call a)) e (oc_actor a) (oc_reason a) (durable w) (durable w')"
  then show ?thesis
    using assms(2) only_pool_state[of "call_pool (oc_call a)" "durable w" "durable w'"]
    unfolding service_step_def performed_def by (metis subsetD)
qed

text \<open>The commands call the service, except that no mode starts the dismantling of a pool.\<close>

definition command_events :: "pool_event set" where
  "command_events = {Registered, Activated, Moved ''draining'', Moved ''revoked'', Moved ''failed'', Verified, Drifted, Removed}"

lemma operate_calls:
  obtains (refused) e where "operate g a = (ret (Some e) :: ('x, go_error option) handler)"
  | (calls) b where "operate g a = (service (pp_primitives g) b :: ('x, go_error option) handler)"
      "set (call_events (oc_call b)) \<subseteq> command_events"
      "pc_mode a = ''delete'' \<Longrightarrow> call_events (oc_call b) = [Removed]"
proof -
  note refused = that(1) and calls = that(2)
  let ?call = "\<lambda>call. \<lparr>oc_call = call, oc_actor = pc_actor a, oc_reason = pc_reason a, oc_now = pc_now a, oc_ts = pc_ts a\<rparr>"
  let ?p = "operate g a :: ('x, go_error option) handler"
  show thesis
  proof (cases "pc_pool a = [] \<or> TrimSpace (pc_actor a) = [] \<or> TrimSpace (pc_reason a) = [] \<or> TrimSpace (pc_databaseURL a) = []")
    case True
    let ?e = "if pc_pool a = [] \<or> TrimSpace (pc_actor a) = [] \<or> TrimSpace (pc_reason a) = []
        then Err ''pool, actor, and reason required'' else Err ''database URL required''"
    from True have "?p = ret (Some ?e)" by (auto simp: operate_def)
    then show thesis by (rule refused)
  next
    case False
    consider "pc_mode a = ''register''" | "pc_mode a = ''activate''" | "pc_mode a = ''reconcile''" | "pc_mode a = ''drain''"
      | "pc_mode a = ''revoke''" | "pc_mode a = ''fail''" | "pc_mode a = ''delete''"
      | "pc_mode a \<notin> {''register'', ''activate'', ''reconcile'', ''drain'', ''revoke'', ''fail'', ''delete''}"
      by blast
    then show thesis
    proof cases
      case 1
      show thesis
      proof (cases "bundled_registration g a")
        case (Inl e)
        with False 1 show thesis by (intro refused) (simp add: operate_def)
      next
        case (Inr r)
        with False 1 show thesis
          by (intro calls[of "?call (Call_Register r)"]) (simp_all add: operate_def service_def call_events_def command_events_def)
      qed
    next
      case 2
      show thesis
      proof (cases "manifestDigest (pp_primitives g) (pc_manifest_file a)")
        case (Inl e)
        with False 2 show thesis by (intro refused) (simp add: operate_def)
      next
        case (Inr digest)
        with False 2 show thesis
          by (intro calls[of "?call (Call_Activate (pc_pool a) digest (pc_gatewayMapped a))"])
            (simp_all add: operate_def service_def call_events_def command_events_def)
      qed
    next
      case 3
      show thesis
      proof (cases "manifestDigest (pp_primitives g) (pc_manifest_file a)")
        case (Inl e)
        with False 3 show thesis by (intro refused) (simp add: operate_def)
      next
        case (Inr digest)
        with False 3 show thesis
          by (intro calls[of "?call (Call_Reconcile (pc_pool a) digest (pc_gatewayMapped a))"])
            (simp_all add: operate_def service_def call_events_def command_events_def)
      qed
    next
      case 4
      with False show thesis by (intro calls[of "?call (Call_Transition (pc_pool a) ''draining'')"])
            (simp_all add: operate_def service_def call_events_def command_events_def)
    next
      case 5
      with False show thesis by (intro calls[of "?call (Call_Transition (pc_pool a) ''revoked'')"])
            (simp_all add: operate_def service_def call_events_def command_events_def)
    next
      case 6
      with False show thesis by (intro calls[of "?call (Call_Transition (pc_pool a) ''failed'')"])
            (simp_all add: operate_def service_def call_events_def command_events_def)
    next
      case 7
      with False show thesis by (intro calls[of "?call (Call_Delete (pc_pool a) (pc_confirmation a) (pc_readiness a))"])
            (simp_all add: operate_def service_def call_events_def command_events_def)
    next
      case 8
      with False show thesis by (intro refused) (simp add: operate_def)
    qed
  qed
qed

definition out_of_service :: "string option \<Rightarrow> bool" where
  "out_of_service s \<longleftrightarrow> s \<in> set [Some ''draining'', Some ''revoked'', Some ''failed'']"

definition kept_well :: "database \<Rightarrow> database \<Rightarrow> bool" where
  "kept_well d d' \<longleftrightarrow>
     (pools_ok d \<longrightarrow> pools_ok d' \<and> (\<exists>more. worker_pool_audit_events d' = worker_pool_audit_events d @ more))"

definition commanded :: "database \<Rightarrow> database \<Rightarrow> bool" where
  "commanded d d' \<longleftrightarrow>
     (pools_ok d \<longrightarrow> pools_ok d' \<and>
        (\<forall>i. out_of_service (pool_state i d) \<longrightarrow> out_of_service (pool_state i d')) \<and>
        ((\<forall>i. pool_state i d \<noteq> Some ''deleting'') \<longrightarrow>
           (\<forall>i. pool_state i d' \<noteq> Some ''deleting'' \<and> (pool_state i d \<noteq> None \<longrightarrow> pool_state i d' \<noteq> None))))"

lemma command_event_step:
  assumes "e \<in> command_events" "pool_step e s s'"
  shows "out_of_service s \<Longrightarrow> out_of_service s'"
    and "s \<noteq> Some ''deleting'' \<Longrightarrow> s' \<noteq> Some ''deleting'' \<and> (s \<noteq> None \<longrightarrow> s' \<noteq> None)"
  using assms(2,1) by (cases rule: pool_step.cases; simp add: out_of_service_def command_events_def)+

lemma command_commanded:
  assumes "service_step command_events d d'" "pools_ok d'"
  shows "commanded d d'"
proof -
  have "out_of_service (pool_state i d) \<Longrightarrow> out_of_service (pool_state i d')"
    and "pool_state i d \<noteq> Some ''deleting'' \<Longrightarrow>
      pool_state i d' \<noteq> Some ''deleting'' \<and> (pool_state i d \<noteq> None \<longrightarrow> pool_state i d' \<noteq> None)" for i
    using assms(1) command_event_step unfolding service_step_def by metis+
  with assms(2) show ?thesis
    unfolding commanded_def by blast
qed

lemma operate_commanded:
  fixes w :: "(database, 'x) world"
  shows "commanded (durable w) (durable (snd (operate g a w)))"
proof (cases "pools_ok (durable w)")
  case True
  show ?thesis
  proof (rule operate_calls[of g a])
    fix b
    assume b: "operate g a = (service (pp_primitives g) b :: ('x, go_error option) handler)"
      "set (call_events (oc_call b)) \<subseteq> command_events"
    have out: "call_outcome b w (fst (operate g a w)) (snd (operate g a w))"
      using serviceD[OF True, of b "pp_primitives g"] by (simp add: b(1))
    show ?thesis
      by (rule command_commanded[OF outcome_step[OF out b(2)]]) (use out in \<open>simp add: call_outcome_def\<close>)
  qed (simp add: commanded_def ret_def)
qed (simp add: commanded_def)

interpretation calls: call_sequence "service c :: operator_call \<Rightarrow> ('x, go_error option) handler" kept_well for c
proof (unfold_locales, goal_cases)
  case (3 w a)
  then show ?case
    using serviceD[of w a c] outcome_step[of a w _ "snd (service c a w)" UNIV]
    by (auto simp: kept_well_def call_outcome_def performed_def)
qed (auto simp: kept_well_def)

interpretation commands: call_sequence "operate g :: pool_command \<Rightarrow> ('x, go_error option) handler" commanded for g
proof (unfold_locales, goal_cases)
  case (3 w a)
  show ?case by (rule operate_commanded)
qed (auto simp: commanded_def)

subsection \<open>Properties\<close>

text \<open>C31: Under every fault schedule, a call of the service is refused without any change, or it performs
  exactly one of its events: the pool moves along a step of the lifecycle machine, one audit event names the
  step, the operator and the reason, every other pool and every other table but the operational events stays
  as it was, and without faults the caller learns which of the two happened.\<close>

theorem service_refines_lifecycle:
  assumes "pools_ok (durable w)"
  shows "call_outcome a w (fst (service c a w)) (snd (service c a w))"
  by (rule serviceD[OF assms])

text \<open>C32: Whatever the operators call and whatever fails, the pools stay well-formed: every row satisfies the
  constraints of its columns, only an active pool is enabled, every credential belongs to a pool and is
  revoked when its pool was revoked or is being deleted, and the audit trail only grows.\<close>

theorem service_pools_well_formed:
  assumes "pools_ok (durable w)"
  shows "let d' = durable (snd (run_all (service c) calls w)) in
    pools_ok d' \<and> (\<exists>more. worker_pool_audit_events d' = worker_pool_audit_events (durable w) @ more)"
  using calls.run_related[of w c calls] assms by (simp add: kept_well_def Let_def)

text \<open>C33: A pool that was drained, revoked or failed takes no more jobs: after every sequence of commands it is
  still out of service, and the scheduler finds no due monitor of it.\<close>

theorem drained_pool_gets_no_jobs:
  assumes ok: "pools_ok (durable w)" and out: "out_of_service (pool_state i (durable w))"
  shows "let d' = durable (snd (run_all (operate g) commands w)) in
    out_of_service (pool_state i d') \<and> (\<forall>(m, p)\<in>set (due_rows ts d'). mon_worker_pool_id m \<noteq> i)"
proof -
  let ?d = "durable (snd (run_all (operate g) commands w))"
  have d: "pools_ok ?d" "out_of_service (pool_state i ?d)"
    using commands.run_related[of w g commands] ok out by (simp_all add: commanded_def)
  have "mon_worker_pool_id m \<noteq> i" if "(m, p) \<in> set (due_rows ts ?d)" for m p
  proof
    assume "mon_worker_pool_id m = i"
    with that have p: "p \<in> set (worker_pools ?d)" "wp_id p = i" "wp_lifecycle_state p = ''active''"
      by (auto simp: due_rows_def pool_takes_jobs_def)
    have "p' = p" if "p' \<in> set (worker_pools ?d)" "wp_id p' = i" for p'
      using pools_okD(1)[OF d(1)] that p(1,2) by (auto simp: distinct_map dest: inj_onD)
    moreover obtain p' where p': "pool_named i ?d = Some p'"
      using d(2) by (auto simp: out_of_service_def pool_state_def)
    ultimately have "pool_state i ?d = Some ''active''"
      using pool_named_Some[OF p'] p(3) by (auto simp: pool_state_def p')
    with d(2) show False
      by (simp add: out_of_service_def)
  qed
  with d(2) show ?thesis
    by (auto simp: Let_def)
qed

text \<open>C35: The command cannot delete a pool.  Its \<open>delete\<close> mode needs a pool in the state \<open>deleting\<close>, and no mode
  moves a pool there: as long as nothing else does, every sequence of commands leaves every pool in place, and
  every \<open>delete\<close> after it reports an error and changes nothing, whatever fails.\<close>

theorem operate_never_deletes:
  fixes w :: "(database, 'x) world"
  assumes ok: "pools_ok (durable w)" and no: "\<And>i. pool_state i (durable w) \<noteq> Some ''deleting''" and mode: "pc_mode a = ''delete''"
  shows "let w' = snd (run_all (operate g) commands w) in
    (\<forall>i. pool_state i (durable w) \<noteq> None \<longrightarrow> pool_state i (durable w') \<noteq> None) \<and>
    fst (operate g a w') \<noteq> None \<and> durable (snd (operate g a w')) = durable w'"
proof -
  obtain rs w' where run: "run_all (operate g) commands w = (rs, w')"
    by fastforce
  have w': "pools_ok (durable w')" "pool_state i (durable w') \<noteq> Some ''deleting''"
    and kept: "pool_state i (durable w) \<noteq> None \<Longrightarrow> pool_state i (durable w') \<noteq> None" for i
    using commands.run_related[of w g commands] ok no by (simp_all add: commanded_def run)
  have "fst (operate g a w') \<noteq> None \<and> durable (snd (operate g a w')) = durable w'"
  proof (rule operate_calls[of g a])
    fix b
    assume b: "operate g a = (service (pp_primitives g) b :: ('x, go_error option) handler)"
      "pc_mode a = ''delete'' \<Longrightarrow> call_events (oc_call b) = [Removed]"
    have "call_outcome b w' (fst (operate g a w')) (snd (operate g a w'))"
      using serviceD[OF w'(1), of b "pp_primitives g"] by (simp add: b(1))
    moreover have "\<not> performed i Removed actor reason (durable w') d" for i actor reason d
      using w'(2) by (simp add: performed_def pool_step_simps)
    ultimately show ?thesis
      using b(2)[OF mode] by (simp add: call_outcome_def)
  qed (simp add: ret_def)
  with kept show ?thesis
    by (simp add: run)
qed

lemma registered_ready:
  assumes ok: "pools_ok d" and can: "can_register c ts r actor reason d" and form: "registration_ok now r actor reason"
    and certificate: "rg_Mode r = ''customer_vpc'' \<Longrightarrow> \<exists>t. rg_MTLSNotAfter r = Some t \<and> ts' + 10 * day < databaseTimestamp t"
  shows "pool_named (rg_ID r) (registered c ts r d) = Some (registered_pool r)"
    and "activation_ready ts' (registered c ts r d) (registered_pool r)"
proof -
  have none: "pool_named (rg_ID r) d = None"
    using can by (simp add: can_register_def)
  then show "pool_named (rg_ID r) (registered c ts r d) = Some (registered_pool r)"
    by (simp add: pool_named_def registered_def select_one_append) (simp add: select_one_def registered_pool_def)
  have "\<not> counted_credential ts' (rg_ID r) x" if "x \<in> set (worker_pool_credentials d)" for x
    using that none pools_okD(3)[OF ok] by (auto simp: counted_credential_def credentials_owned_def pool_named_None)
  then have old: "count_where (counted_credential ts' (rg_ID r)) (worker_pool_credentials d) = 0"
    by (simp add: count_where_0_iff)
  have "count_where (counted_credential ts' (rg_ID r)) (new_credentials c ts r) = (if rg_Mode r = ''customer_vpc'' then 3 else 2)"
    using certificate
    by (auto simp: new_credentials_def registered_keys_def counted_credential_def pending_credential_def)
  with old show "activation_ready ts' (registered c ts r d) (registered_pool r)"
    using form by (simp add: activation_ready_def registered_pool_def registered_def registration_ok_def)
qed

text \<open>The key under which the consumer verifies the results of a pool that was just activated.\<close>

lemma activated_key:
  assumes ok: "pools_ok d" and can: "can_register c ts r actor reason d"
  shows "credential_key (rg_ResultKeyID r) (rg_ID r) (activated (rg_ID r) digest (registered c ts r d)) = Some (rg_ResultPublic r)"
proof -
  have other: "cr_worker_pool_id x \<noteq> rg_ID r" if "x \<in> set (worker_pool_credentials d)" for x
    using that can pools_okD(3)[OF ok] by (auto simp: can_register_def credentials_owned_def pool_named_None)
  then have "update_where (\<lambda>x. cr_worker_pool_id x = rg_ID r \<and> cr_status x = ''pending'') (\<lambda>x. x\<lparr>cr_status := ''active''\<rparr>)
      (worker_pool_credentials d) = worker_pool_credentials d"
    by (intro update_where_none) auto
  moreover have "filter (\<lambda>x. cr_worker_pool_id x = rg_ID r \<and> cr_purpose x = ''result_signing'' \<and> cr_key_id x = rg_ResultKeyID r \<and>
      cr_status x \<in> set [''active'', ''retired'']) (worker_pool_credentials d) = []"
    using other by (simp add: filter_empty_conv)
  ultimately show ?thesis
    by (simp add: credential_key_def activated_def registered_def changed_pool_def last_by_def new_credentials_def
        registered_keys_def pending_credential_def)
qed

text \<open>C34: Registering and activating puts a pool into service.  Without faults, a registration that the schema
  accepts succeeds; activating the pool with a verified manifest while its certificate is valid for ten days
  succeeds; then the pool is active and enabled with the registered keys and queues, and the consumer verifies
  its results under the registered key.\<close>

theorem Register_then_Activate:
  fixes w :: "(database, 'x) world"
  assumes ok: "pools_ok (durable w)" and calm: "faults w = []" and form: "registration_ok now r actor reason"
    and can: "can_register c ts r actor reason (durable w)"
    and certificate: "rg_Mode r = ''customer_vpc'' \<Longrightarrow> \<exists>t. rg_MTLSNotAfter r = Some t \<and> ts' + 10 * day < databaseTimestamp t"
    and digest: "length digest = 32" and operator: "audit_ok actor' reason'"
  shows "case Register c now ts r actor reason w of (refused, w1) \<Rightarrow> refused = None \<and>
    (case Activate ts' (rg_ID r) digest True actor' reason' w1 of (refused, w2) \<Rightarrow> refused = None \<and>
       pool_named (rg_ID r) (durable w2) = Some (activate_row digest (registered_pool r)) \<and>
       credential_key (rg_ResultKeyID r) (rg_ID r) (durable w2) = Some (rg_ResultPublic r))"
proof -
  let ?d1 = "audited (rg_ID r) ''register'' actor reason (registered c ts r (durable w))"
  let ?d2 = "audited (rg_ID r) ''activate'' actor' reason' (activated (rg_ID r) digest ?d1)"
  have d1: "pools_ok ?d1"
    by (simp add: pools_ok_registered[OF ok can])
  have "case Register c now ts r actor reason w of (refused, w1) \<Rightarrow> refused = None \<and> durable w1 = ?d1 \<and> faults w1 = []"
    unfolding Register_def using form
    by simp (rule transactionI[OF register_ends[OF pools_okD(3)[OF ok]]], use can calm in auto)
  then obtain w1 where w1: "Register c now ts r actor reason w = (None, w1)" "durable w1 = ?d1" "faults w1 = []"
    by (cases "Register c now ts r actor reason w") simp
  have "activation_ready ts' ?d1 (registered_pool r)"
    using registered_ready(2)[OF ok can form certificate] by (simp add: activation_ready_def)
  with registered_ready(1)[OF ok can form certificate] operator have "can_activate ts' (rg_ID r) actor' reason' ?d1"
    by (simp add: can_activate_def pool_satisfies_def)
  then have "case Activate ts' (rg_ID r) digest True actor' reason' w1 of (refused, w2) \<Rightarrow> refused = None \<and> durable w2 = ?d2"
    unfolding Activate_def using digest
    by simp (rule transactionI[OF activate_ends[OF _ digest]], use w1 pools_okD(2)[OF d1] in auto)
  moreover have "pool_named (rg_ID r) ?d2 = Some (activate_row digest (registered_pool r))"
  proof -
    have "pool_named (rg_ID r) ?d2 = pool_named (rg_ID r) (changed_pool (rg_ID r) (activate_row digest) ?d1)"
      by (simp add: activated_def pool_named_def)
    also have "\<dots> = map_option (activate_row digest) (pool_named (rg_ID r) ?d1)"
      by (rule moved_state) (simp add: activate_row_def)
    finally show ?thesis
      by (simp add: registered_ready(1)[OF ok can form certificate])
  qed
  moreover have "credential_key (rg_ResultKeyID r) (rg_ID r) ?d2 = Some (rg_ResultPublic r)"
    using activated_key[OF ok can, of digest] by (simp add: credential_key_def activated_def)
  ultimately show ?thesis
    by (auto simp: w1(1))
qed

text \<open>C36: Deleting a pool succeeds exactly when the pool is being deleted, has no outstanding job and no trusted
  credential, and no row refers to it; every other confirmed deletion reports an error and changes nothing.  In
  particular a pool with a monitor, with a completed job or with a stored result is never deleted, although the
  service only counts its outstanding jobs.\<close>

theorem Delete_pool_exact:
  fixes w :: "(database, 'x) world"
  assumes calm: "faults w = []" and confirmed: "deletion_confirmed i confirmation readiness"
  shows "case Delete_pool ts i confirmation actor reason readiness w of (refused, w') \<Rightarrow>
    if pool_satisfies (\<lambda>p. deletion_state ts (durable w) p = (''deleting'', 0, 0)) i (durable w) \<and>
       \<not> pool_referenced i (durable w) \<and> audit_ok actor reason
    then refused = None \<and> durable w' = audited i ''delete_complete'' actor reason (removed i (durable w))
    else refused \<noteq> None \<and> durable w' = durable w"
  unfolding Delete_pool_def can_remove_def[symmetric] using confirmed
  by simp (rule transactionI[OF delete_ends], use calm in auto)


subsection \<open>Concrete runs\<close>

definition operated_pool :: worker_pool_row where
  "operated_pool = sample_signing_pool\<lparr>wp_enabled := False, wp_lifecycle_state := ''draining''\<rparr>"

definition operated_database :: database where
  "operated_database = (empty_database sample_uuid)\<lparr>worker_pools := [operated_pool], check_jobs := [sample_job_row]\<rparr>"

definition sample_registration :: Registration where
  "sample_registration =
     \<lparr>rg_ID = ''q'', rg_Mode = ''customer_vpc'', rg_JobQueueURL = ''u'', rg_JobQueueARN = ''a'', rg_JobDLQURL = ''v'', rg_JobDLQARN = ''b'',
      rg_EncryptionKeyID = ''e'', rg_ResultKeyID = ''r'', rg_EncryptionPublic = replicate 32 CHR ''x'',
      rg_ResultPublic = replicate 32 CHR ''y'', rg_SchemaMin = 1, rg_SchemaMax = 2, rg_MTLSFingerprint = ''f'',
      rg_MTLSNotAfter = Some 1728000000000000\<rparr>"

definition sample_readiness :: DeletionReadiness where
  "sample_readiness = \<lparr>dr_SourceQueueEmpty = True, dr_DeadLetterQueueEmpty = True, dr_GatewayMappingRemoved = True\<rparr>"

definition sample_command :: "string \<Rightarrow> pool_command" where
  "sample_command mode =
     \<lparr>pc_mode = mode, pc_pool = ''p'', pc_poolMode = ''hosted'', pc_queueURL = [], pc_queueARN = [], pc_dlqURL = [], pc_dlqARN = [],
      pc_mtlsFingerprint = [], pc_mtlsExpiry = [], pc_gatewayMapped = True, pc_actor = ''o'', pc_reason = ''w'',
      pc_confirmation = ''delete:p'', pc_readiness = sample_readiness, pc_databaseURL = ''d'', pc_bundle_file = None,
      pc_manifest_file = None, pc_now = 0, pc_ts = 0\<rparr>"

definition sample_call :: "service_call \<Rightarrow> operator_call" where
  "sample_call call = \<lparr>oc_call = call, oc_actor = ''o'', oc_reason = ''w'', oc_now = 0, oc_ts = 0\<rparr>"

definition sample_parsers :: pool_parsers where
  "sample_parsers = \<lparr>pp_primitives = sample_primitives, pp_bundle = (\<lambda>_. None), pp_time = (\<lambda>_. None)\<rparr>"

lemma operated_named: "pool_named i operated_database = (if i = ''p'' then Some operated_pool else None)"
  by (simp add: pool_named_def operated_database_def empty_database_def select_one_def operated_pool_def sample_signing_pool_def sample_pool_def)

lemma operated_state: "pool_state i operated_database = (if i = ''p'' then Some ''draining'' else None)"
  by (simp add: pool_state_def operated_named operated_pool_def)

lemma operated_ok: "pools_ok operated_database"
  by (rule pools_okI) (auto simp: operated_database_def empty_database_def operated_pool_def sample_signing_pool_def sample_pool_def
      pool_columns_ok_def pool_id_ok_def pool_id_first_def less_eq_char_def lifecycle_states_def key_length_ok_def)

lemma sample_audit_ok: "audit_ok ''o'' ''w''"
  by (simp add: audit_ok_def)

theorem service_refines_lifecycle_witness:
  "let a = sample_call (Call_Transition ''p'' ''revoked''); w = world_with operated_database [Fine, Refused] () in
     call_outcome a w (fst (service sample_primitives a w)) (snd (service sample_primitives a w))"
  using service_refines_lifecycle[of "world_with operated_database [Fine, Refused] ()" "sample_call (Call_Transition ''p'' ''revoked'')" sample_primitives]
  by (simp add: operated_ok Let_def)

theorem service_pools_well_formed_witness:
  "pools_ok (durable (snd (run_all (service sample_primitives)
     [sample_call (Call_Register sample_registration), sample_call (Call_Transition ''p'' ''revoked'')] (world_with operated_database [Fine, Refused] ()))))"
  using service_pools_well_formed[of "world_with operated_database [Fine, Refused] ()" sample_primitives
      "[sample_call (Call_Register sample_registration), sample_call (Call_Transition ''p'' ''revoked'')]"]
  by (simp add: operated_ok Let_def)

theorem drained_pool_gets_no_jobs_witness:
  "out_of_service (pool_state ''p'' (durable (snd (run_all (operate sample_parsers) [sample_command ''fail'', sample_command ''revoke'']
     (world_with operated_database [Fine, Lost_Reply] ())))))"
  using drained_pool_gets_no_jobs[of "world_with operated_database [Fine, Lost_Reply] ()" "''p''" sample_parsers
      "[sample_command ''fail'', sample_command ''revoke'']" 0]
  by (simp add: operated_ok operated_state out_of_service_def Let_def)

theorem operate_never_deletes_witness:
  "fst (operate sample_parsers (sample_command ''delete'') (snd (run_all (operate sample_parsers) [sample_command ''revoke'']
     (world_with operated_database [] ())))) \<noteq> None"
  using operate_never_deletes[of "world_with operated_database [] ()" "sample_command ''delete''" sample_parsers "[sample_command ''revoke'']"]
  by (simp add: operated_ok operated_state sample_command_def Let_def)

lemma sample_can_register: "can_register sample_primitives 0 sample_registration ''o'' ''w'' operated_database"
  by (simp add: can_register_def operated_named sample_registration_def registered_pool_def pool_columns_ok_def pool_id_ok_def
      pool_id_first_def less_eq_char_def lifecycle_states_def key_length_ok_def new_credentials_def registered_keys_def
      credential_columns_ok_def pending_credential_def sample_audit_ok sample_primitives_def)

theorem Register_then_Activate_witness:
  "fst (Register sample_primitives 0 0 sample_registration ''o'' ''w'' (world_with operated_database [] ())) = None"
proof -
  have form: "registration_ok 0 sample_registration ''o'' ''w''"
    by (simp add: registration_ok_def sample_registration_def)
  have certificate: "\<exists>t. rg_MTLSNotAfter sample_registration = Some t \<and> 0 + 10 * day < databaseTimestamp t"
    by (simp add: sample_registration_def databaseTimestamp_def truncate_time_def)
  show ?thesis
    using Register_then_Activate[of "world_with operated_database [] ()" 0 sample_registration "''o''" "''w''" sample_primitives 0 0
        "replicate 32 CHR ''d''" "''o''" "''w''"] form certificate
    by (auto simp: operated_ok sample_can_register sample_audit_ok)
qed

theorem Delete_pool_exact_witness:
  "fst (Delete_pool 0 ''p'' ''delete:p'' ''o'' ''w'' sample_readiness (world_with operated_database [] ())) \<noteq> None"
proof -
  have "deletion_confirmed ''p'' ''delete:p'' sample_readiness"
    by (simp add: deletion_confirmed_def sample_readiness_def)
  moreover have "\<not> pool_satisfies (\<lambda>p. deletion_state 0 operated_database p = (''deleting'', 0, 0)) ''p'' operated_database"
    by (simp add: pool_satisfies_def operated_named deletion_state_def operated_pool_def)
  ultimately show ?thesis
    using Delete_pool_exact[of "world_with operated_database [] ()" "''p''" "''delete:p''" sample_readiness 0 "''o''" "''w''"]
    by auto
qed


end
