(* ===== verification/Spec2Isabelle.thy ===== *)
theory Spec2Isabelle
  imports Authorization Ledger WorkerPool
begin

text \<open>
  Verification of the WatchTrace platform, an uptime monitor written in Go over PostgreSQL and Amazon SQS.

  \<^bold>\<open>The program.\<close>  A scheduler picks the monitors that are due, creates a job for each, seals the job for the
  worker pool of the monitor and puts the message into an outbox table.  A publisher sends the outbox to the
  job queue of the pool.  Workers run the checks and send signed results to a result queue.  A consumer verifies
  each result against its job, stores it, evaluates the state of the monitor in the order of the schedule, and
  opens or resolves the incident of the monitor; an incident enqueues notifications, which a mail worker
  delivers.  Upkeep expires overdue jobs, removes old ones and reconciles the dead-letter queues.  Operators
  register, activate, drain, revoke and delete worker pools.  Members act on incidents under a role policy.  All
  of these parts meet in the tables of one database, and each of them is a Go service that opens a
  transaction, issues statements whose errors return early, and commits.

  \<^bold>\<open>The library.\<close>
  \<^item> \<open>Prelude\<close>: time as a count of nanoseconds, and tables as lists of rows with the operations of SQL on them.
  \<^item> \<open>Transaction\<close>: programs over a world with a committed database, the private copy of the open transaction,
    the state of the remote services, and a schedule of faults.  A round trip can be refused, or take effect and
    lose its reply; a failed statement breaks its transaction.  A property \<open>under every fault schedule\<close> quantifies
    over this schedule.  The theory has the program logic: invariants (\<open>keeps\<close>), triples, the outcome of a
    fragment of a transaction (\<open>ends_in\<close>, \<open>yields\<close>), whole transactions (\<open>transactionI\<close>), statements whose error
    is ignored, and sequences of calls (the locale \<open>call_sequence\<close>).
  \<^item> \<open>Schema\<close>: the tables of \<open>db/migrations\<close> as records.  Each statement writes out the constraints that it can
    violate, and then returns the name of the constraint.
  \<^item> \<open>LeaseQueue\<close>: the contract of a table of rows that workers lease (the locale \<open>lease_queue\<close>), interpreted on
    the dispatch outbox and on the notification outbox.
  \<^item> \<open>GoText\<close>: runes, trimming, hexadecimal and base64 text of the Go library.

  \<^bold>\<open>The components.\<close>  One definition per Go function or SQL query, with its name; a function that is long is
  split at its branches and loops, and the pieces are composed in the order of the code.
  \<^item> \<open>Authorization\<close>: \<open>internal/authorization/policy.go\<close>; the permissions of every role.
  \<^item> \<open>Reliability\<close> and \<open>ReliabilityOrder\<close>: \<open>internal/reliability/evaluation.go\<close>.  The state of a monitor is a closed
    form of its history, it does not depend on the order in which results arrive, and an evaluation is stored
    in one piece.
  \<^item> \<open>Incident\<close>: \<open>internal/incident/service.go\<close>.  Applying an evaluation refines a threshold contract over the open
    incidents, their timeline and the notifications; the actions of members have exact outcomes.
  \<^item> \<open>Notification\<close>: \<open>internal/notification/worker.go\<close>.  The outbox stays consistent, a lost lease settles nothing,
    each recipient is enqueued once, and stored provider text fits its column.
  \<^item> \<open>Envelope\<close>: \<open>internal/envelope/envelope.go\<close>.  Sealed jobs and signed results round-trip, an opened job is
    authentic, and the signed bytes determine what was signed.
  \<^item> \<open>Secrets\<close>: \<open>internal/secureheaders/keyring.go\<close> and \<open>internal/quarantine/crypto.go\<close>; round trips of what is stored
    encrypted.
  \<^item> \<open>Dispatch\<close>: \<open>internal/fifo/publisher.go\<close>.  A message is sent at most three times per stored job, the publisher
    refines a lease queue, and the loop drains the outbox.
  \<^item> \<open>Scheduler\<close>: \<open>internal/fifo/scheduler.go\<close>.  The next slot is computed in 64-bit arithmetic, a batch is stored
    entirely or not at all, and the worker can open every stored message.
  \<^item> \<open>Consumer\<close>: \<open>internal/fifo/consumer.go\<close>, composed with the evaluation and the incidents.  A result is recorded
    before it is acknowledged, the first result of a job stays, and every outcome of a delivery is characterised.
  \<^item> \<open>Ledger\<close>: \<open>internal/fifo/maintenance.go\<close> and \<open>internal/fifo/dlq.go\<close>; the sweep, the cleanup, the metrics and the
    dead letters.
  \<^item> \<open>WorkerPool\<close>: \<open>internal/workerpool/service.go\<close> and \<open>cmd/worker-pool\<close>.  The service refines a lifecycle machine
    (the inductive relation \<open>pool_step\<close>), and the lifecycle is composed with the scheduler, the publisher and the
    consumer.

  \<^bold>\<open>Parameters and hypotheses.\<close>  The cryptographic primitives and the codecs are a record of functions; what the
  code relies on is named (\<open>crypto_laws\<close>, \<open>codec_laws\<close>) and holds for the concrete functions of the witnesses.
  Queues, the mail provider, clocks, drawn nonces and the iteration order of Go maps are arguments.  Generated
  identifiers come from a sequence in the database, and theorems about fresh ones assume that it does not
  repeat.

  \<^bold>\<open>Bounds.\<close>  No definition needs fuel.  The Go loops that run until a context is cancelled are recursions over the
  list of the inputs of their calls, so that a property holds for every number of calls; all other loops are
  recursions over the rows they visit.  Times are unbounded integers except where the code multiplies durations
  (\<open>nextSchedule\<close>), where they are 64-bit words.

  \<^bold>\<open>Isolation.\<close>  A transaction runs against the committed database of its start.  The modelled services lock the
  rows they change (\<open>FOR UPDATE\<close>, \<open>SKIP LOCKED\<close>) or rely on unique indexes, so interleavings are represented as
  sequences of whole transactions; the concurrent publishers and mail workers of \<open>Dispatch\<close> and \<open>Notification\<close>
  interleave between their transactions.

  \<^bold>\<open>Not modelled.\<close>  HTTP handlers, routing, sessions and the views of the API (\<open>internal/httpapi\<close>, \<open>auth\<close>,
  \<open>backendapi\<close>, \<open>realtime\<close>, \<open>ownership\<close>) and the management of monitors (\<open>internal/monitor\<close>), which are outside the
  path from a schedule to a notification; the rollups, the retention and the reports of \<open>internal/reliability\<close>;
  the worker process and its transports (\<open>modworker\<close>, \<open>checkengine\<close>, \<open>destination\<close>, \<open>workerjournal\<close>, \<open>workqueue\<close>,
  \<open>queuegateway\<close>), which are network code; key, certificate and manifest tools (\<open>deploymentkeys\<close>, \<open>mtlspki\<close>,
  \<open>artifact\<close>, \<open>deploymentmanifest\<close>, \<open>gatewayconfig\<close>), which are file formats over library cryptography; operational
  metrics and the process wiring (\<open>operations\<close>, \<open>platform\<close>, \<open>cmd\<close>).
\<close>

end
